(* ===== verification/Relayer_Prelude.thy ===== *)
theory Relayer_Prelude
  imports Main "HOL-Library.Word" "HOL-Library.Sublist"
begin

section \<open>Prelude\<close>

text \<open>
  What every component of the development shares: the names of the machine-level types of the
  relayer (\<open>byte\<close>, \<open>address\<close>, \<open>hash32\<close>), the run-time panics of Go that a branch of the code can
  raise, the big-endian byte rendering of words, and the generic list and byte lemmas.

  Two collections of rewrite rules carry the proofs of the components: \<open>go_run\<close> evaluates a
  straight-line piece of code on one of its branches, \<open>wf_rules\<close> holds the facts that an operation
  keeps a well-formedness predicate.
\<close>

named_theorems go_run "evaluation of one operation on one of its branches"
named_theorems wf_rules "operations keep the well-formedness of the state"

type_synonym byte = "8 word"
type_synonym bytes = "byte list"

text \<open>\<open>common.Address\<close> is a 20-byte array and \<open>common.Hash\<close> a 32-byte array.\<close>

type_synonym address = "160 word"
type_synonym hash32 = "256 word"

text \<open>The run-time panics that an operation of the relayer could raise.\<close>

datatype go_panic =
    NilDereference
  | IndexOutOfRange
  | SendOnClosedChannel
  | CloseOfClosedChannel
  | TypeAssertion

subsection \<open>Bytes of words\<close>

definition be_bytes :: "nat \<Rightarrow> 'a::len word \<Rightarrow> bytes" where
  "be_bytes n w = map (\<lambda>i. ucast (drop_bit (8 * i) w)) (rev [0..<n])"

text \<open>\<open>Address.Bytes()\<close> and \<open>Hash.Bytes()\<close>: the array as a slice.\<close>

abbreviation address_bytes :: "address \<Rightarrow> bytes" where
  "address_bytes a \<equiv> be_bytes 20 a"

abbreviation hash_bytes :: "hash32 \<Rightarrow> bytes" where
  "hash_bytes h \<equiv> be_bytes 32 h"

lemma length_be_bytes [simp]: "length (be_bytes n w) = n"
  by (simp add: be_bytes_def)

lemma be_bytes_Nil_iff [simp]: "be_bytes n w = [] \<longleftrightarrow> n = 0"
  using length_be_bytes [of n w] by (metis length_0_conv)

lemma last_be_bytes [simp]: "0 < n \<Longrightarrow> last (be_bytes n w) = ucast w"
  by (simp add: be_bytes_def last_map last_rev hd_upt)

lemma be_bytes_nth:
  "i < n \<Longrightarrow> be_bytes n w ! i = ucast (drop_bit (8 * (n - Suc i)) w)"
  by (simp add: be_bytes_def rev_nth)

lemma be_bytes_inj:
  fixes v w :: "'a::len word"
  assumes width: "LENGTH('a) \<le> 8 * n" and eq: "be_bytes n v = be_bytes n w"
  shows "v = w"
proof (rule bit_word_eqI)
  fix j assume j: "j < LENGTH('a)"
  define i where "i = n - Suc (j div 8)"
  from j width have "j div 8 < n" by simp
  then have i: "i < n" and ival: "n - Suc i = j div 8"
    by (auto simp: i_def)
  have split: "8 * (j div 8) + j mod 8 = j" by simp
  have "bit (be_bytes n v ! i) (j mod 8) = bit (be_bytes n w ! i) (j mod 8)"
    by (simp add: eq)
  then show "bit v j = bit w j"
    using split by (simp add: be_bytes_nth [OF i] ival bit_ucast_iff bit_drop_bit_eq)
qed

lemma be_bytes_eq_iff [simp]:
  fixes v w :: "'a::len word"
  shows "LENGTH('a) \<le> 8 * n \<Longrightarrow> be_bytes n v = be_bytes n w \<longleftrightarrow> v = w"
  using be_bytes_inj by blast

subsection \<open>Strings and byte slices\<close>

text \<open>
  A Go string is a sequence of bytes, here a list of 8-bit characters; \<open>[]byte(s)\<close> copies them.
\<close>

definition string_bytes :: "string \<Rightarrow> bytes" where
  "string_bytes s = map of_char s"

lemma length_string_bytes [simp]: "length (string_bytes s) = length s"
  by (simp add: string_bytes_def)

lemma of_char_byte_eq_iff [simp]:
  "(of_char c :: byte) = of_char d \<longleftrightarrow> c = d"
proof
  assume "(of_char c :: byte) = of_char d"
  then have "(of_nat (of_char c) :: byte) = of_nat (of_char d)"
    by (simp only: of_nat_of_char)
  then have "unat (of_nat (of_char c) :: byte) = unat (of_nat (of_char d) :: byte)"
    by (rule arg_cong)
  then show "c = d" by (simp add: unat_of_nat)
qed simp

lemma string_bytes_eq_iff [simp]: "string_bytes s = string_bytes t \<longleftrightarrow> s = t"
  by (auto simp: string_bytes_def intro: map_injective [OF _ injI])

lemma string_bytes_simps [simp]:
  "string_bytes [] = []"
  "string_bytes (c # s) = of_char c # string_bytes s"
  "string_bytes (s @ t) = string_bytes s @ string_bytes t"
  by (simp_all add: string_bytes_def)

subsection \<open>The first maximal element of a list\<close>

definition first_max :: "('a \<Rightarrow> 'k::linorder) \<Rightarrow> 'a list \<Rightarrow> 'a option" where
  "first_max key xs = find (\<lambda>x. key x = Max (key ` set xs)) xs"

lemma first_max_Nil [simp]: "first_max key [] = None"
  by (simp add: first_max_def)

lemma first_max_single [simp]: "first_max key [x] = Some x"
  by (simp add: first_max_def)

text \<open>One round of a loop that keeps the running maximum.\<close>

lemma first_max_step:
  "first_max key (x # y # zs) =
     (if key x < key y then first_max key (y # zs) else first_max key (x # zs))"
proof -
  define m where "m = Max (key ` set (x # y # zs))"
  have le: "key x \<le> m" "key y \<le> m" unfolding m_def by (rule Max_ge; simp)+
  have at: "first_max key ws = find (\<lambda>w. key w = m) ws" if "m = Max (key ` set ws)" for ws
    by (simp only: first_max_def that)
  note whole = at [of "x # y # zs", OF m_def]
  show ?thesis
  proof (cases "key x < key y")
    case True
    have "key y \<le> Max (key ` set (y # zs))" by (rule Max_ge) simp_all
    with True have "key x \<le> Max (key ` set (y # zs))" by order
    then have m: "m = Max (key ` set (y # zs))" by (simp add: m_def max_def)
    from True le have "key x \<noteq> m" by auto
    with True show ?thesis by (simp add: whole at [OF m])
  next
    case False
    then have m: "m = Max (key ` set (x # zs))"
      by (cases "zs = []") (auto simp: m_def max_def)
    from False le have "key x \<noteq> m \<Longrightarrow> key y \<noteq> m" by auto
    with False show ?thesis by (simp add: whole at [OF m])
  qed
qed

lemma find_SomeD:
  "find P xs = Some x \<Longrightarrow> \<exists>ys zs. xs = ys @ x # zs \<and> P x \<and> (\<forall>y \<in> set ys. \<not> P y)"
proof (induction xs)
  case (Cons a xs)
  show ?case
  proof (cases "P a")
    case True
    with Cons.prems show ?thesis by (intro exI [of _ "[]"] exI [of _ xs]) simp
  next
    case False
    with Cons obtain ys zs where "xs = ys @ x # zs" "P x" "\<forall>y \<in> set ys. \<not> P y" by auto
    with False show ?thesis by (intro exI [of _ "a # ys"] exI [of _ zs]) simp
  qed
qed simp

lemma find_appendI: "P x \<Longrightarrow> \<forall>y \<in> set ys. \<not> P y \<Longrightarrow> find P (ys @ x # zs) = Some x"
  by (induction ys) auto

lemma first_max_Some_iff:
  "first_max key xs = Some x \<longleftrightarrow>
     (\<exists>ys zs. xs = ys @ x # zs \<and> (\<forall>y \<in> set ys. key y < key x) \<and> (\<forall>z \<in> set zs. key z \<le> key x))"
  (is "?l \<longleftrightarrow> ?r")
proof
  assume ?l
  then obtain ys zs where xs: "xs = ys @ x # zs" and m: "key x = Max (key ` set xs)"
    and ne: "\<forall>y \<in> set ys. key y \<noteq> Max (key ` set xs)"
    unfolding first_max_def by (blast dest: find_SomeD)
  have "key y \<le> key x" if "y \<in> set xs" for y
    using that by (simp add: m)
  with xs m ne have "(\<forall>y \<in> set ys. key y < key x) \<and> (\<forall>z \<in> set zs. key z \<le> key x)"
    by (auto simp: order_less_le)
  with xs show ?r by blast
next
  assume ?r
  then obtain ys zs where xs: "xs = ys @ x # zs" and ys: "\<forall>y \<in> set ys. key y < key x"
    and zs: "\<forall>z \<in> set zs. key z \<le> key x" by blast
  from ys zs have "Max (key ` set xs) = key x"
    by (intro Max_eqI) (auto simp: xs less_imp_le)
  with ys show ?l unfolding first_max_def xs by (intro find_appendI) auto
qed

lemma first_max_None_iff [simp]: "first_max key xs = None \<longleftrightarrow> xs = []"
proof (cases xs)
  case (Cons a as)
  have "Max (key ` set xs) \<in> key ` set xs" by (rule Max_in) (simp_all add: Cons)
  then show ?thesis unfolding first_max_def find_None_iff by (metis Cons imageE list.distinct(1))
qed simp

lemma first_max_mem: "first_max key xs = Some x \<Longrightarrow> x \<in> set xs"
  by (auto simp: first_max_Some_iff)

lemma first_max_ge: "first_max key xs = Some x \<Longrightarrow> y \<in> set xs \<Longrightarrow> key y \<le> key x"
  by (auto simp: first_max_Some_iff less_imp_le)

end
