(* ===== verification/Core_Types.thy ===== *)
theory Core_Types
  imports Relayer_Prelude "HOL-Library.Product_Lexorder"
begin

section \<open>Domain types (\<open>internal/core\<close>) and the library types they are made of\<close>

text \<open>
  The structs \<open>Intent\<close>, \<open>Bid\<close> and \<open>Voucher\<close> of \<open>internal/core\<close>, and the two types of Go's library
  their fields use: \<open>*big.Int\<close>, a possibly nil pointer to an unbounded integer, and \<open>time.Time\<close>, a
  signed 64-bit count of seconds since the year 1 with a nanosecond part. The arithmetic of
  \<open>time.Unix\<close> and \<open>Time.Unix\<close> wraps around at 64 bits, which is kept here.
\<close>

subsection \<open>\<open>time.Time\<close>\<close>

record go_time =
  tSec :: "64 word"
  tNsec :: nat

definition unixToInternal :: "64 word" where
  "unixToInternal = 62135596800"

definition time_Unix :: "64 word \<Rightarrow> go_time" where
  "time_Unix sec = \<lparr>tSec = sec + unixToInternal, tNsec = 0\<rparr>"

definition Time_Unix :: "go_time \<Rightarrow> 64 word" where
  "Time_Unix t = tSec t - unixToInternal"

definition Time_After :: "go_time \<Rightarrow> go_time \<Rightarrow> bool" where
  "Time_After t u \<longleftrightarrow>
     sint (tSec u) < sint (tSec t) \<or> (tSec t = tSec u \<and> tNsec u < tNsec t)"

lemma Time_Unix_time_Unix [simp]: "Time_Unix (time_Unix sec) = sec"
  by (simp add: Time_Unix_def time_Unix_def)

subsection \<open>\<open>*big.Int\<close>\<close>

type_synonym bigptr = "int option"

text \<open>
  \<open>x.Cmp(y)\<close> compares the pointers first, so two nil pointers compare as equal; any other nil
  operand is dereferenced and panics.
\<close>

fun big_Cmp :: "bigptr \<Rightarrow> bigptr \<Rightarrow> go_panic + int" where
  "big_Cmp (Some x) (Some y) = Inr (sgn (x - y))"
| "big_Cmp None None = Inr 0"
| "big_Cmp _ _ = Inl NilDereference"

subsection \<open>\<open>Intent\<close>, \<open>Bid\<close>, \<open>Voucher\<close>\<close>

type_synonym intent_id = string

record intent =
  iID :: intent_id
  iSender :: address
  iTokenIn :: address
  iTokenOut :: address
  iAmountIn :: bigptr
  iMinAmountOut :: bigptr
  iDeadline :: go_time
  iNonce :: "64 word"
  iSignature :: bytes
  iReceivedAt :: go_time

record bid =
  bIntentID :: intent_id
  bSolver :: address
  bAmountOut :: bigptr
  bGasPrice :: bigptr
  bReceivedAt :: go_time
  bSignature :: bytes

record voucher =
  vIntentID :: intent_id
  vWinningSolver :: address
  vAmountOut :: bigptr
  vIntent :: "intent option"
  vWinningBid :: "bid option"
  vCreatedAt :: go_time

text \<open>
  A bid is priced when neither of its two amounts is nil; its price orders bids by the amount
  offered, then by the gas price (the lexicographic order on pairs).
\<close>

definition bid_priced :: "bid \<Rightarrow> bool" where
  "bid_priced b \<longleftrightarrow> bAmountOut b \<noteq> None \<and> bGasPrice b \<noteq> None"

definition bid_price :: "bid \<Rightarrow> int \<times> int" where
  "bid_price b = (the (bAmountOut b), the (bGasPrice b))"

text \<open>A voucher whose fields all speak of the same intent and of the same winning bid.\<close>

definition voucher_ok :: "voucher \<Rightarrow> bool" where
  "voucher_ok v \<longleftrightarrow>
     (\<exists>i w. vIntent v = Some i \<and> vWinningBid v = Some w \<and> vIntentID v = iID i \<and>
        bIntentID w = iID i \<and> bid_priced w \<and>
        vWinningSolver v = bSolver w \<and> vAmountOut v = bAmountOut w)"

text \<open>Concrete values, for the theorems that evaluate the definitions on an input.\<close>

definition sample_intent :: "intent_id \<Rightarrow> int \<Rightarrow> intent" where
  "sample_intent iid minOut =
     \<lparr>iID = iid, iSender = 1, iTokenIn = 2, iTokenOut = 3, iAmountIn = Some 1000,
      iMinAmountOut = Some minOut, iDeadline = time_Unix 1775000000, iNonce = 1,
      iSignature = [], iReceivedAt = time_Unix 1700000000\<rparr>"

definition sample_bid :: "intent_id \<Rightarrow> address \<Rightarrow> int \<Rightarrow> int \<Rightarrow> bid" where
  "sample_bid iid solver amount gas =
     \<lparr>bIntentID = iid, bSolver = solver, bAmountOut = Some amount, bGasPrice = Some gas,
      bReceivedAt = time_Unix 1700000001, bSignature = []\<rparr>"

lemmas sample_defs = sample_intent_def sample_bid_def

end
