(* ===== verification/Go_Chan.thy ===== *)
theory Go_Chan
  imports Relayer_Prelude
begin

section \<open>Buffered Go channels\<close>

text \<open>
  The Event Bus of the relayer is made of buffered channels (\<open>intentCh\<close>, \<open>bidCh\<close>, \<open>voucherCh\<close>,
  \<open>txFailedCh\<close> and the \<open>send\<close> queue of every solver client). The language gives a buffered channel
  a capacity, the values in flight in order of arrival and whether it has been closed. All sends of
  the relayer are of the non-blocking form \<open>select { case ch <- x: default: }\<close>; a send on a closed
  channel and a second \<open>close\<close> panic. A receive returns the buffered values first, then reports the
  closing (\<open>ok\<close> is false), and blocks when the channel is open and empty.

  The interface \<open>bounded_queue\<close> states what the clients of a channel rely on; the interpretation at
  the end discharges it for the channels of the language.
\<close>

record 'a gochan =
  chBuf :: "'a list"
  chCap :: nat
  chClosed :: bool

definition make_chan :: "nat \<Rightarrow> 'a gochan" where
  "make_chan n = \<lparr>chBuf = [], chCap = n, chClosed = False\<rparr>"

definition try_send :: "'a \<Rightarrow> 'a gochan \<Rightarrow> go_panic + bool \<times> 'a gochan" where
  "try_send x ch =
     (if chClosed ch then Inl SendOnClosedChannel
      else if length (chBuf ch) < chCap ch then Inr (True, ch\<lparr>chBuf := chBuf ch @ [x]\<rparr>)
      else Inr (False, ch))"

datatype 'a received = Received 'a | ChanClosed | WouldBlock

definition chan_recv :: "'a gochan \<Rightarrow> 'a received \<times> 'a gochan" where
  "chan_recv ch =
     (case chBuf ch of
        x # xs \<Rightarrow> (Received x, ch\<lparr>chBuf := xs\<rparr>)
      | [] \<Rightarrow> (if chClosed ch then ChanClosed else WouldBlock, ch))"

definition close_chan :: "'a gochan \<Rightarrow> go_panic + 'a gochan" where
  "close_chan ch =
     (if chClosed ch then Inl CloseOfClosedChannel else Inr (ch\<lparr>chClosed := True\<rparr>))"

text \<open>A channel in use: open, and never holding more than its capacity.\<close>

definition chan_ok :: "'a gochan \<Rightarrow> bool" where
  "chan_ok ch \<longleftrightarrow> \<not> chClosed ch \<and> length (chBuf ch) \<le> chCap ch"

subsection \<open>Runs of a queue\<close>

datatype 'a queue_op = Offer 'a | Poll

text \<open>
  The run of a sequence of operations on a queue: the values that were accepted, the values that
  were taken, and the queue left, or the panic that stopped it.
\<close>

fun queue_run ::
  "('a \<Rightarrow> 'q \<Rightarrow> go_panic + bool \<times> 'q) \<Rightarrow> ('q \<Rightarrow> 'a received \<times> 'q) \<Rightarrow> 'a queue_op list \<Rightarrow> 'q
   \<Rightarrow> go_panic + 'a list \<times> 'a list \<times> 'q" where
  "queue_run offer poll [] q = Inr ([], [], q)"
| "queue_run offer poll (Offer x # ops) q =
     (case offer x q of
        Inl p \<Rightarrow> Inl p
      | Inr (ok, q') \<Rightarrow>
          (case queue_run offer poll ops q' of
             Inl p \<Rightarrow> Inl p
           | Inr (acc, tk, q'') \<Rightarrow> Inr (if ok then x # acc else acc, tk, q'')))"
| "queue_run offer poll (Poll # ops) q =
     (case poll q of
        (r, q') \<Rightarrow>
          (case queue_run offer poll ops q' of
             Inl p \<Rightarrow> Inl p
           | Inr (acc, tk, q'') \<Rightarrow>
               Inr (acc, case r of Received x \<Rightarrow> x # tk | _ \<Rightarrow> tk, q'')))"

locale bounded_queue =
  fixes contents :: "'q \<Rightarrow> 'a list"
    and room :: "'q \<Rightarrow> nat"
    and offer :: "'a \<Rightarrow> 'q \<Rightarrow> go_panic + bool \<times> 'q"
    and poll :: "'q \<Rightarrow> 'a received \<times> 'q"
    and ok :: "'q \<Rightarrow> bool"
  assumes bounded: "ok q \<Longrightarrow> length (contents q) \<le> room q"
    and offer_fits: "ok q \<Longrightarrow> length (contents q) < room q \<Longrightarrow>
      \<exists>q'. offer x q = Inr (True, q') \<and> contents q' = contents q @ [x] \<and> room q' = room q \<and> ok q'"
    and offer_full: "ok q \<Longrightarrow> room q \<le> length (contents q) \<Longrightarrow> offer x q = Inr (False, q)"
    and poll_empty: "ok q \<Longrightarrow> contents q = [] \<Longrightarrow> poll q = (WouldBlock, q)"
    and poll_first: "ok q \<Longrightarrow> contents q = y # ys \<Longrightarrow>
      \<exists>q'. poll q = (Received y, q') \<and> contents q' = ys \<and> room q' = room q \<and> ok q'"
begin

lemma offer_total:
  assumes "ok q"
  obtains b q' where "offer x q = Inr (b, q')" and "ok q'" and "room q' = room q"
    and "contents q' = contents q @ (if b then [x] else [])"
    and "b \<longleftrightarrow> length (contents q) < room q"
proof (cases "length (contents q) < room q")
  case True
  with offer_fits [OF assms True, of x] that [of True] show ?thesis by auto
next
  case False
  with assms offer_full [of q x] that [of False q] show ?thesis by auto
qed

lemma poll_total:
  assumes "ok q"
  obtains r q' where "poll q = (r, q')" and "ok q'" and "room q' = room q"
    and "contents q = (case r of Received x \<Rightarrow> x # contents q' | _ \<Rightarrow> contents q')"
proof (cases "contents q")
  case Nil
  with assms poll_empty [of q] that [of WouldBlock q] show ?thesis by simp
next
  case (Cons y ys)
  with poll_first [OF assms Cons] that [of "Received y"] show ?thesis by auto
qed

text \<open>
  No run of a queue in use panics, and the values accepted come out in order: what was in the queue
  followed by what was accepted is what was taken followed by what is left.
\<close>

lemma run_conserves:
  "ok q \<Longrightarrow> \<exists>acc tk q'. queue_run offer poll ops q = Inr (acc, tk, q') \<and> ok q' \<and> room q' = room q
     \<and> contents q @ acc = tk @ contents q'"
proof (induction ops arbitrary: q)
  case Nil
  then show ?case by simp
next
  case (Cons op ops)
  show ?case
  proof (cases op)
    case (Offer x)
    obtain b q1 where s: "offer x q = Inr (b, q1)" "ok q1" "room q1 = room q"
        "contents q1 = contents q @ (if b then [x] else [])"
      by (rule offer_total [OF Cons.prems])
    from Cons.IH [OF s(2)] s Offer show ?thesis by fastforce
  next
    case Poll
    obtain r q1 where s: "poll q = (r, q1)" "ok q1" "room q1 = room q"
        "contents q = (case r of Received x \<Rightarrow> x # contents q1 | _ \<Rightarrow> contents q1)"
      by (rule poll_total [OF Cons.prems])
    from Cons.IH [OF s(2)] s Poll show ?thesis by (cases r) fastforce+
  qed
qed

end

interpretation gochan: bounded_queue chBuf chCap try_send chan_recv chan_ok
  by unfold_locales (auto simp: chan_ok_def try_send_def chan_recv_def)

subsection \<open>Rewrite rules for the clients\<close>

lemma make_chan_ok [simp]: "chan_ok (make_chan n)"
  by (simp add: chan_ok_def make_chan_def)

lemma make_chan_simps [simp]:
  "chBuf (make_chan n) = []" "chCap (make_chan n) = n" "\<not> chClosed (make_chan n)"
  by (simp_all add: make_chan_def)

lemma try_send_fits [go_run]:
  "chan_ok ch \<Longrightarrow> length (chBuf ch) < chCap ch \<Longrightarrow>
     try_send x ch = Inr (True, ch\<lparr>chBuf := chBuf ch @ [x]\<rparr>)"
  by (simp add: try_send_def chan_ok_def)

lemma try_send_full [go_run]:
  "chan_ok ch \<Longrightarrow> \<not> length (chBuf ch) < chCap ch \<Longrightarrow> try_send x ch = Inr (False, ch)"
  by (simp add: try_send_def chan_ok_def)

lemma chan_ok_append [simp]:
  "chan_ok ch \<Longrightarrow> length (chBuf ch) < chCap ch \<Longrightarrow> chan_ok (ch\<lparr>chBuf := chBuf ch @ [x]\<rparr>)"
  by (simp add: chan_ok_def)

lemma chan_ok_tail [simp]: "chan_ok ch \<Longrightarrow> chBuf ch = x # xs \<Longrightarrow> chan_ok (ch\<lparr>chBuf := xs\<rparr>)"
  by (simp add: chan_ok_def)

lemma chan_recv_cases:
  "chan_recv ch = (r, ch') \<Longrightarrow>
     (\<exists>x. r = Received x \<and> chBuf ch = x # chBuf ch' \<and> ch' = ch\<lparr>chBuf := chBuf ch'\<rparr>)
     \<or> (r \<in> {ChanClosed, WouldBlock} \<and> ch' = ch \<and> chBuf ch = [])"
  by (auto simp: chan_recv_def split: list.splits if_splits)

lemma chan_recv_ReceivedD:
  assumes "chan_recv ch = (Received x, ch')"
  shows "chBuf ch = x # chBuf ch'" and "chCap ch' = chCap ch" and "chClosed ch' = chClosed ch"
    and "chan_ok ch \<Longrightarrow> chan_ok ch'"
  using assms by (auto simp: chan_recv_def chan_ok_def split: list.splits if_splits)

end
