(* ===== verification/Go_Text.thy ===== *)
theory Go_Text
  imports Relayer_Prelude
begin

section \<open>Text functions of Go's library\<close>

text \<open>
  The functions of \<open>math/big\<close>, \<open>strconv\<close>, \<open>encoding/hex\<close>, \<open>strings\<close> and \<open>bufio\<close> that the relayer
  calls, each as the library writes it. A string is a list of bytes. The decimal and the hexadecimal
  form are two interpretations of one interface, \<open>text_codec\<close>: what is printed reads back, and
  nothing else does.

  The Unicode case tables behind \<open>strings.ToLower\<close> are not part of this development: the conversion
  of a string with a non-ASCII byte is an argument. White space is complete, since it is a list of
  eighteen encodings beside the ASCII ones.
\<close>

subsection \<open>The interface of a textual form\<close>

locale text_codec =
  fixes encode :: "'a \<Rightarrow> string" and decode :: "string \<Rightarrow> 'a option"
  assumes decode_encode: "decode (encode x) = Some x"
begin

lemma encode_inj: "encode x = encode y \<longleftrightarrow> x = y"
  by (metis decode_encode option.inject)

lemma decode_encode_eq: "decode (encode x) = Some y \<longleftrightarrow> x = y"
  by (simp add: decode_encode)

end

subsection \<open>Decimal digits\<close>

definition digit_val :: "char \<Rightarrow> nat option" where
  "digit_val c =
     (if 48 \<le> (of_char c :: nat) \<and> (of_char c :: nat) \<le> 57 then Some (of_char c - 48) else None)"

definition digit_char :: "nat \<Rightarrow> char" where
  "digit_char d = char_of (48 + d)"

definition is_digit :: "char \<Rightarrow> bool" where
  "is_digit c \<longleftrightarrow> digit_val c \<noteq> None"

lemma digit_val_digit_char [simp]: "d < 10 \<Longrightarrow> digit_val (digit_char d) = Some d"
  by (simp add: digit_val_def digit_char_def)

lemma is_digit_digit_char [simp]: "d < 10 \<Longrightarrow> is_digit (digit_char d)"
  by (simp add: is_digit_def)

lemma digit_val_less: "digit_val c = Some d \<Longrightarrow> d < 10"
  by (auto simp: digit_val_def split: if_splits)

text \<open>The value of a string of digits, read from the left.\<close>

definition digits_from :: "nat \<Rightarrow> string \<Rightarrow> nat" where
  "digits_from n ds = fold (\<lambda>c n. 10 * n + (case digit_val c of None \<Rightarrow> 0 | Some d \<Rightarrow> d)) ds n"

abbreviation digits_value :: "string \<Rightarrow> nat" where
  "digits_value ds \<equiv> digits_from 0 ds"

lemma digits_from_simps [simp]:
  "digits_from n [] = n"
  "digits_from n (c # ds) = digits_from (10 * n + (case digit_val c of None \<Rightarrow> 0 | Some d \<Rightarrow> d)) ds"
  "digits_from n (ds @ [c]) = 10 * digits_from n ds + (case digit_val c of None \<Rightarrow> 0 | Some d \<Rightarrow> d)"
  by (simp_all add: digits_from_def)

lemma digits_from_ge: "n \<le> digits_from n ds"
proof (induction ds arbitrary: n)
  case (Cons c ds)
  show ?case using Cons.IH [of "10 * n + (case digit_val c of None \<Rightarrow> 0 | Some d \<Rightarrow> d)"] by simp
qed simp

fun nat_string :: "nat \<Rightarrow> string" where
  "nat_string n = (if n < 10 then [digit_char n] else nat_string (n div 10) @ [digit_char (n mod 10)])"

declare nat_string.simps [simp del]

lemma nat_string_nonempty [simp]: "nat_string n \<noteq> []"
  by (subst nat_string.simps) simp

lemma nat_string_digits: "list_all is_digit (nat_string n)"
proof (induction n rule: nat_string.induct)
  case (1 n)
  then show ?case by (subst nat_string.simps) simp
qed

lemma digits_value_nat_string [simp]: "digits_value (nat_string n) = n"
proof (induction n rule: nat_string.induct)
  case (1 n)
  then show ?case
  proof (cases "n < 10")
    case True
    then show ?thesis by (subst nat_string.simps) simp
  next
    case False
    then have "digits_value (nat_string (n div 10)) = n div 10" using 1 by simp
    with False show ?thesis by (subst nat_string.simps) simp
  qed
qed

lemma nat_string_hd_digit: "nat_string n = c # cs \<Longrightarrow> is_digit c"
  using nat_string_digits [of n] by simp

subsection \<open>\<open>big.Int\<close>: \<open>SetString(s, 10)\<close> and \<open>String()\<close>\<close>

text \<open>
  An optional sign, then at least one digit, then the end of the string; in base 10 neither a prefix
  nor an underscore is accepted.
\<close>

definition big_digits :: "string \<Rightarrow> nat option" where
  "big_digits ds = (if ds \<noteq> [] \<and> list_all is_digit ds then Some (digits_value ds) else None)"

fun big_SetString :: "string \<Rightarrow> int option" where
  "big_SetString [] = None"
| "big_SetString (c # cs) =
     (if c = CHR ''-'' then map_option (\<lambda>n. - int n) (big_digits cs)
      else if c = CHR ''+'' then map_option int (big_digits cs)
      else map_option int (big_digits (c # cs)))"

definition big_String :: "int \<Rightarrow> string" where
  "big_String x = (if x < 0 then CHR ''-'' # nat_string (nat (- x)) else nat_string (nat x))"

lemma big_digits_nat_string [simp]: "big_digits (nat_string n) = Some n"
  by (simp add: big_digits_def nat_string_digits)

lemma sign_not_digit [simp]: "\<not> is_digit CHR ''-''" "\<not> is_digit CHR ''+''"
  by (simp_all add: is_digit_def digit_val_def)

lemma big_SetString_nat_string: "big_SetString (nat_string n) = Some (int n)"
proof (cases "nat_string n")
  case (Cons c cs)
  then have "is_digit c" by (rule nat_string_hd_digit)
  then have "c \<noteq> CHR ''-''" "c \<noteq> CHR ''+''" by auto
  with Cons show ?thesis using big_digits_nat_string [of n] by simp
qed simp

lemma big_SetString_String: "big_SetString (big_String x) = Some x"
  by (simp add: big_String_def big_SetString_nat_string)

interpretation decimal: text_codec big_String big_SetString
  by unfold_locales (rule big_SetString_String)

text \<open>\<open>x.String()\<close> on a pointer, which prints a nil pointer instead of failing.\<close>

fun bigptr_String :: "int option \<Rightarrow> string" where
  "bigptr_String None = ''<nil>''"
| "bigptr_String (Some x) = big_String x"

subsection \<open>\<open>strconv.ParseUint(s, 10, 64)\<close>\<close>

datatype parse_error = SyntaxError | RangeError

definition uint_cutoff :: "64 word" where
  "uint_cutoff = 1844674407370955162"

fun parseUint_loop :: "64 word \<Rightarrow> string \<Rightarrow> parse_error + 64 word" where
  "parseUint_loop n [] = Inr n"
| "parseUint_loop n (c # cs) =
     (case digit_val c of
        None \<Rightarrow> Inl SyntaxError
      | Some d \<Rightarrow>
          if uint_cutoff \<le> n then Inl RangeError
          else if n * 10 + of_nat d < n * 10 then Inl RangeError
          else parseUint_loop (n * 10 + of_nat d) cs)"

definition ParseUint :: "string \<Rightarrow> parse_error + 64 word" where
  "ParseUint s = (if s = [] then Inl SyntaxError else parseUint_loop 0 s)"

text \<open>The overflow tests of the loop are exact.\<close>

lemma parseUint_step:
  assumes "d < 10"
  shows "\<not> (uint_cutoff \<le> n \<or> n * 10 + of_nat d < n * 10) \<longleftrightarrow> 10 * unat n + d < 2 ^ 64"
    and "10 * unat n + d < 2 ^ 64 \<Longrightarrow> unat (n * 10 + of_nat d) = 10 * unat n + d"
proof -
  have cut: "uint_cutoff \<le> n \<longleftrightarrow> 1844674407370955162 \<le> unat n"
    by (simp add: uint_cutoff_def word_le_nat_alt)
  have d: "unat (of_nat d :: 64 word) = d"
    using assms by (simp add: unat_of_nat)
  show sum: "unat (n * 10 + of_nat d) = 10 * unat n + d" if "10 * unat n + d < 2 ^ 64"
  proof -
    have "unat (n * 10 + of_nat d) = (unat n * 10 + d) mod 2 ^ 64"
      by (simp add: unat_word_ariths d mod_simps)
    with that show ?thesis by (simp add: mult.commute)
  qed
  show "\<not> (uint_cutoff \<le> n \<or> n * 10 + of_nat d < n * 10) \<longleftrightarrow> 10 * unat n + d < 2 ^ 64"
  proof (cases "1844674407370955162 \<le> unat n")
    case True
    then show ?thesis by (simp add: cut)
  next
    case False
    then have ten: "unat (n * 10) = 10 * unat n"
      by (simp add: unat_word_ariths)
    have "n * 10 + of_nat d < n * 10 \<longleftrightarrow> unat (n * 10 + of_nat d) < 10 * unat n"
      by (simp add: word_less_nat_alt ten)
    also have "unat (n * 10 + of_nat d) = (10 * unat n + d) mod 2 ^ 64"
      by (simp add: unat_word_ariths d mod_simps mult.commute)
    also have "(10 * unat n + d) mod 2 ^ 64 < 10 * unat n \<longleftrightarrow> 2 ^ 64 \<le> 10 * unat n + d"
    proof (cases "10 * unat n + d < 2 ^ 64")
      case True
      then show ?thesis by simp
    next
      case over: False
      then have "(10 * unat n + d) mod 2 ^ 64 = 10 * unat n + d - 2 ^ 64"
        using False assms by (simp add: mod_if)
      with over assms show ?thesis by simp
    qed
    finally show ?thesis using False by (simp add: cut not_le)
  qed
qed

lemma parseUint_loop_Inr_iff:
  "parseUint_loop n cs = Inr w \<longleftrightarrow>
     list_all is_digit cs \<and> digits_from (unat n) cs < 2 ^ 64 \<and> unat w = digits_from (unat n) cs"
proof (induction cs arbitrary: n)
  case Nil
  have "unat n < 2 ^ 64" using unsigned_less [of n, where ?'a = nat] by simp
  then show ?case by (auto simp: word_unat_eq_iff)
next
  case (Cons c cs)
  show ?case
  proof (cases "digit_val c")
    case None
    then show ?thesis by (simp add: is_digit_def)
  next
    case (Some d)
    then have d: "d < 10" by (rule digit_val_less)
    note step = parseUint_step [OF d, of n]
    show ?thesis
    proof (cases "10 * unat n + d < 2 ^ 64")
      case True
      with step(1) have "\<not> uint_cutoff \<le> n" "\<not> n * 10 + of_nat d < n * 10" by simp_all
      with Some Cons.IH [of "n * 10 + of_nat d"] step(2) [OF True] show ?thesis
        by (simp add: is_digit_def)
    next
      case False
      have "10 * unat n + d \<le> digits_from (10 * unat n + d) cs" by (rule digits_from_ge)
      with False have "\<not> digits_from (10 * unat n + d) cs < 2 ^ 64" by linarith
      with False Some step(1) show ?thesis by auto
    qed
  qed
qed

text \<open>What the loop computes: the value of the digits when it fits 64 bits, and nothing otherwise.\<close>

lemma ParseUint_Inr_iff:
  "ParseUint s = Inr w \<longleftrightarrow>
     s \<noteq> [] \<and> list_all is_digit s \<and> digits_value s < 2 ^ 64 \<and> w = of_nat (digits_value s)"
proof -
  have "unat w = digits_value s \<longleftrightarrow> w = of_nat (digits_value s)" if "digits_value s < 2 ^ 64"
    using that by (auto simp: word_unat_eq_iff unat_of_nat)
  then show ?thesis by (auto simp: ParseUint_def parseUint_loop_Inr_iff)
qed

lemma ParseUint_nat_string: "n < 2 ^ 64 \<Longrightarrow> ParseUint (nat_string n) = Inr (of_nat n)"
  by (simp add: ParseUint_Inr_iff nat_string_digits)

subsection \<open>\<open>encoding/hex\<close>\<close>

datatype hex_error = InvalidByteError char | ErrLength

text \<open>\<open>reverseHexTable\<close>, with None for the entries above \<open>0x0f\<close>.\<close>

definition hex_val :: "char \<Rightarrow> byte option" where
  "hex_val c = (let n = of_char c :: nat in
     if 48 \<le> n \<and> n \<le> 57 then Some (of_nat (n - 48))
     else if 97 \<le> n \<and> n \<le> 102 then Some (of_nat (n - 87))
     else if 65 \<le> n \<and> n \<le> 70 then Some (of_nat (n - 55))
     else None)"

definition hex_char :: "byte \<Rightarrow> char" where
  "hex_char d = (let n = unat d in if n < 10 then char_of (48 + n) else char_of (87 + n))"

text \<open>
  \<open>hex.DecodeString\<close>: the bytes decoded before the first problem, and the error if there is one. A
  single character left over is an invalid byte if it is not a digit, a wrong length otherwise.
\<close>

fun hex_DecodeString :: "string \<Rightarrow> bytes \<times> hex_error option" where
  "hex_DecodeString [] = ([], None)"
| "hex_DecodeString [p] =
     ([], Some (if hex_val p = None then InvalidByteError p else ErrLength))"
| "hex_DecodeString (p # q # s) =
     (case hex_val p of
        None \<Rightarrow> ([], Some (InvalidByteError p))
      | Some a \<Rightarrow>
          (case hex_val q of
             None \<Rightarrow> ([], Some (InvalidByteError q))
           | Some b \<Rightarrow>
               (let (bs, err) = hex_DecodeString s in (or (push_bit 4 a) b # bs, err))))"

definition hex_EncodeToString :: "bytes \<Rightarrow> string" where
  "hex_EncodeToString bs = concat (map (\<lambda>b. [hex_char (drop_bit 4 b), hex_char (take_bit 4 b)]) bs)"

lemma nibble_or: "or (push_bit 4 (drop_bit 4 b)) (take_bit 4 b) = (b :: byte)"
  by (rule bit_word_eqI) (auto simp: bit_or_iff bit_push_bit_iff bit_drop_bit_eq bit_take_bit_iff)

lemma hex_val_hex_char: "unat d < 16 \<Longrightarrow> hex_val (hex_char d) = Some d"
  by (auto simp: hex_val_def hex_char_def Let_def)

lemma nibble_bounds: "unat (drop_bit 4 (b :: byte)) < 16" "unat (take_bit 4 (b :: byte)) < 16"
proof -
  have "unat b < 256" using unsigned_less [of b, where ?'a = nat] by simp
  then show "unat (drop_bit 4 b) < 16" by (simp add: unat_drop_bit_eq) (simp add: drop_bit_eq_div)
  show "unat (take_bit 4 b) < 16" by (simp add: take_bit_eq_mod unat_mod)
qed

lemma hex_Decode_Encode: "hex_DecodeString (hex_EncodeToString bs) = (bs, None)"
  by (induction bs)
     (simp_all add: hex_EncodeToString_def hex_val_hex_char nibble_bounds nibble_or)

definition hex_decoded :: "string \<Rightarrow> bytes option" where
  "hex_decoded s = (case hex_DecodeString s of (bs, None) \<Rightarrow> Some bs | (bs, Some e) \<Rightarrow> None)"

interpretation hexadecimal: text_codec hex_EncodeToString hex_decoded
  by unfold_locales (simp add: hex_decoded_def hex_Decode_Encode)

lemma length_hex_EncodeToString: "length (hex_EncodeToString bs) = 2 * length bs"
  by (induction bs) (simp_all add: hex_EncodeToString_def)

text \<open>The length of what decodes, and which strings decode.\<close>

lemma hex_decoded_iff:
  "hex_decoded s \<noteq> None \<longleftrightarrow> even (length s) \<and> (\<forall>c \<in> set s. hex_val c \<noteq> None)"
  by (induction s rule: hex_DecodeString.induct)
     (auto simp: hex_decoded_def split: option.splits prod.splits)

lemma hex_decoded_length: "hex_decoded s = Some bs \<Longrightarrow> length s = 2 * length bs"
proof (induction s arbitrary: bs rule: hex_DecodeString.induct)
  case (3 p q s)
  then show ?case by (auto simp: hex_decoded_def split: option.splits prod.splits)
qed (auto simp: hex_decoded_def)

subsection \<open>\<open>strings\<close>\<close>

definition HasPrefix :: "string \<Rightarrow> string \<Rightarrow> bool" where
  "HasPrefix s p \<longleftrightarrow> take (length p) s = p"

definition TrimPrefix :: "string \<Rightarrow> string \<Rightarrow> string" where
  "TrimPrefix s p = (if HasPrefix s p then drop (length p) s else s)"

fun Contains :: "string \<Rightarrow> string \<Rightarrow> bool" where
  "Contains [] p \<longleftrightarrow> p = []"
| "Contains (c # s) p \<longleftrightarrow> HasPrefix (c # s) p \<or> Contains s p"

text \<open>\<open>strings.SplitN(s, "=", 2)\<close>: at the first separator, or the whole string when there is none.\<close>

definition SplitN2 :: "char \<Rightarrow> string \<Rightarrow> string list" where
  "SplitN2 sep s =
     (if sep \<in> set s
      then [takeWhile (\<lambda>c. c \<noteq> sep) s, tl (dropWhile (\<lambda>c. c \<noteq> sep) s)]
      else [s])"

text \<open>
  \<open>strings.ToLower\<close>: a string of ASCII bytes is converted byte by byte, any other one through the
  Unicode case tables, which are the argument.
\<close>

definition ascii_lower :: "char \<Rightarrow> char" where
  "ascii_lower c =
     (if 65 \<le> (of_char c :: nat) \<and> (of_char c :: nat) \<le> 90 then char_of (of_char c + 32 :: nat) else c)"

definition is_ascii :: "string \<Rightarrow> bool" where
  "is_ascii s \<longleftrightarrow> list_all (\<lambda>c. (of_char c :: nat) < 128) s"

definition ToLower :: "(string \<Rightarrow> string) \<Rightarrow> string \<Rightarrow> string" where
  "ToLower unicodeLower s = (if is_ascii s then map ascii_lower s else unicodeLower s)"

text \<open>
  The UTF-8 encodings of the code points \<open>unicode.IsSpace\<close> accepts: the ASCII ones, U+0085, U+00A0,
  U+1680, U+2000 to U+200A, U+2028, U+2029, U+202F, U+205F and U+3000.
\<close>

definition space_encodings :: "string list" where
  "space_encodings = map (map char_of)
     ([[9], [10], [11], [12], [13], [32], [0xC2, 0x85], [0xC2, 0xA0], [0xE1, 0x9A, 0x80],
       [0xE2, 0x80, 0xA8], [0xE2, 0x80, 0xA9], [0xE2, 0x80, 0xAF], [0xE2, 0x81, 0x9F],
       [0xE3, 0x80, 0x80]] @ map (\<lambda>k. [0xE2, 0x80, 0x80 + k]) [0..<11 :: nat])"

text \<open>Removes leading members of \<open>es\<close> as long as there are some.\<close>

function trim_prefixes :: "string list \<Rightarrow> string \<Rightarrow> string" where
  "trim_prefixes es s =
     (case find (\<lambda>e. e \<noteq> [] \<and> HasPrefix s e) es of
        None \<Rightarrow> s
      | Some e \<Rightarrow> trim_prefixes es (drop (length e) s))"
  by pat_completeness auto
termination
proof (relation "measure (\<lambda>(es, s). length s)")
  fix es :: "string list" and s e
  assume "find (\<lambda>e. e \<noteq> [] \<and> HasPrefix s e) es = Some e"
  then have "e \<noteq> []" "HasPrefix s e" by (auto simp: find_Some_iff)
  then have "length e \<le> length s" "0 < length e"
    by (auto simp: HasPrefix_def) (metis length_take min.cobounded1)
  then have "length s - length e < length s" by linarith
  then show "((es, drop (length e) s), es, s) \<in> measure (\<lambda>(es, s). length s)" by simp
qed simp

declare trim_prefixes.simps [simp del]

definition TrimSpace :: "string \<Rightarrow> string" where
  "TrimSpace s =
     rev (trim_prefixes (map rev space_encodings) (rev (trim_prefixes space_encodings s)))"

lemma trim_prefixes_suffix: "suffix (trim_prefixes es s) s"
proof (induction es s rule: trim_prefixes.induct)
  case (1 es s)
  show ?case
    by (subst trim_prefixes.simps)
       (use 1 in \<open>auto split: option.split intro: suffix_order.trans suffix_drop\<close>)
qed

text \<open>What is left starts with no member of the list, so trimming again changes nothing.\<close>

lemma trim_prefixes_done: "e \<in> set es \<Longrightarrow> e \<noteq> [] \<Longrightarrow> \<not> HasPrefix (trim_prefixes es s) e"
proof (induction es s rule: trim_prefixes.induct)
  case (1 es s)
  show ?case
  proof (cases "find (\<lambda>e. e \<noteq> [] \<and> HasPrefix s e) es")
    case None
    then have "trim_prefixes es s = s" by (subst trim_prefixes.simps) simp
    with None 1 show ?thesis by (auto simp: find_None_iff)
  next
    case (Some e')
    then have "trim_prefixes es s = trim_prefixes es (drop (length e') s)"
      by (subst trim_prefixes.simps) simp
    with 1 Some show ?thesis by simp
  qed
qed

lemma trim_prefixes_id: "(\<And>e. e \<in> set es \<Longrightarrow> e \<noteq> [] \<Longrightarrow> \<not> HasPrefix s e) \<Longrightarrow> trim_prefixes es s = s"
  by (subst trim_prefixes.simps) (auto simp: find_Some_iff split: option.split)

lemma HasPrefix_append: "HasPrefix s p \<longleftrightarrow> (\<exists>t. s = p @ t)"
  by (auto simp: HasPrefix_def) (metis append_take_drop_id)

lemma HasPrefix_prefix: "HasPrefix s p \<longleftrightarrow> prefix p s"
  by (auto simp: HasPrefix_append prefix_def)

lemma Contains_sublist: "Contains s p \<longleftrightarrow> sublist p s"
  by (induction s) (simp_all add: HasPrefix_prefix sublist_Cons_right)

lemma Contains_map: "Contains (map f m) p \<longleftrightarrow> (\<exists>u q v. m = u @ q @ v \<and> map f q = p)"
proof
  assume "Contains (map f m) p"
  then have "\<exists>u' v'. map f m = u' @ p @ v'" by (simp add: Contains_sublist sublist_def)
  then obtain u' v' where "map f m = u' @ p @ v'" by (elim exE)
  then obtain us vs where m: "m = us @ vs" and "p @ v' = map f vs"
    by (simp only: map_eq_append_conv) (elim exE conjE)
  then obtain q v where "vs = q @ v" "map f q = p"
    by (simp only: append_eq_map_conv) (elim exE conjE, simp)
  with m have "m = us @ q @ v \<and> map f q = p" by simp
  then show "\<exists>u q v. m = u @ q @ v \<and> map f q = p" by (intro exI)
next
  assume "\<exists>u q v. m = u @ q @ v \<and> map f q = p"
  then show "Contains (map f m) p" by (auto simp: Contains_sublist)
qed

lemma SplitN2_first: "sep \<notin> set k \<Longrightarrow> SplitN2 sep (k @ sep # v) = [k, v]"
proof -
  assume k: "sep \<notin> set k"
  then have all: "\<And>c. c \<in> set k \<Longrightarrow> c \<noteq> sep" by auto
  show "SplitN2 sep (k @ sep # v) = [k, v]"
    by (simp add: SplitN2_def takeWhile_append2 dropWhile_append2 all)
qed

lemma SplitN2_join: "SplitN2 sep s = [k, v] \<longleftrightarrow> s = k @ sep # v \<and> sep \<notin> set k"
proof (cases "sep \<in> set s")
  case True
  then obtain k' v' where s: "s = k' @ sep # v'" "sep \<notin> set k'" by (blast dest: split_list_first)
  have "[k', v'] = [k, v]" if "k' @ sep # v' = k @ sep # v" "sep \<notin> set k"
    using SplitN2_first [OF s(2), of v'] SplitN2_first [OF that(2), of v]
    by (simp only: that(1))
  then show ?thesis by (simp only: s SplitN2_first [OF s(2)]) (use s(2) in blast)
next
  case False
  then show ?thesis by (auto simp: SplitN2_def)
qed

subsection \<open>\<open>bufio.Scanner\<close> with \<open>ScanLines\<close>\<close>

text \<open>
  The lines the scanner yields, without the newline and one trailing carriage return, and whether it
  stopped at a line that does not fit its 64 KiB buffer (\<open>ErrTooLong\<close>).
\<close>

definition maxTokenSize :: nat where
  "maxTokenSize = 65536"

definition dropCR :: "string \<Rightarrow> string" where
  "dropCR s = (if s \<noteq> [] \<and> last s = char_of (13 :: nat) then butlast s else s)"

definition span_line :: "string \<Rightarrow> string \<times> string" where
  "span_line s = (takeWhile (\<lambda>c. c \<noteq> char_of (10 :: nat)) s, dropWhile (\<lambda>c. c \<noteq> char_of (10 :: nat)) s)"

lemma span_line_shrinks: "(line, nl # s') = span_line s \<Longrightarrow> length s' < length s"
  using length_dropWhile_le [of "\<lambda>c. c \<noteq> char_of (10 :: nat)" s]
  by (auto simp: span_line_def dest: sym)

function scanLines :: "string \<Rightarrow> string list \<times> bool" where
  "scanLines s =
     (let (line, rest) = span_line s
      in if s = [] then ([], False)
         else if maxTokenSize \<le> length line then ([], True)
         else (case rest of
                 [] \<Rightarrow> ([dropCR line], False)
               | nl # s' \<Rightarrow> (let (ls, err) = scanLines s' in (dropCR line # ls, err))))"
  by pat_completeness auto
termination
  by (relation "measure length") (auto dest: span_line_shrinks)

declare scanLines.simps [simp del]

end
