(* ===== verification/Go_Json.thy ===== *)
theory Go_Json
  imports Go_Text
begin

section \<open>\<open>encoding/json\<close>\<close>

text \<open>
  The part of Go's JSON package the relayer uses: reading one value from a stream (\<open>Decoder.Decode\<close>)
  or a whole message (\<open>Unmarshal\<close>) into a struct of strings and 64-bit integers, and writing such
  structs. The grammar is the one of the package's scanner; a string literal is unquoted as
  \<open>unquoteBytes\<close> does it (escapes, surrogate pairs, ill-formed UTF-8 replaced by U+FFFD); the key of a
  member selects a field by its exact name first and by its case-folded name otherwise; null leaves a
  field as it is; an integer field takes a number literal that \<open>strconv\<close> accepts.

  The reader of values is recursive with a fuel of one more than twice the length of its input, which
  is always enough (\<open>parse_fuel\<close>): two nested calls are on a shorter text. The scanner's limit of
  10000 on the nesting depth is not part of the model: a solver message has at most 4096 bytes, and in
  the body of an intent a nested value is an error at any depth.
\<close>

datatype json =
    JNull
  | JBool bool
  | JNumber string
  | JString string
  | JArray "json list"
  | JObject "(string \<times> json) list"

subsection \<open>UTF-8\<close>

abbreviation byte_val :: "char \<Rightarrow> nat" where
  "byte_val c \<equiv> of_char c"

definition is_cont :: "char \<Rightarrow> bool" where
  "is_cont c \<longleftrightarrow> 128 \<le> byte_val c \<and> byte_val c < 192"

text \<open>The length of the well-formed encoding a text starts with, 0 when there is none.\<close>

definition utf8_width :: "string \<Rightarrow> nat" where
  "utf8_width s =
     (case s of
        [] \<Rightarrow> 0
      | c # s1 \<Rightarrow>
          if byte_val c < 128 then 1
          else
            (case s1 of
               [] \<Rightarrow> 0
             | d # s2 \<Rightarrow>
                 if \<not> is_cont d then 0
                 else if 194 \<le> byte_val c \<and> byte_val c < 224 then 2
                 else
                   (case s2 of
                      [] \<Rightarrow> 0
                    | e # s3 \<Rightarrow>
                        if \<not> is_cont e then 0
                        else if 224 \<le> byte_val c \<and> byte_val c < 240 then
                          (if (byte_val c = 224 \<and> byte_val d < 160) \<or> (byte_val c = 237 \<and> 160 \<le> byte_val d)
                           then 0 else 3)
                        else
                          (case s3 of
                             [] \<Rightarrow> 0
                           | f # _ \<Rightarrow>
                               if is_cont f \<and> 240 \<le> byte_val c \<and> byte_val c < 245 \<and>
                                 \<not> (byte_val c = 240 \<and> byte_val d < 144) \<and> \<not> (byte_val c = 244 \<and> 144 \<le> byte_val d)
                               then 4 else 0))))"

definition replacement_char :: string where
  "replacement_char = [CHR 0xEF, CHR 0xBF, CHR 0xBD]"

text \<open>\<open>utf8.EncodeRune\<close>: surrogates and values out of range are written as U+FFFD.\<close>

definition EncodeRune :: "nat \<Rightarrow> string" where
  "EncodeRune r =
     (if r < 0x80 then [char_of r]
      else if r < 0x800 then map char_of [0xC0 + r div 64, 0x80 + r mod 64]
      else if (0xD800 \<le> r \<and> r < 0xE000) \<or> 0x10FFFF < r then replacement_char
      else if r < 0x10000 then map char_of [0xE0 + r div 4096, 0x80 + r div 64 mod 64, 0x80 + r mod 64]
      else map char_of [0xF0 + r div 262144, 0x80 + r div 4096 mod 64, 0x80 + r div 64 mod 64, 0x80 + r mod 64])"

subsection \<open>String literals\<close>

definition hex4 :: "string \<Rightarrow> nat option" where
  "hex4 s =
     (case s of
        h1 # h2 # h3 # h4 # _ \<Rightarrow>
          (case (hex_val h1, hex_val h2, hex_val h3, hex_val h4) of
             (Some a, Some b, Some c, Some d) \<Rightarrow>
               Some (4096 * unat a + 256 * unat b + 16 * unat c + unat d)
           | _ \<Rightarrow> None)
      | _ \<Rightarrow> None)"

definition backslash :: char where "backslash = CHR 0x5C"
definition dquote :: char where "dquote = CHR 0x22"

text \<open>
  The scanner inside a string: the literal text up to the closing quote, and what follows it.
\<close>

fun scan_string :: "string \<Rightarrow> (string \<times> string) option" where
  "scan_string [] = None"
| "scan_string (c # s) =
     (if c = dquote then Some ([], s)
      else if c = backslash then
        (case s of
           [] \<Rightarrow> None
         | e # t \<Rightarrow>
             if e = CHR ''u'' then
               (case hex4 t of
                  None \<Rightarrow> None
                | Some _ \<Rightarrow> map_option (\<lambda>(r, u). (c # e # take 4 t @ r, u)) (scan_string (drop 4 t)))
             else if e \<in> set [dquote, backslash, CHR ''/'', CHR ''b'', CHR ''f'', CHR ''n'', CHR ''r'', CHR ''t''] then
               map_option (\<lambda>(r, u). (c # e # r, u)) (scan_string t)
             else None)
      else if byte_val c < 32 then None
      else map_option (\<lambda>(r, u). (c # r, u)) (scan_string s))"

definition escape_value :: "char \<Rightarrow> char" where
  "escape_value e =
     (if e = CHR ''b'' then CHR 0x08 else if e = CHR ''f'' then CHR 0x0C else if e = CHR ''n'' then CHR 0x0A
      else if e = CHR ''r'' then CHR 0x0D else if e = CHR ''t'' then CHR 0x09 else e)"

text \<open>\<open>getu4\<close>: the value of a \<open>\uXXXX\<close> escape at the start of a text.\<close>

definition getu4 :: "string \<Rightarrow> nat option" where
  "getu4 s = (case s of c # e # t \<Rightarrow> if c = backslash \<and> e = CHR ''u'' then hex4 t else None | _ \<Rightarrow> None)"

definition surrogate :: "nat \<Rightarrow> bool" where
  "surrogate r \<longleftrightarrow> 0xD800 \<le> r \<and> r < 0xE000"

text \<open>\<open>utf16.DecodeRune\<close> on a first escape and the text after it.\<close>

definition surrogate_pair :: "nat \<Rightarrow> string \<Rightarrow> nat option" where
  "surrogate_pair r t =
     (case getu4 t of
        None \<Rightarrow> None
      | Some r1 \<Rightarrow>
          if 0xD800 \<le> r \<and> r < 0xDC00 \<and> 0xDC00 \<le> r1 \<and> r1 < 0xE000
          then Some ((r - 0xD800) * 1024 + (r1 - 0xDC00) + 0x10000) else None)"

function (sequential) unquote :: "string \<Rightarrow> string" where
  "unquote [] = []"
| "unquote (c # s) =
     (if c = backslash then
        (case getu4 (c # s) of
           Some r \<Rightarrow>
             (let t = drop 5 s in
              if surrogate r then
                (case surrogate_pair r t of
                   Some p \<Rightarrow> EncodeRune p @ unquote (drop 6 t)
                 | None \<Rightarrow> replacement_char @ unquote t)
              else EncodeRune r @ unquote t)
         | None \<Rightarrow> (case s of [] \<Rightarrow> [] | e # t \<Rightarrow> escape_value e # unquote t))
      else if utf8_width (c # s) = 0 then replacement_char @ unquote s
      else take (utf8_width (c # s)) (c # s) @ unquote (drop (utf8_width (c # s)) (c # s)))"
  by pat_completeness auto
termination
  by (relation "measure length") auto

declare unquote.simps [simp del]

subsection \<open>Numbers\<close>

definition span_digits :: "string \<Rightarrow> string \<times> string" where
  "span_digits s = (takeWhile is_digit s, dropWhile is_digit s)"

text \<open>An optional fraction, an optional exponent, and the integer part before them.\<close>

definition scan_frac :: "string \<Rightarrow> (string \<times> string) option" where
  "scan_frac s =
     (case s of
        c # t \<Rightarrow>
          if c = CHR ''.'' then
            (case span_digits t of (ds, u) \<Rightarrow> if ds = [] then None else Some (c # ds, u))
          else Some ([], s)
      | [] \<Rightarrow> Some ([], s))"

definition scan_exp :: "string \<Rightarrow> (string \<times> string) option" where
  "scan_exp s =
     (case s of
        c # t \<Rightarrow>
          if c = CHR ''e'' \<or> c = CHR ''E'' then
            (let (sg, t') = (case t of g # u \<Rightarrow> if g = CHR ''+'' \<or> g = CHR ''-'' then ([g], u) else ([], t)
                             | [] \<Rightarrow> ([], t))
             in case span_digits t' of (ds, u) \<Rightarrow> if ds = [] then None else Some (c # sg @ ds, u))
          else Some ([], s)
      | [] \<Rightarrow> Some ([], s))"

definition scan_int :: "string \<Rightarrow> (string \<times> string) option" where
  "scan_int s =
     (case s of
        [] \<Rightarrow> None
      | c # t \<Rightarrow>
          if c = CHR ''0'' then Some ([c], t)
          else if is_digit c then (case span_digits t of (ds, u) \<Rightarrow> Some (c # ds, u))
          else None)"

definition scan_number :: "string \<Rightarrow> (string \<times> string) option" where
  "scan_number s =
     (let (sg, t) = (case s of c # u \<Rightarrow> if c = CHR ''-'' then ([c], u) else ([], s) | [] \<Rightarrow> ([], s)) in
      case scan_int t of
        None \<Rightarrow> None
      | Some (i, u) \<Rightarrow>
          (case scan_frac u of
             None \<Rightarrow> None
           | Some (f, v) \<Rightarrow>
               (case scan_exp v of
                  None \<Rightarrow> None
                | Some (e, w) \<Rightarrow> Some (sg @ i @ f @ e, w))))"

subsection \<open>Values\<close>

definition is_ws :: "char \<Rightarrow> bool" where
  "is_ws c \<longleftrightarrow> c = CHR '' '' \<or> c = CHR 0x09 \<or> c = CHR 0x0A \<or> c = CHR 0x0D"

definition skip_ws :: "string \<Rightarrow> string" where
  "skip_ws s = dropWhile is_ws s"

text \<open>The literals, numbers and strings: values without a value inside.\<close>

definition parse_atom :: "string \<Rightarrow> (json \<times> string) option" where
  "parse_atom s =
     (case s of
        [] \<Rightarrow> None
      | c # t \<Rightarrow>
          if c = dquote then map_option (\<lambda>(raw, u). (JString (unquote raw), u)) (scan_string t)
          else if c = CHR ''-'' \<or> is_digit c then map_option (\<lambda>(n, u). (JNumber n, u)) (scan_number s)
          else if HasPrefix s ''true'' then Some (JBool True, drop 4 s)
          else if HasPrefix s ''false'' then Some (JBool False, drop 5 s)
          else if HasPrefix s ''null'' then Some (JNull, drop 4 s)
          else None)"

fun parse_value :: "nat \<Rightarrow> string \<Rightarrow> (json \<times> string) option"
  and parse_elements :: "nat \<Rightarrow> string \<Rightarrow> (json list \<times> string) option"
  and parse_members :: "nat \<Rightarrow> string \<Rightarrow> ((string \<times> json) list \<times> string) option" where
  "parse_value 0 s = None"
| "parse_value (Suc n) s =
     (case skip_ws s of
        [] \<Rightarrow> None
      | c # t \<Rightarrow>
          if c = CHR ''{'' then
            (case skip_ws t of
               [] \<Rightarrow> None
             | d # u \<Rightarrow>
                 if d = CHR ''}'' then Some (JObject [], u)
                 else map_option (\<lambda>(ms, v). (JObject ms, v)) (parse_members n t))
          else if c = CHR ''['' then
            (case skip_ws t of
               [] \<Rightarrow> None
             | d # u \<Rightarrow>
                 if d = CHR '']'' then Some (JArray [], u)
                 else map_option (\<lambda>(vs, v). (JArray vs, v)) (parse_elements n t))
          else parse_atom (c # t))"
| "parse_elements 0 s = None"
| "parse_elements (Suc n) s =
     (case parse_value n s of
        None \<Rightarrow> None
      | Some (v, t) \<Rightarrow>
          (case skip_ws t of
             [] \<Rightarrow> None
           | c # u \<Rightarrow>
               if c = CHR '','' then map_option (\<lambda>(vs, w). (v # vs, w)) (parse_elements n u)
               else if c = CHR '']'' then Some ([v], u)
               else None))"
| "parse_members 0 s = None"
| "parse_members (Suc n) s =
     (case skip_ws s of
        [] \<Rightarrow> None
      | q # t \<Rightarrow>
          if q \<noteq> dquote then None
          else
            (case scan_string t of
               None \<Rightarrow> None
             | Some (raw, u) \<Rightarrow>
                 (case skip_ws u of
                    [] \<Rightarrow> None
                  | k # w \<Rightarrow>
                      if k \<noteq> CHR '':'' then None
                      else
                        (case parse_value n w of
                           None \<Rightarrow> None
                         | Some (v, x) \<Rightarrow>
                             (case skip_ws x of
                                [] \<Rightarrow> None
                              | c # y \<Rightarrow>
                                  if c = CHR '','' then
                                    map_option (\<lambda>(ms, z). ((unquote raw, v) # ms, z)) (parse_members n y)
                                  else if c = CHR ''}'' then Some ([(unquote raw, v)], y)
                                  else None)))))"

text \<open>One value at the start of a stream, and a message that is one value and white space.\<close>

definition decode_value :: "string \<Rightarrow> (json \<times> string) option" where
  "decode_value s = parse_value (2 * length s + 1) s"

definition decode_message :: "string \<Rightarrow> json option" where
  "decode_message s =
     (case decode_value s of
        None \<Rightarrow> None
      | Some (v, rest) \<Rightarrow> if skip_ws rest = [] then Some v else None)"

subsection \<open>The fuel is enough\<close>

lemma length_skip_ws: "length (skip_ws s) \<le> length s"
  by (simp add: skip_ws_def length_dropWhile_le)

lemma scan_string_shorter: "scan_string s = Some (raw, t) \<Longrightarrow> length t < length s"
proof (induction s arbitrary: raw t rule: scan_string.induct)
  case (2 c s)
  consider "c = dquote" | "c \<noteq> dquote" "c = backslash" | "c \<noteq> dquote" "c \<noteq> backslash" by blast
  then show ?case
  proof cases
    case 1
    with "2.prems" show ?thesis by simp
  next
    case esc: 2
    with "2.prems" obtain e u where s: "s = e # u" by (cases s) auto
    show ?thesis
    proof (cases "e = CHR ''u''")
      case True
      with "2.prems" esc s obtain r raw' where "scan_string (drop 4 u) = Some (raw', t)" "hex4 u = Some r"
        by (auto split: option.splits)
      with "2.IH"(1) [OF esc s True] s show ?thesis by force
    next
      case False
      with "2.prems" esc s obtain raw' where "scan_string u = Some (raw', t)"
        by (auto split: if_splits)
      with "2.IH"(2) [OF esc s False] "2.prems" esc s False show ?thesis by (force split: if_splits)
    qed
  next
    case 3
    with "2.prems" obtain raw' where "scan_string s = Some (raw', t)" "\<not> byte_val c < 32"
      by (auto split: if_splits)
    with "2.IH"(3) [OF 3] show ?thesis by force
  qed
qed simp

lemma span_digits_length: "span_digits s = (ds, t) \<Longrightarrow> length ds + length t = length s"
  by (auto simp: span_digits_def) (metis length_append takeWhile_dropWhile_id)

lemma scan_int_shorter: "scan_int s = Some (i, t) \<Longrightarrow> length t < length s"
  by (auto simp: scan_int_def split: list.splits if_splits prod.splits dest: span_digits_length)

lemma scan_frac_length: "scan_frac s = Some (f, t) \<Longrightarrow> length t \<le> length s"
  by (auto simp: scan_frac_def split: list.splits if_splits prod.splits dest: span_digits_length)

lemma scan_exp_length: "scan_exp s = Some (e, t) \<Longrightarrow> length t \<le> length s"
  by (fastforce simp: scan_exp_def Let_def split: list.splits if_splits prod.splits dest: span_digits_length)

lemma scan_number_shorter:
  assumes "scan_number s = Some (n, t)"
  shows "length t < length s"
proof -
  define u where "u = snd (case s of c # u \<Rightarrow> if c = CHR ''-'' then ([c], u) else ([], s) | [] \<Rightarrow> ([], s))"
  have "length u \<le> length s" by (auto simp: u_def split: list.split)
  moreover obtain i f e v w where "scan_int u = Some (i, v)" "scan_frac v = Some (f, w)" "scan_exp w = Some (e, t)"
    using assms by (auto simp: scan_number_def u_def case_prod_beta Let_def split: option.splits)
  ultimately show ?thesis
    using scan_int_shorter [of u i v] scan_frac_length [of v f w] scan_exp_length [of w e t] by linarith
qed

lemma parse_atom_shorter: "parse_atom s = Some (v, t) \<Longrightarrow> length t < length s"
proof (cases s)
  case (Cons c u)
  assume p: "parse_atom s = Some (v, t)"
  show ?thesis
  proof (cases "c = dquote")
    case True
    with p Cons show ?thesis by (auto simp: parse_atom_def dest: scan_string_shorter)
  next
    case False
    show ?thesis
    proof (cases "c = CHR ''-'' \<or> is_digit c")
      case True
      with p Cons False show ?thesis by (auto simp: parse_atom_def dest: scan_number_shorter)
    next
      case False
      with p Cons \<open>c \<noteq> dquote\<close> show ?thesis by (auto simp: parse_atom_def split: if_splits)
    qed
  qed
qed (simp add: parse_atom_def)

lemma skip_ws_shorter: "skip_ws s = c # t \<Longrightarrow> length t < length s"
  using length_skip_ws [of s] by simp

text \<open>Every value, list of elements and list of members read takes at least one character.\<close>

lemma parse_shorter:
  "parse_value n s = Some (v, t) \<Longrightarrow> length t < length s"
  "parse_elements n s = Some (vs, t) \<Longrightarrow> length t < length s"
  "parse_members n s = Some (ms, t) \<Longrightarrow> length t < length s"
proof (induction n arbitrary: s v t vs ms)
  case (Suc n)
  {
    case 1
    then obtain c u where c: "skip_ws s = c # u" by (auto split: list.splits)
    note len = skip_ws_shorter [OF c]
    show ?case
      using 1 c len Suc.IH(2,3) [of u] parse_atom_shorter [of "c # u"] length_skip_ws [of u] length_skip_ws [of s]
      by (fastforce split: list.splits if_splits)
  next
    case 2
    then obtain w u where w: "parse_value n s = Some (w, u)" by (auto split: option.splits)
    then obtain c x where c: "skip_ws u = c # x" using 2 by (auto split: list.splits)
    show ?case
      using 2 w c Suc.IH(1) [OF w] skip_ws_shorter [OF c] Suc.IH(2) [of x]
      by (fastforce split: if_splits)
  next
    case 3
    then obtain q u where q: "skip_ws s = q # u" "q = dquote" by (auto split: list.splits if_splits)
    then obtain raw w where raw: "scan_string u = Some (raw, w)" using 3 by (auto split: option.splits)
    then obtain k x where k: "skip_ws w = k # x" "k = CHR '':''" using 3 q by (auto split: list.splits if_splits)
    then obtain v' y where v': "parse_value n x = Some (v', y)" using 3 q raw by (auto split: option.splits)
    then obtain c z where c: "skip_ws y = c # z" using 3 q raw k by (auto split: list.splits)
    have "length z < length s"
      using skip_ws_shorter [OF q(1)] scan_string_shorter [OF raw] skip_ws_shorter [OF k(1)] Suc.IH(1) [OF v']
        skip_ws_shorter [OF c] by linarith
    then show ?case
      using 3 q raw k v' c Suc.IH(3) [of z] by (fastforce split: if_splits)
  }
qed simp_all

text \<open>More fuel than \<open>decode_value\<close> gives changes nothing.\<close>

lemma parse_members_cong:
  assumes val: "\<And>w. length w < length s \<Longrightarrow> parse_value n w = parse_value k w"
    and mem: "\<And>y. length y < length s \<Longrightarrow> parse_members n y = parse_members k y"
  shows "parse_members (Suc n) s = parse_members (Suc k) s"
proof (cases "skip_ws s")
  case q: (Cons q t)
  show ?thesis
  proof (cases "scan_string t")
    case (Some p)
    then obtain raw u where raw: "scan_string t = Some (raw, u)" by (cases p) auto
    show ?thesis
    proof (cases "skip_ws u")
      case colon: (Cons d w)
      have w: "length w < length s"
        using skip_ws_shorter [OF q] scan_string_shorter [OF raw] skip_ws_shorter [OF colon] by linarith
      show ?thesis
      proof (cases "parse_value k w")
        case (Some p')
        then obtain v x where v: "parse_value k w = Some (v, x)" by (cases p') auto
        have "parse_members n y = parse_members k y" if "skip_ws x = c # y" for c y
          using parse_shorter(1) [OF v] skip_ws_shorter [OF that] w by (intro mem) linarith
        then show ?thesis
          by (cases "skip_ws x") (simp_all add: q raw colon val [OF w] v)
      qed (simp add: q raw colon val [OF w])
    qed (simp add: q raw)
  qed (simp add: q)
qed simp

lemma parse_fuel:
  "2 * length s + 1 \<le> n \<Longrightarrow> 2 * length s + 1 \<le> m \<Longrightarrow> parse_value n s = parse_value m s"
  "2 * length s + 2 \<le> n \<Longrightarrow> 2 * length s + 2 \<le> m \<Longrightarrow> parse_elements n s = parse_elements m s"
  "2 * length s + 1 \<le> n \<Longrightarrow> 2 * length s + 1 \<le> m \<Longrightarrow> parse_members n s = parse_members m s"
proof (induction n arbitrary: s m)
  case (Suc n)
  {
    case 1
    then obtain k where m: "m = Suc k" by (cases m) auto
    show ?case
    proof (cases "skip_ws s")
      case (Cons c t)
      have "length t < length s" by (rule skip_ws_shorter [OF Cons])
      then have "parse_members n t = parse_members k t" "parse_elements n t = parse_elements k t"
        using 1 m by (auto intro!: Suc.IH)
      with Cons m show ?thesis by (simp split: list.split)
    qed (simp add: m)
  next
    case 2
    then obtain k where m: "m = Suc k" by (cases m) auto
    have head: "parse_value n s = parse_value k s" using 2 m by (intro Suc.IH) auto
    have rest: "parse_elements n u = parse_elements k u"
      if "parse_value k s = Some (v, t)" "skip_ws t = c # u" for v t c u
      using 2 m parse_shorter(1) [OF that(1)] skip_ws_shorter [OF that(2)] by (intro Suc.IH) auto
    show ?case unfolding m by (auto simp: head rest split: option.split list.split)
  next
    case 3
    then obtain k where m: "m = Suc k" by (cases m) auto
    show ?case unfolding m by (rule parse_members_cong) (use 3 m in \<open>auto intro!: Suc.IH\<close>)
  }
qed simp_all

lemma decode_value_fuel: "2 * length s + 1 \<le> n \<Longrightarrow> parse_value n s = decode_value s"
  unfolding decode_value_def by (rule parse_fuel(1)) simp_all

subsection \<open>Structs\<close>

text \<open>
  \<open>foldName\<close>: ASCII letters in upper case, and the two other code points that fold to an ASCII letter
  (U+017F to S, U+212A to K).
\<close>

definition ascii_upper :: "char \<Rightarrow> char" where
  "ascii_upper c = (if 97 \<le> byte_val c \<and> byte_val c \<le> 122 then char_of (byte_val c - 32) else c)"

fun fold_name :: "string \<Rightarrow> string" where
  "fold_name [] = []"
| "fold_name (c # s) =
     (if HasPrefix (c # s) [CHR 0xC5, CHR 0xBF] then CHR ''S'' # fold_name (drop 1 s)
      else if HasPrefix (c # s) [CHR 0xE2, CHR 0x84, CHR 0xAA] then CHR ''K'' # fold_name (drop 2 s)
      else ascii_upper c # fold_name s)"

definition field_of :: "string list \<Rightarrow> string \<Rightarrow> string option" where
  "field_of names key =
     (if key \<in> set names then Some key else find (\<lambda>n. fold_name n = fold_name key) names)"

text \<open>\<open>literalStore\<close> for the three kinds of field: the new value, or None for a value that does not fit.\<close>

definition ParseInt :: "string \<Rightarrow> parse_error + 64 word" where
  "ParseInt s =
     (case s of
        [] \<Rightarrow> Inl SyntaxError
      | c # t \<Rightarrow>
          (let neg = (c = CHR ''-'') in
           case ParseUint (if neg \<or> c = CHR ''+'' then t else s) of
             Inl e \<Rightarrow> Inl e
           | Inr un \<Rightarrow>
               if \<not> neg \<and> 2 ^ 63 \<le> unat un then Inl RangeError
               else if neg \<and> 2 ^ 63 < unat un then Inl RangeError
               else Inr (if neg then - un else un)))"

fun store_string :: "json \<Rightarrow> string \<Rightarrow> string option" where
  "store_string JNull old = Some old"
| "store_string (JString s) old = Some s"
| "store_string _ old = None"

definition parsed :: "parse_error + 'a \<Rightarrow> 'a option" where
  "parsed r = (case r of Inl _ \<Rightarrow> None | Inr x \<Rightarrow> Some x)"

fun store_int64 :: "json \<Rightarrow> 64 word \<Rightarrow> 64 word option" where
  "store_int64 JNull old = Some old"
| "store_int64 (JNumber n) old = parsed (ParseInt n)"
| "store_int64 _ old = None"

fun store_uint64 :: "json \<Rightarrow> 64 word \<Rightarrow> 64 word option" where
  "store_uint64 JNull old = Some old"
| "store_uint64 (JNumber n) old = parsed (ParseUint n)"
| "store_uint64 _ old = None"

text \<open>
  The members in order, each into its field; a key that names no field is skipped, or an error when
  \<open>DisallowUnknownFields\<close> was called. The argument \<open>setf\<close> stores a value into the field of that name.
\<close>

fun decode_members ::
    "(string \<Rightarrow> json \<Rightarrow> 'r \<Rightarrow> 'r option) \<Rightarrow> string list \<Rightarrow> bool \<Rightarrow> (string \<times> json) list \<Rightarrow> 'r \<Rightarrow> 'r option" where
  "decode_members setf names disallow [] r = Some r"
| "decode_members setf names disallow ((k, v) # ms) r =
     (case field_of names k of
        None \<Rightarrow> if disallow then None else decode_members setf names disallow ms r
      | Some f \<Rightarrow>
          (case setf f v r of
             None \<Rightarrow> None
           | Some r' \<Rightarrow> decode_members setf names disallow ms r'))"

definition decode_struct ::
    "(string \<Rightarrow> json \<Rightarrow> 'r \<Rightarrow> 'r option) \<Rightarrow> string list \<Rightarrow> bool \<Rightarrow> json \<Rightarrow> 'r \<Rightarrow> 'r option" where
  "decode_struct setf names disallow v zero =
     (case v of
        JNull \<Rightarrow> Some zero
      | JObject ms \<Rightarrow> decode_members setf names disallow ms zero
      | _ \<Rightarrow> None)"

subsection \<open>Writing\<close>

text \<open>
  \<open>appendString\<close> with HTML escaping: quotes, backslashes, control characters and the three characters
  that matter in HTML are escaped, ill-formed bytes and U+2028 and U+2029 too.
\<close>

definition quote_ascii :: "char \<Rightarrow> string" where
  "quote_ascii c =
     (if c = backslash \<or> c = dquote then [backslash, c]
      else if c = CHR 0x08 then [backslash, CHR ''b''] else if c = CHR 0x0C then [backslash, CHR ''f'']
      else if c = CHR 0x0A then [backslash, CHR ''n''] else if c = CHR 0x0D then [backslash, CHR ''r'']
      else if c = CHR 0x09 then [backslash, CHR ''t'']
      else if byte_val c < 32 \<or> c = CHR ''<'' \<or> c = CHR ''>'' \<or> c = CHR ''&'' then
        backslash # ''u00'' @ [hex_char (drop_bit 4 (of_char c)), hex_char (take_bit 4 (of_char c))]
      else [c])"

definition quote_rune :: "string \<Rightarrow> string" where
  "quote_rune r =
     (if r = [CHR 0xE2, CHR 0x80, CHR 0xA8] then backslash # ''u2028''
      else if r = [CHR 0xE2, CHR 0x80, CHR 0xA9] then backslash # ''u2029''
      else r)"

function (sequential) quote_body :: "string \<Rightarrow> string" where
  "quote_body [] = []"
| "quote_body (c # s) =
     (let w = utf8_width (c # s) in
      if byte_val c < 128 then quote_ascii c @ quote_body s
      else if w = 0 then backslash # ''ufffd'' @ quote_body s
      else quote_rune (take w (c # s)) @ quote_body (drop w (c # s)))"
  by pat_completeness auto
termination
  by (relation "measure length") auto

declare quote_body.simps [simp del]

definition json_string :: "string \<Rightarrow> string" where
  "json_string s = dquote # quote_body s @ [dquote]"

fun print_json :: "json \<Rightarrow> string" and print_elements :: "json list \<Rightarrow> string"
  and print_members :: "(string \<times> json) list \<Rightarrow> string" where
  "print_json JNull = ''null''"
| "print_json (JBool b) = (if b then ''true'' else ''false'')"
| "print_json (JNumber n) = n"
| "print_json (JString s) = json_string s"
| "print_json (JArray vs) = ''['' @ print_elements vs @ '']''"
| "print_json (JObject ms) = ''{'' @ print_members ms @ ''}''"
| "print_elements [] = []"
| "print_elements [v] = print_json v"
| "print_elements (v # w # vs) = print_json v @ '','' @ print_elements (w # vs)"
| "print_members [] = []"
| "print_members [(k, v)] = json_string k @ '':'' @ print_json v"
| "print_members ((k, v) # m # ms) = json_string k @ '':'' @ print_json v @ '','' @ print_members (m # ms)"

subsection \<open>What is written reads back\<close>

function (sequential) valid_utf8 :: "string \<Rightarrow> bool" where
  "valid_utf8 [] \<longleftrightarrow> True"
| "valid_utf8 (c # s) \<longleftrightarrow>
     (let w = utf8_width (c # s) in if w = 0 then False else valid_utf8 (drop w (c # s)))"
  by pat_completeness auto
termination
  by (relation "measure length") auto

declare valid_utf8.simps [simp del]

lemma utf8_width_ascii [simp]: "byte_val c < 128 \<Longrightarrow> utf8_width (c # s) = 1"
  by (simp add: utf8_width_def)

lemma valid_utf8_ascii: "is_ascii s \<Longrightarrow> valid_utf8 s"
proof (induction s)
  case (Cons c s)
  then have "byte_val c < 128" "valid_utf8 s" by (simp_all add: is_ascii_def)
  then show ?case by (simp add: valid_utf8.simps)
qed (simp add: valid_utf8.simps)

text \<open>A longer encoding is made of bytes from 128 on, and is recognised in front of any text.\<close>

lemma utf8_width_cases:
  assumes "128 \<le> byte_val c" and "utf8_width (c # s) \<noteq> 0"
  obtains (two) d s2 where "s = d # s2" "utf8_width (c # s) = 2" "is_cont d" "194 \<le> byte_val c" "byte_val c < 224"
  | (three) d e s3 where "s = d # e # s3" "utf8_width (c # s) = 3" "is_cont d" "is_cont e"
      "\<And>t. utf8_width (c # d # e # t) = 3"
  | (four) d e f s4 where "s = d # e # f # s4" "utf8_width (c # s) = 4" "is_cont d" "is_cont e" "is_cont f"
      "\<And>t. utf8_width (c # d # e # f # t) = 4"
proof -
  from assms obtain d s2 where s: "s = d # s2" "is_cont d"
    by (auto simp: utf8_width_def split: list.splits if_splits)
  show thesis
  proof (cases "byte_val c < 224")
    case True
    with assms s have "194 \<le> byte_val c" by (auto simp: utf8_width_def split: list.splits if_splits)
    with True assms s show thesis by (intro two) (auto simp: utf8_width_def)
  next
    case big: False
    with assms s obtain e s3 where s3: "s2 = e # s3" "is_cont e"
      by (auto simp: utf8_width_def split: list.splits if_splits)
    show thesis
    proof (cases "byte_val c < 240")
      case True
      with big assms s s3 show thesis
        by (intro three [of d e s3]) (auto simp: utf8_width_def split: if_splits)
    next
      case False
      with big assms s s3 obtain f s4 where s4: "s3 = f # s4" "is_cont f"
        by (auto simp: utf8_width_def split: list.splits if_splits)
      with False big assms s s3 show thesis
        by (intro four [of d e f s4]) (auto simp: utf8_width_def split: if_splits)
    qed
  qed
qed

lemma utf8_width_long:
  assumes "128 \<le> byte_val c" and "utf8_width (c # s) \<noteq> 0"
  defines "r \<equiv> take (utf8_width (c # s)) (c # s)"
  shows "length r = utf8_width (c # s)" "list_all (\<lambda>d. 128 \<le> byte_val d) r"
    "utf8_width (r @ t) = utf8_width (c # s)"
  using assms(1) unfolding r_def
  by (cases rule: utf8_width_cases [OF assms(1,2)]; simp add: is_cont_def utf8_width_def)+

lemma char_consts: "dquote \<noteq> backslash" "byte_val dquote = 34" "byte_val backslash = 92"
  by (simp_all add: dquote_def backslash_def)

lemma scan_string_plain:
  "c \<noteq> dquote \<Longrightarrow> c \<noteq> backslash \<Longrightarrow> 32 \<le> byte_val c \<Longrightarrow>
     scan_string (c # s) = map_option (\<lambda>(r, t). (c # r, t)) (scan_string s)"
  by simp

lemma scan_string_long:
  "list_all (\<lambda>d. 128 \<le> byte_val d) r \<Longrightarrow>
     scan_string (r @ s) = map_option (\<lambda>(x, t). (r @ x, t)) (scan_string s)"
proof (induction r)
  case (Cons d r)
  then have "d \<noteq> dquote" "d \<noteq> backslash" "32 \<le> byte_val d" using char_consts by auto
  from scan_string_plain [OF this] Cons show ?case
    by (cases "scan_string s") (auto simp del: scan_string.simps)
qed (simp add: option.map_id)

lemma hex4_two: "unat a < 16 \<Longrightarrow> unat b < 16 \<Longrightarrow>
    hex4 (CHR ''0'' # CHR ''0'' # hex_char a # hex_char b # s) = Some (16 * unat a + unat b)"
proof -
  have "hex_val CHR ''0'' = Some 0" by (simp add: hex_val_def)
  then show "unat a < 16 \<Longrightarrow> unat b < 16 \<Longrightarrow>
      hex4 (CHR ''0'' # CHR ''0'' # hex_char a # hex_char b # s) = Some (16 * unat a + unat b)"
    by (simp add: hex4_def hex_val_hex_char)
qed

lemma hex4_short: "hex4 (CHR ''f'' # CHR ''f'' # CHR ''f'' # CHR ''d'' # s) = Some 0xFFFD"
    "hex4 (CHR ''2'' # CHR ''0'' # CHR ''2'' # CHR ''8'' # s) = Some 0x2028"
    "hex4 (CHR ''2'' # CHR ''0'' # CHR ''2'' # CHR ''9'' # s) = Some 0x2029"
  by (simp_all add: hex4_def hex_val_def)

lemma nibbles: "16 * unat (drop_bit 4 (b :: byte)) + unat (take_bit 4 b) = unat b"
  by (simp add: drop_bit_eq_div take_bit_eq_mod unat_mod unat_div)

lemma unat_of_char: "unat (of_char c :: byte) = byte_val c"
proof -
  have "(of_char c :: byte) = of_nat (byte_val c)" by (simp only: of_nat_of_char)
  then show ?thesis by (simp add: unat_of_nat)
qed

text \<open>What an escape looks like: a short one, a hexadecimal one, or the character itself.\<close>

lemma quote_ascii_cases:
  assumes "byte_val c < 128"
  obtains (short) e where "quote_ascii c = [backslash, e]" "escape_value e = c" "e \<noteq> CHR ''u''"
      "e \<in> set [dquote, backslash, CHR ''/'', CHR ''b'', CHR ''f'', CHR ''n'', CHR ''r'', CHR ''t'']"
  | (hex) a b where "quote_ascii c = backslash # ''u00'' @ [hex_char a, hex_char b]"
      "\<And>s. hex4 (''00'' @ hex_char a # hex_char b # s) = Some (byte_val c)"
  | (plain) "quote_ascii c = [c]" "c \<noteq> dquote" "c \<noteq> backslash" "32 \<le> byte_val c"
proof -
  consider "c \<in> {backslash, dquote, CHR 0x08, CHR 0x0C, CHR 0x0A, CHR 0x0D, CHR 0x09}"
    | "c \<notin> {backslash, dquote, CHR 0x08, CHR 0x0C, CHR 0x0A, CHR 0x0D, CHR 0x09}"
      "byte_val c < 32 \<or> c = CHR ''<'' \<or> c = CHR ''>'' \<or> c = CHR ''&''"
    | "c \<notin> {backslash, dquote, CHR 0x08, CHR 0x0C, CHR 0x0A, CHR 0x0D, CHR 0x09}"
      "\<not> (byte_val c < 32 \<or> c = CHR ''<'' \<or> c = CHR ''>'' \<or> c = CHR ''&'')" by blast
  then show thesis
  proof cases
    case 1
    define e where "e = quote_ascii c ! 1"
    from 1 have "quote_ascii c = [backslash, e] \<and> escape_value e = c \<and> e \<noteq> CHR ''u'' \<and>
        e \<in> set [dquote, backslash, CHR ''/'', CHR ''b'', CHR ''f'', CHR ''n'', CHR ''r'', CHR ''t'']"
      by (auto simp: e_def quote_ascii_def escape_value_def backslash_def dquote_def)
    then show thesis by (intro short [of e]) simp_all
  next
    case 2
    define b :: byte where "b = of_char c"
    have "hex4 (''00'' @ hex_char (drop_bit 4 b) # hex_char (take_bit 4 b) # s) = Some (byte_val c)" for s
      using hex4_two [OF nibble_bounds(1) nibble_bounds(2), of b b s] nibbles [of b]
      by (simp add: b_def unat_of_char)
    moreover from 2 have "quote_ascii c = backslash # ''u00'' @ [hex_char (drop_bit 4 b), hex_char (take_bit 4 b)]"
      by (simp add: quote_ascii_def b_def)
    ultimately show thesis by (rule hex [rotated])
  next
    case 3
    then show thesis by (intro plain) (simp_all add: quote_ascii_def)
  qed
qed

lemma scan_string_quote_ascii:
  assumes "byte_val c < 128"
  shows "scan_string (quote_ascii c @ s) = map_option (\<lambda>(r, t). (quote_ascii c @ r, t)) (scan_string s)"
  using assms
proof (cases rule: quote_ascii_cases)
  case (short e)
  then show ?thesis by (cases "scan_string s") (auto simp: char_consts(1) [symmetric])
next
  case (hex a b)
  with hex(2) [of s] show ?thesis by (cases "scan_string s") (auto simp: char_consts(1) [symmetric])
next
  case plain
  then show ?thesis using scan_string_plain [of c s] by simp
qed

lemma scan_string_quote_rune:
  assumes "list_all (\<lambda>d. 128 \<le> byte_val d) r"
  shows "scan_string (quote_rune r @ s) = map_option (\<lambda>(x, t). (quote_rune r @ x, t)) (scan_string s)"
  using scan_string_long [OF assms, of s] hex4_short
  by (cases "scan_string s") (auto simp: quote_rune_def char_consts(1) [symmetric])

lemma scan_string_quote: "scan_string (quote_body s @ dquote # t) = Some (quote_body s, t)"
proof (induction s rule: quote_body.induct)
  case (2 c s)
  show ?case
  proof (cases "byte_val c < 128")
    case True
    with 2 show ?thesis by (simp add: quote_body.simps(2) scan_string_quote_ascii)
  next
    case big: False
    show ?thesis
    proof (cases "utf8_width (c # s) = 0")
      case True
      with 2 big hex4_short(1) show ?thesis
        by (simp add: quote_body.simps(2) char_consts(1) [symmetric])
    next
      case False
      then have "list_all (\<lambda>d. 128 \<le> byte_val d) (take (utf8_width (c # s)) (c # s))"
        using utf8_width_long(2) [of c s] big by simp
      from scan_string_quote_rune [OF this] False big 2 show ?thesis
        by (simp add: quote_body.simps(2) Let_def)
    qed
  qed
qed (simp add: quote_body.simps(1))

lemma getu4_backslash [simp]:
  "getu4 (backslash # e # s) = (if e = CHR ''u'' then hex4 s else None)"
  by (simp add: getu4_def)

lemma EncodeRune_ascii: "byte_val c < 128 \<Longrightarrow> EncodeRune (byte_val c) = [c]"
  by (simp add: EncodeRune_def)

lemma EncodeRune_separators:
  "EncodeRune 0x2028 = [CHR 0xE2, CHR 0x80, CHR 0xA8]" "EncodeRune 0x2029 = [CHR 0xE2, CHR 0x80, CHR 0xA9]"
  by (simp_all add: EncodeRune_def char_of_eq_iff)

lemma unquote_quote_ascii:
  assumes "byte_val c < 128"
  shows "unquote (quote_ascii c @ s) = c # unquote s"
  using assms
proof (cases rule: quote_ascii_cases)
  case (short e)
  then show ?thesis by (simp add: unquote.simps(2))
next
  case (hex a b)
  moreover from assms have "\<not> surrogate (byte_val c)" by (simp add: surrogate_def)
  ultimately show ?thesis using hex(2) [of s] assms by (simp add: unquote.simps(2) EncodeRune_ascii)
next
  case plain
  then show ?thesis using assms by (simp add: unquote.simps(2))
qed

lemma unquote_quote_rune:
  assumes "128 \<le> byte_val c" and "utf8_width (c # s) \<noteq> 0"
  defines "r \<equiv> take (utf8_width (c # s)) (c # s)"
  shows "unquote (quote_rune r @ t) = r @ unquote t"
proof -
  consider "r = [CHR 0xE2, CHR 0x80, CHR 0xA8]" | "r = [CHR 0xE2, CHR 0x80, CHR 0xA9]" | "quote_rune r = r"
    unfolding quote_rune_def by presburger
  then show ?thesis
  proof cases
    case 3
    note long = utf8_width_long [OF assms(1,2), folded r_def]
    from assms(2) obtain r' where r: "r = c # r'" by (cases "utf8_width (c # s)") (auto simp: r_def)
    have "c \<noteq> backslash" using assms(1) char_consts by auto
    then have "unquote (r @ t) = take (length r) (r @ t) @ unquote (drop (length r) (r @ t))"
      using long(1) long(3) [of t] assms(2) by (simp add: r unquote.simps(2))
    with 3 show ?thesis by simp
  qed (simp_all add: quote_rune_def unquote.simps(2) hex4_short surrogate_def EncodeRune_separators)
qed

lemma unquote_quote: "valid_utf8 s \<Longrightarrow> unquote (quote_body s) = s"
proof (induction s rule: quote_body.induct)
  case (2 c s)
  from "2.prems" have w: "utf8_width (c # s) \<noteq> 0" "valid_utf8 (drop (utf8_width (c # s)) (c # s))"
    by (simp_all add: valid_utf8.simps(2) Let_def split: if_splits)
  show ?case
  proof (cases "byte_val c < 128")
    case True
    with 2 w show ?thesis by (simp add: quote_body.simps(2) unquote_quote_ascii)
  next
    case False
    with 2(3) [OF refl False w(1)] w unquote_quote_rune [of c s] show ?thesis
      by (simp add: quote_body.simps(2) Let_def)
  qed
qed (simp add: quote_body.simps(1) unquote.simps(1))

lemma parse_atom_string: "valid_utf8 s \<Longrightarrow> parse_atom (json_string s @ t) = Some (JString s, t)"
  using scan_string_quote [of s t] by (simp add: parse_atom_def json_string_def unquote_quote)

text \<open>A printed integer ends where the text goes on with something that is not part of a number.\<close>

definition number_end :: "string \<Rightarrow> bool" where
  "number_end t \<longleftrightarrow>
     (case t of [] \<Rightarrow> True | c # _ \<Rightarrow> \<not> is_digit c \<and> c \<noteq> CHR ''.'' \<and> c \<noteq> CHR ''e'' \<and> c \<noteq> CHR ''E'')"

lemma nat_string_head: "nat_string n = c # cs \<Longrightarrow> c = CHR ''0'' \<longleftrightarrow> n = 0"
proof (induction n arbitrary: c cs rule: nat_string.induct)
  case (1 n)
  show ?case
  proof (cases "n < 10")
    case True
    have "digit_val CHR ''0'' = Some 0" "digit_char 0 = CHR ''0''" by code_simp+
    then have "digit_char n = CHR ''0'' \<longleftrightarrow> n = 0"
      using digit_val_digit_char [OF True] by auto
    with 1(2) True show ?thesis by (subst (asm) nat_string.simps) simp
  next
    case False
    then obtain d ds where "nat_string (n div 10) = d # ds" by (cases "nat_string (n div 10)") auto
    with 1 False show ?thesis by (subst (asm) nat_string.simps) auto
  qed
qed

lemma span_digits_append:
  "list_all is_digit ds \<Longrightarrow> number_end t \<Longrightarrow> span_digits (ds @ t) = (ds, t)"
  by (induction ds) (auto simp: span_digits_def number_end_def split: list.splits)

lemma scan_int_nat_string:
  assumes "number_end t"
  shows "scan_int (nat_string n @ t) = Some (nat_string n, t)"
proof -
  obtain c cs where n: "nat_string n = c # cs" by (cases "nat_string n") auto
  then have ds: "is_digit c" "list_all is_digit cs" using nat_string_digits [of n] by simp_all
  show ?thesis
  proof (cases "n = 0")
    case True
    then have "cs = []" "c = CHR ''0''"
      using n nat_string_head [OF n] by (auto simp: nat_string.simps [of 0])
    then show ?thesis by (simp add: n scan_int_def)
  next
    case False
    with nat_string_head [OF n] ds assms show ?thesis
      by (simp add: n scan_int_def span_digits_append)
  qed
qed

lemma scan_number_big_String:
  assumes "number_end t"
  shows "scan_number (big_String x @ t) = Some (big_String x, t)"
proof -
  have tail: "scan_frac t = Some ([], t)" "scan_exp t = Some ([], t)"
    using assms by (auto simp: scan_frac_def scan_exp_def number_end_def split: list.split)
  obtain c cs where n: "nat_string (nat x) = c # cs" by (cases "nat_string (nat x)") auto
  have "c \<noteq> CHR ''-''" using nat_string_hd_digit [OF n] by auto
  with n scan_int_nat_string [OF assms, of "nat x"] scan_int_nat_string [OF assms, of "nat (- x)"] tail
  show ?thesis by (simp add: scan_number_def big_String_def)
qed

lemma big_String_head:
  obtains c cs where "big_String x = c # cs" "c = CHR ''-'' \<or> is_digit c"
proof (cases "x < 0")
  case True
  then show thesis by (intro that [of "CHR ''-''"]) (simp_all add: big_String_def)
next
  case False
  obtain c cs where n: "nat_string (nat x) = c # cs" by (cases "nat_string (nat x)") auto
  with False nat_string_hd_digit [OF n] show thesis by (intro that [of c cs]) (simp_all add: big_String_def)
qed

lemma parse_atom_number:
  assumes "number_end t"
  shows "parse_atom (big_String x @ t) = Some (JNumber (big_String x), t)"
proof -
  obtain c cs where c: "big_String x = c # cs" "c = CHR ''-'' \<or> is_digit c" by (rule big_String_head)
  have "\<not> is_digit dquote" by code_simp
  with c(2) have "c \<noteq> dquote" by (auto simp: dquote_def)
  with c scan_number_big_String [OF assms, of x] show ?thesis by (simp add: parse_atom_def)
qed

text \<open>The values the relayer writes: objects of well-formed strings and integers.\<close>

fun json_ok :: "json \<Rightarrow> bool" and elements_ok :: "json list \<Rightarrow> bool" and members_ok :: "(string \<times> json) list \<Rightarrow> bool" where
  "json_ok (JNumber n) \<longleftrightarrow> (\<exists>x. n = big_String x)"
| "json_ok (JString s) \<longleftrightarrow> valid_utf8 s"
| "json_ok (JArray vs) \<longleftrightarrow> elements_ok vs"
| "json_ok (JObject ms) \<longleftrightarrow> members_ok ms"
| "json_ok _ \<longleftrightarrow> True"
| "elements_ok [] \<longleftrightarrow> True"
| "elements_ok (v # vs) \<longleftrightarrow> json_ok v \<and> elements_ok vs"
| "members_ok [] \<longleftrightarrow> True"
| "members_ok ((k, v) # ms) \<longleftrightarrow> valid_utf8 k \<and> json_ok v \<and> members_ok ms"

lemma skip_ws_head: "\<not> is_ws c \<Longrightarrow> skip_ws (c # s) = c # s"
  by (simp add: skip_ws_def)

lemma not_ws [simp]:
  "\<not> is_ws dquote" "\<not> is_ws CHR ''{''" "\<not> is_ws CHR ''}''" "\<not> is_ws CHR '',''" "\<not> is_ws CHR '':''"
  "\<not> is_ws CHR ''-''" "\<not> is_ws CHR ''[''" "\<not> is_ws CHR '']''"
  by (simp_all add: is_ws_def dquote_def)

lemma digit_not_ws: "is_digit c \<Longrightarrow> \<not> is_ws c"
  by (auto simp: is_ws_def is_digit_def digit_val_def)

lemma punct_not_digit [simp]:
  "\<not> is_digit dquote" "\<not> is_digit CHR ''{''" "\<not> is_digit CHR ''[''" "\<not> is_digit CHR '',''" "\<not> is_digit CHR ''}''" "\<not> is_digit CHR '']''"
  by (simp_all add: is_digit_def digit_val_def dquote_def)

lemma parse_value_string: "valid_utf8 s \<Longrightarrow> parse_value (Suc n) (json_string s @ t) = Some (JString s, t)"
  using parse_atom_string [of s t] by (simp add: json_string_def skip_ws_head) (simp add: dquote_def)

lemma parse_value_number:
  assumes "number_end t"
  shows "parse_value (Suc n) (big_String x @ t) = Some (JNumber (big_String x), t)"
proof -
  obtain c cs where c: "big_String x = c # cs" "c = CHR ''-'' \<or> is_digit c" by (rule big_String_head)
  have "\<not> is_ws c" "c \<noteq> CHR ''{''" "c \<noteq> CHR ''[''" using c(2) digit_not_ws by auto
  with c(1) parse_atom_number [OF assms, of x] show ?thesis by (simp add: skip_ws_head)
qed

lemma parse_members_key:
  assumes "valid_utf8 k" and "parse_value n w = Some (v, c # y)" and "\<not> is_ws c"
  shows "parse_members (Suc n) (json_string k @ '':'' @ w) =
    (if c = CHR '','' then map_option (\<lambda>(ms, z). ((k, v) # ms, z)) (parse_members n y)
     else if c = CHR ''}'' then Some ([(k, v)], y) else None)"
  using assms scan_string_quote [of k "CHR '':'' # w"]
  by (simp add: json_string_def skip_ws_head unquote_quote)

lemma parse_value_literal:
  "parse_value (Suc n) (''null'' @ t) = Some (JNull, t)"
  "parse_value (Suc n) ((if b then ''true'' else ''false'') @ t) = Some (JBool b, t)"
  by (simp_all add: skip_ws_def is_ws_def parse_atom_def HasPrefix_def dquote_def is_digit_def digit_val_def)

text \<open>What is printed never starts with white space or a closing bracket.\<close>

lemma print_json_head: "json_ok v \<Longrightarrow> \<exists>c s. print_json v = c # s \<and> \<not> is_ws c \<and> c \<noteq> CHR '']''"
proof (cases v)
  case (JNumber n)
  assume "json_ok v"
  with JNumber obtain x where x: "n = big_String x" by auto
  obtain c cs where c: "big_String x = c # cs" "c = CHR ''-'' \<or> is_digit c" by (rule big_String_head)
  from c(2) have "\<not> is_ws c" "c \<noteq> CHR '']''" using digit_not_ws by (auto simp: is_digit_def digit_val_def)
  with JNumber x c(1) show ?thesis by simp
qed (auto simp: json_string_def is_ws_def dquote_def)

lemma print_elements_head:
  assumes "elements_ok vs" and "vs \<noteq> []"
  shows "\<exists>c s. print_elements vs = c # s \<and> \<not> is_ws c \<and> c \<noteq> CHR '']''"
proof -
  from assms(2) obtain v ws where vs: "vs = v # ws" by (cases vs) auto
  with assms(1) obtain c s where "print_json v = c # s" "\<not> is_ws c" "c \<noteq> CHR '']''" using print_json_head [of v] by auto
  with vs show ?thesis by (cases ws) simp_all
qed

lemma number_end_simps [simp]:
  "number_end []" "number_end (CHR '','' # t)" "number_end (CHR ''}'' # t)" "number_end (CHR '']'' # t)"
  by (simp_all add: number_end_def)

lemma print_members_head: "ms \<noteq> [] \<Longrightarrow> \<exists>t. print_members ms = dquote # t"
  by (cases ms rule: print_members.cases) (auto simp: json_string_def)

lemma parse_print:
  "json_ok v \<Longrightarrow> number_end t \<Longrightarrow> 2 * length (print_json v @ t) + 1 \<le> n \<Longrightarrow>
     parse_value n (print_json v @ t) = Some (v, t)"
  "elements_ok vs \<Longrightarrow> vs \<noteq> [] \<Longrightarrow> 2 * length (print_elements vs @ '']'' @ w) + 2 \<le> n \<Longrightarrow>
     parse_elements n (print_elements vs @ '']'' @ w) = Some (vs, w)"
  "members_ok ms \<Longrightarrow> ms \<noteq> [] \<Longrightarrow> 2 * length (print_members ms @ ''}'' @ u) + 1 \<le> n \<Longrightarrow>
     parse_members n (print_members ms @ ''}'' @ u) = Some (ms, u)"
proof (induction v and vs and ms arbitrary: n t and n w and n u
    rule: print_json_print_elements_print_members.induct)
  case 1
  then show ?case using parse_value_literal(1) [of _ t] by (cases n) (simp_all del: parse_value.simps)
next
  case (2 b)
  then show ?case using parse_value_literal(2) [of _ b t] by (cases n) (simp_all del: parse_value.simps)
next
  case (3 x)
  then show ?case by (cases n) (auto simp: parse_value_number simp del: parse_value.simps)
next
  case (4 s)
  then show ?case by (cases n) (auto simp: parse_value_string simp del: parse_value.simps)
next
  case (5 vs)
  then obtain m where m: "n = Suc m" by (cases n) auto
  show ?case
  proof (cases "vs = []")
    case True
    then show ?thesis by (simp add: m skip_ws_head)
  next
    case False
    with 5 obtain c x where x: "print_elements vs = c # x" "\<not> is_ws c" "c \<noteq> CHR '']''" using print_elements_head [of vs] by auto
    have "parse_elements m (print_elements vs @ '']'' @ t) = Some (vs, t)"
      using 5 False m by (intro "5.IH") simp_all
    with x show ?thesis by (simp add: m skip_ws_head)
  qed
next
  case (8 v)
  then obtain m where m: "n = Suc m" by (cases n) auto
  have "parse_value m (print_json v @ '']'' @ w) = Some (v, '']'' @ w)"
    using 8 m by (intro "8.IH") simp_all
  then show ?case by (simp add: m skip_ws_head)
next
  case (9 v v' vs)
  then obtain m where m: "n = Suc m" by (cases n) auto
  let ?y = "print_elements (v' # vs) @ '']'' @ w"
  have "parse_value m (print_json v @ '','' @ ?y) = Some (v, '','' @ ?y)"
    using 9 m by (intro "9.IH") simp_all
  moreover have "parse_elements m ?y = Some (v' # vs, w)"
    using 9 m by (intro "9.IH") simp_all
  ultimately show ?case by (simp add: m skip_ws_head)
next
  case (6 ms)
  then obtain m where m: "n = Suc m" by (cases n) auto
  show ?case
  proof (cases "ms = []")
    case True
    then show ?thesis by (simp add: m skip_ws_head)
  next
    case False
    then obtain x where x: "print_members ms = dquote # x" using print_members_head by blast
    have "parse_members m (print_members ms @ ''}'' @ t) = Some (ms, t)"
      using 6 False m by (intro "6.IH") simp_all
    with x show ?thesis by (simp add: m skip_ws_head) (simp add: dquote_def)
  qed
next
  case (11 k v)
  then obtain m where m: "n = Suc m" by (cases n) auto
  have "parse_value m (print_json v @ ''}'' @ u) = Some (v, ''}'' @ u)"
    using 11 m by (intro "11.IH") simp_all
  with 11 parse_members_key [of k m "print_json v @ ''}'' @ u" v "CHR ''}''" u] show ?case by (simp add: m)
next
  case (12 k v m' ms)
  then obtain m where m: "n = Suc m" by (cases n) auto
  let ?y = "print_members (m' # ms) @ ''}'' @ u"
  have "parse_value m (print_json v @ '','' @ ?y) = Some (v, '','' @ ?y)"
    using 12 m by (intro "12.IH") simp_all
  moreover have "parse_members m ?y = Some (m' # ms, u)"
    using 12 m by (intro "12.IH") simp_all
  ultimately show ?case
    using 12 parse_members_key [of k m "print_json v @ '','' @ ?y" v "CHR '',''" ?y] by (simp add: m)
qed simp_all

text \<open>Printing then reading, as a stream and as a whole message.\<close>

lemma decode_print: "json_ok v \<Longrightarrow> number_end t \<Longrightarrow> decode_value (print_json v @ t) = Some (v, t)"
  unfolding decode_value_def by (rule parse_print(1)) simp_all

lemma decode_message_print: "json_ok v \<Longrightarrow> decode_message (print_json v) = Some v"
  using decode_print [of v "[]"] by (simp add: decode_message_def skip_ws_def)

end
