(* ===== verification/Go_Json_Strings.thy ===== *)
theory Go_Json_Strings
  imports Go_Json
begin

section \<open>What the JSON reader produces\<close>

text \<open>
  What the wire formats rest on: every string the reader returns is well-formed UTF-8, whatever the
  input, so that what was read once can be written and read again without loss; it is at most three
  times as long as the input; a string is written in at most six times its length; and the decimal
  forms of 64-bit integers read back as the same integers.
\<close>

subsection \<open>Decoded strings are well-formed UTF-8\<close>

text \<open>The text of a literal as the scanner accepts it.\<close>

fun literal_ok :: "string \<Rightarrow> bool" where
  "literal_ok [] \<longleftrightarrow> True"
| "literal_ok (c # s) \<longleftrightarrow>
     (if c = backslash then
        (case s of
           [] \<Rightarrow> False
         | e # t \<Rightarrow>
             if e = CHR ''u'' then hex4 t \<noteq> None \<and> literal_ok (drop 4 t)
             else byte_val e < 128 \<and> literal_ok t)
      else literal_ok s)"

lemma hex4_split: "hex4 t = Some r \<Longrightarrow> hex4 (take 4 t @ u) = Some r \<and> length (take 4 t) = 4"
  by (auto simp: hex4_def split: list.splits option.splits)

lemma scan_string_literal: "scan_string s = Some (raw, t) \<Longrightarrow> literal_ok raw"
proof (induction s arbitrary: raw t rule: scan_string.induct)
  case (2 c s)
  consider "c = dquote" | "c \<noteq> dquote" "c = backslash" | "c \<noteq> dquote" "c \<noteq> backslash" by blast
  then show ?case
  proof cases
    case 1
    with "2.prems" show ?thesis by simp
  next
    case esc: 2
    with "2.prems" obtain e u where s: "s = e # u" by (cases s) auto
    show ?thesis
    proof (cases "e = CHR ''u''")
      case True
      with "2.prems" esc s obtain r raw' where r: "scan_string (drop 4 u) = Some (raw', t)" "hex4 u = Some r"
          "raw = c # e # take 4 u @ raw'"
        by (auto split: option.splits)
      with "2.IH"(1) [OF esc s True r(2,1)] hex4_split [OF r(2), of raw'] True esc show ?thesis by simp
    next
      case False
      with "2.prems" esc s obtain raw' where r: "scan_string u = Some (raw', t)" "raw = c # e # raw'"
          and e: "e \<in> set [dquote, backslash, CHR ''/'', CHR ''b'', CHR ''f'', CHR ''n'', CHR ''r'', CHR ''t'']"
        by (auto split: if_splits)
      from e have "byte_val e < 128" by (auto simp: dquote_def backslash_def)
      with "2.IH"(2) [OF esc s False e r(1)] r False esc show ?thesis by simp
    qed
  next
    case 3
    with "2.prems" show ?thesis by (auto split: if_splits intro: "2.IH"(3))
  qed
qed simp

lemma valid_utf8_append: "utf8_width (a @ s) = length a \<Longrightarrow> a \<noteq> [] \<Longrightarrow> valid_utf8 (a @ s) = valid_utf8 s"
  by (cases a) (simp_all add: valid_utf8.simps Let_def)

lemma utf8_width_replacement: "utf8_width (replacement_char @ s) = 3"
  by (simp add: replacement_char_def utf8_width_def is_cont_def)

lemma utf8_width_EncodeRune: "utf8_width (EncodeRune r @ s) = length (EncodeRune r)"
proof -
  consider "r < 0x80" | "0x80 \<le> r" "r < 0x800" | "0x800 \<le> r" "(0xD800 \<le> r \<and> r < 0xE000) \<or> 0x10FFFF < r"
    | "0x800 \<le> r" "r < 0xD800" | "0xE000 \<le> r" "r < 0x10000" | "0x10000 \<le> r" "r \<le> 0x10FFFF" by linarith
  then show ?thesis
  proof cases
    case 1
    then show ?thesis by (simp add: EncodeRune_def)
  next
    case 2
    then have "r div 64 < 32" "2 \<le> r div 64" by simp_all
    with 2 show ?thesis by (simp add: EncodeRune_def utf8_width_def is_cont_def)
  next
    case 3
    then show ?thesis by (simp add: EncodeRune_def utf8_width_replacement) (simp add: replacement_char_def)
  next
    case 4
    then have "r div 4096 < 14" by simp
    moreover have "r div 64 mod 64 \<ge> 32" if "r div 4096 = 0"
    proof -
      have "r div 64 div 64 = 0" using that by (simp add: div_mult2_eq [symmetric])
      then show ?thesis using 4 div_mult_mod_eq [of "r div 64" 64] by linarith
    qed
    moreover have "r div 64 mod 64 < 32" if "r div 4096 = 13"
    proof -
      have "r div 64 div 64 = 13" using that by (simp add: div_mult2_eq [symmetric])
      then show ?thesis using 4 div_mult_mod_eq [of "r div 64" 64] by linarith
    qed
    ultimately show ?thesis using 4 by (auto simp: EncodeRune_def utf8_width_def is_cont_def)
  next
    case 5
    then have "r div 4096 < 16" "14 \<le> r div 4096" by simp_all
    with 5 show ?thesis by (auto simp: EncodeRune_def utf8_width_def is_cont_def)
  next
    case 6
    then have "r div 262144 < 5" by simp
    moreover have "r div 4096 mod 64 \<ge> 16" if "r div 262144 = 0"
    proof -
      have "r div 4096 div 64 = 0" using that by (simp add: div_mult2_eq [symmetric])
      then show ?thesis using 6 div_mult_mod_eq [of "r div 4096" 64] by linarith
    qed
    moreover have "r div 4096 mod 64 < 16" if "r div 262144 = 4"
    proof -
      have "r div 4096 div 64 = 4" using that by (simp add: div_mult2_eq [symmetric])
      then show ?thesis using 6 div_mult_mod_eq [of "r div 4096" 64] by linarith
    qed
    ultimately show ?thesis using 6 by (auto simp: EncodeRune_def utf8_width_def is_cont_def)
  qed
qed

lemma EncodeRune_nonempty: "EncodeRune r \<noteq> []"
  by (simp add: EncodeRune_def replacement_char_def)

lemma valid_utf8_EncodeRune [simp]: "valid_utf8 (EncodeRune r @ s) = valid_utf8 s"
  by (rule valid_utf8_append [OF utf8_width_EncodeRune EncodeRune_nonempty])

lemma valid_utf8_replacement [simp]: "valid_utf8 (replacement_char @ s) = valid_utf8 s"
  by (rule valid_utf8_append) (simp_all add: utf8_width_replacement, simp_all add: replacement_char_def)

lemma literal_ok_high: "list_all (\<lambda>d. 128 \<le> byte_val d) r \<Longrightarrow> literal_ok (r @ s) = literal_ok s"
  by (induction r) (auto simp: backslash_def)

lemma literal_ok_getu4:
  assumes "literal_ok s" and "getu4 s = Some r"
  shows "literal_ok (drop 6 s)"
  using assms by (auto simp: getu4_def split: list.splits if_splits)

lemma byte_escape_value: "byte_val e < 128 \<Longrightarrow> byte_val (escape_value e) < 128"
  by (simp add: escape_value_def)

lemma valid_utf8_unquote: "literal_ok s \<Longrightarrow> valid_utf8 (unquote s)"
proof (induction s rule: unquote.induct)
  case 1
  show ?case by (simp add: unquote.simps valid_utf8.simps)
next
  case (2 c s)
  show ?case
  proof (cases "c = backslash")
    case esc: True
    show ?thesis
    proof (cases "getu4 (c # s)")
      case None
      with "2.prems" esc obtain e t where s: "s = e # t" "e \<noteq> CHR ''u''" "byte_val e < 128" "literal_ok t"
        by (cases s) (auto simp: getu4_def split: if_splits)
      with "2.IH"(1) [OF esc None s(1)] esc None byte_escape_value [OF s(3)] show ?thesis
        by (simp add: unquote.simps(2) valid_utf8.simps(2))
    next
      case (Some r)
      have t: "literal_ok (drop 5 s)" using literal_ok_getu4 [OF "2.prems" Some] by simp
      have pair: "literal_ok (drop 6 (drop 5 s))" if "surrogate_pair r (drop 5 s) = Some p" for p
      proof -
        from that obtain r1 where "getu4 (drop 5 s) = Some r1" by (auto simp: surrogate_pair_def split: option.splits)
        with t show ?thesis by (rule literal_ok_getu4)
      qed
      show ?thesis
        using esc Some t pair "2.IH"(2-4) [OF esc Some refl]
        by (auto simp: unquote.simps(2) Let_def split: option.split)
    qed
  next
    case False
    then have s: "literal_ok s" using "2.prems" by simp
    show ?thesis
    proof (cases "utf8_width (c # s) = 0")
      case True
      with False s "2.IH"(5) show ?thesis by (simp add: unquote.simps(2))
    next
      case w: False
      let ?r = "take (utf8_width (c # s)) (c # s)"
      have "literal_ok (drop (utf8_width (c # s)) (c # s)) \<and> utf8_width (?r @ t) = length ?r \<and> ?r \<noteq> []" for t
      proof (cases "byte_val c < 128")
        case True
        with s show ?thesis by simp
      next
        case high: False
        then have "128 \<le> byte_val c" by simp
        note L = utf8_width_long [OF this w]
        from literal_ok_high [OF L(2), of "drop (utf8_width (c # s)) (c # s)"] "2.prems" L(1) L(3) [of t] w
        show ?thesis by (simp del: take_Cons drop_Cons)
      qed
      then show ?thesis
        using False w "2.IH"(6) [OF False w] by (simp add: unquote.simps(2) valid_utf8_append)
    qed
  qed
qed

text \<open>
  A decoded string is at most three times as long as its literal: an ill-formed byte becomes the three
  bytes of the replacement character, and every escape shrinks.
\<close>

lemma length_EncodeRune: "length (EncodeRune r) \<le> 4"
  by (simp add: EncodeRune_def replacement_char_def)

lemma getu4_length: "getu4 s = Some r \<Longrightarrow> 6 \<le> length s"
  by (auto simp: getu4_def hex4_def split: list.splits if_splits)

lemma length_unquote: "length (unquote s) \<le> 3 * length s"
proof (induction s rule: unquote.induct)
  case (2 c s)
  show ?case
  proof (cases "c = backslash")
    case esc: True
    show ?thesis
    proof (cases "getu4 (c # s)")
      case None
      with esc "2.IH"(1) [OF esc None] show ?thesis by (cases s) (simp_all add: unquote.simps)
    next
      case (Some r)
      have len: "6 \<le> length (c # s)" by (rule getu4_length [OF Some])
      have pair: "length (unquote (drop 6 (drop 5 s))) \<le> 3 * length (drop 5 s)"
        if "surrogate r" "surrogate_pair r (drop 5 s) = Some q" for q
        using "2.IH"(3) [OF esc Some refl that] by simp
      have "length (unquote (c # s)) \<le> 4 + 3 * length (drop 5 s)"
      proof (cases "surrogate r")
        case True
        show ?thesis
        proof (cases "surrogate_pair r (drop 5 s)")
          case None
          with "2.IH"(2) [OF esc Some refl True None] esc Some True show ?thesis
            by (simp add: unquote.simps(2) replacement_char_def)
        next
          case (Some q)
          with pair [OF True Some] length_EncodeRune [of q] esc True \<open>getu4 (c # s) = Some r\<close> show ?thesis
            by (simp add: unquote.simps(2))
        qed
      next
        case False
        with "2.IH"(4) [OF esc Some refl False] length_EncodeRune [of r] esc Some show ?thesis
          by (simp add: unquote.simps(2) Let_def)
      qed
      with len show ?thesis by simp
    qed
  next
    case False
    then show ?thesis
      using "2.IH"(5,6) [OF False]
      by (cases "utf8_width (c # s) = 0") (auto simp: unquote.simps(2) replacement_char_def min_def)
  qed
qed (simp add: unquote.simps)

lemma scan_string_length: "scan_string s = Some (raw, t) \<Longrightarrow> length raw < length s"
proof (induction s arbitrary: raw t rule: scan_string.induct)
  case (2 c s)
  consider "c = dquote" | "c \<noteq> dquote" "c = backslash" | "c \<noteq> dquote" "c \<noteq> backslash" by blast
  then show ?case
  proof cases
    case 1
    with "2.prems" show ?thesis by simp
  next
    case esc: 2
    with "2.prems" obtain e u where s: "s = e # u" by (cases s) auto
    show ?thesis
    proof (cases "e = CHR ''u''")
      case True
      with "2.prems" esc s obtain r raw' where r: "scan_string (drop 4 u) = Some (raw', t)" "hex4 u = Some r"
          "raw = c # e # take 4 u @ raw'"
        by (auto split: option.splits)
      with "2.IH"(1) [OF esc s True r(2,1)] s show ?thesis by simp
    next
      case False
      with "2.prems" esc s obtain raw' where r: "scan_string u = Some (raw', t)" "raw = c # e # raw'"
          and e: "e \<in> set [dquote, backslash, CHR ''/'', CHR ''b'', CHR ''f'', CHR ''n'', CHR ''r'', CHR ''t'']"
        by (auto split: if_splits)
      with "2.IH"(2) [OF esc s False e r(1)] s show ?thesis by simp
    qed
  next
    case 3
    with "2.prems" obtain raw' where r: "scan_string s = Some (raw', t)" "raw = c # raw'" and low: "\<not> byte_val c < 32"
      by (auto split: if_splits)
    with "2.IH"(3) [OF 3 low r(1)] show ?thesis by simp
  qed
qed simp

text \<open>
  Every string of a value that was read, keys included, has a property that holds of all literals no
  longer than the input.
\<close>

fun strings_all :: "(string \<Rightarrow> bool) \<Rightarrow> json \<Rightarrow> bool" and elements_all :: "(string \<Rightarrow> bool) \<Rightarrow> json list \<Rightarrow> bool"
  and members_all :: "(string \<Rightarrow> bool) \<Rightarrow> (string \<times> json) list \<Rightarrow> bool" where
  "strings_all P (JString s) \<longleftrightarrow> P s"
| "strings_all P (JArray vs) \<longleftrightarrow> elements_all P vs"
| "strings_all P (JObject ms) \<longleftrightarrow> members_all P ms"
| "strings_all P _ \<longleftrightarrow> True"
| "elements_all P [] \<longleftrightarrow> True"
| "elements_all P (v # vs) \<longleftrightarrow> strings_all P v \<and> elements_all P vs"
| "members_all P [] \<longleftrightarrow> True"
| "members_all P ((k, v) # ms) \<longleftrightarrow> P k \<and> strings_all P v \<and> members_all P ms"

abbreviation strings_ok :: "json \<Rightarrow> bool" where "strings_ok \<equiv> strings_all valid_utf8"

definition literals_all :: "(string \<Rightarrow> bool) \<Rightarrow> nat \<Rightarrow> bool" where
  "literals_all P n \<longleftrightarrow> (\<forall>s raw t. scan_string s = Some (raw, t) \<longrightarrow> length s \<le> n \<longrightarrow> P (unquote raw))"

lemma literals_allD: "literals_all P n \<Longrightarrow> scan_string s = Some (raw, t) \<Longrightarrow> length s \<le> n \<Longrightarrow> P (unquote raw)"
  unfolding literals_all_def by blast

lemma parse_atom_strings:
  assumes lit: "literals_all P N"
    and "parse_atom s = Some (v, t)" and "length s \<le> N"
  shows "strings_all P v"
  using assms(2,3) literals_allD [OF lit, of "tl s"] by (auto simp: parse_atom_def split: list.splits if_splits)

lemma parse_strings:
  assumes lit: "literals_all P N"
  shows "parse_value n s = Some (v, t) \<Longrightarrow> length s \<le> N \<Longrightarrow> strings_all P v"
    and "parse_elements n s = Some (vs, t) \<Longrightarrow> length s \<le> N \<Longrightarrow> elements_all P vs"
    and "parse_members n s = Some (ms, t) \<Longrightarrow> length s \<le> N \<Longrightarrow> members_all P ms"
proof (induction n s and n s and n s arbitrary: v t and vs t and ms t
    rule: parse_value_parse_elements_parse_members.induct)
  case (2 n s)
  from "2.prems" obtain c u where c: "skip_ws s = c # u" by (auto split: list.splits)
  have "length (c # u) \<le> N" "length u \<le> N" using skip_ws_shorter [OF c] "2.prems"(2) by simp_all
  with "2.prems"(1) c "2.IH" parse_atom_strings [OF lit, of "c # u" v t] show ?case
    by (auto split: list.splits if_splits)
next
  case (4 n s)
  from "4.prems" obtain v1 t1 c u where v1: "parse_value n s = Some (v1, t1)" "skip_ws t1 = c # u"
    by (auto split: option.splits list.splits)
  have "length u \<le> N" using parse_shorter(1) [OF v1(1)] skip_ws_shorter [OF v1(2)] "4.prems"(2) by simp
  with v1 "4.prems" "4.IH"(1) [OF v1(1)] "4.IH"(2) [OF v1(1) refl v1(2)] show ?case by (auto split: if_splits)
next
  case (6 n s)
  from "6.prems" obtain q x raw u k w v1 x1 c y where *: "skip_ws s = q # x" "\<not> q \<noteq> dquote" "scan_string x = Some (raw, u)"
      "skip_ws u = k # w" "\<not> k \<noteq> CHR '':''" "parse_value n w = Some (v1, x1)" "skip_ws x1 = c # y"
    by (auto split: option.splits list.splits if_splits)
  have len: "length x \<le> N" "length w \<le> N" "length y \<le> N"
    using skip_ws_shorter [OF *(1)] scan_string_shorter [OF *(3)] skip_ws_shorter [OF *(4)] parse_shorter(1) [OF *(6)]
      skip_ws_shorter [OF *(7)] "6.prems"(2) by simp_all
  have "strings_all P v1" using "6.IH"(1) * len(2) by metis
  moreover have "members_all P ms1" if "c = CHR '',''" "parse_members n y = Some (ms1, t)" for ms1
    using "6.IH"(2) * that len(3) by metis
  ultimately show ?case
    using * "6.prems" literals_allD [OF lit *(3) len(1)] by (auto split: if_splits)
qed simp_all

lemma literals_valid: "literals_all valid_utf8 n"
  by (auto simp: literals_all_def intro: valid_utf8_unquote scan_string_literal)

lemma literals_short: "literals_all (\<lambda>x. length x \<le> 3 * n) n"
  unfolding literals_all_def
proof (intro allI impI)
  fix s raw t
  assume "scan_string s = Some (raw, t)" and "length s \<le> n"
  with scan_string_length [of s raw t] length_unquote [of raw] show "length (unquote raw) \<le> 3 * n" by simp
qed

lemma decode_value_strings: "decode_value s = Some (v, t) \<Longrightarrow> strings_ok v"
  unfolding decode_value_def by (rule parse_strings(1) [OF literals_valid _ order_refl])

lemma decode_value_short: "decode_value s = Some (v, t) \<Longrightarrow> strings_all (\<lambda>x. length x \<le> 3 * length s) v"
  unfolding decode_value_def by (rule parse_strings(1) [OF literals_short _ order_refl])

text \<open>A property of a struct that storing such strings keeps holds of what is decoded.\<close>

lemma decode_members_keeps:
  assumes keep: "\<And>f v r r'. setf f v r = Some r' \<Longrightarrow> strings_all P v \<Longrightarrow> Q r \<Longrightarrow> Q r'"
  shows "decode_members setf names disallow ms r = Some r' \<Longrightarrow> members_all P ms \<Longrightarrow> Q r \<Longrightarrow> Q r'"
proof (induction ms arbitrary: r)
  case (Cons m ms)
  obtain k v where m: "m = (k, v)" by (cases m) auto
  from Cons.prems m Cons.IH keep show ?case by (auto split: option.splits if_splits)
qed simp

lemma decode_struct_keeps:
  assumes "\<And>f v r r'. setf f v r = Some r' \<Longrightarrow> strings_all P v \<Longrightarrow> Q r \<Longrightarrow> Q r'"
    and "decode_struct setf names disallow v zero = Some r" and "strings_all P v" and "Q zero"
  shows "Q r"
  using assms(2-4) decode_members_keeps [OF assms(1)]
  by (auto simp: decode_struct_def split: json.splits)

subsection \<open>How long a written string is\<close>

lemma length_quote_rune: "length (quote_rune r) \<le> 6 * length r"
  by (auto simp: quote_rune_def)

lemma length_quote_body: "length (quote_body s) \<le> 6 * length s"
proof (induction s rule: quote_body.induct)
  case (2 c s)
  let ?w = "utf8_width (c # s)"
  show ?case
  proof (cases "byte_val c < 128")
    case True
    have "length (quote_ascii c) \<le> 6" by (simp add: quote_ascii_def)
    with True "2.IH"(1) [OF refl True] show ?thesis by (simp add: quote_body.simps(2))
  next
    case high: False
    show ?thesis
    proof (cases "?w = 0")
      case True
      with high "2.IH"(2) [OF refl high True] show ?thesis by (simp add: quote_body.simps(2))
    next
      case w: False
      have "length (quote_rune (take ?w (c # s))) \<le> 6 * length (take ?w (c # s))" by (rule length_quote_rune)
      moreover have "length (take ?w (c # s)) + length (drop ?w (c # s)) = length (c # s)"
        by (metis append_take_drop_id length_append)
      ultimately show ?thesis
        using high w "2.IH"(3) [OF refl high w] by (simp add: quote_body.simps(2) Let_def del: take_Cons' drop_Cons')
    qed
  qed
qed (simp add: quote_body.simps)

lemma length_json_string: "length (json_string s) \<le> 6 * length s + 2"
  using length_quote_body [of s] by (simp add: json_string_def)

subsection \<open>Integers read back\<close>

lemma ParseInt_big_String: "ParseInt (big_String (sint w)) = Inr w"
proof (cases "sint w < 0")
  case True
  have "- (2 ^ 63) \<le> sint w" using sint_greater_eq [of w] by simp
  then have "nat (- sint w) \<le> 2 ^ 63" by (simp add: nat_le_iff)
  then have "ParseUint (nat_string (nat (- sint w))) = Inr (of_nat (nat (- sint w)))"
    by (intro ParseUint_nat_string) simp
  moreover have "unat (of_nat (nat (- sint w)) :: 64 word) = nat (- sint w)"
    using \<open>nat (- sint w) \<le> 2 ^ 63\<close> by (simp only: unat_of_nat) (intro mod_less, simp)
  moreover have "of_nat (nat (- sint w)) = - w" using True by (simp add: of_int_minus [symmetric])
  ultimately show ?thesis using True \<open>nat (- sint w) \<le> 2 ^ 63\<close> by (simp add: ParseInt_def big_String_def)
next
  case False
  have "sint w < 2 ^ 63" using sint_less [of w] by simp
  then have n: "nat (sint w) < 2 ^ 63" using False by simp
  obtain c cs where cs: "nat_string (nat (sint w)) = c # cs" by (cases "nat_string (nat (sint w))") auto
  then have "is_digit c" by (rule nat_string_hd_digit)
  then have "c \<noteq> CHR ''-''" "c \<noteq> CHR ''+''" by auto
  moreover have "ParseUint (c # cs) = Inr (of_nat (nat (sint w)))"
    using ParseUint_nat_string [of "nat (sint w)"] n cs by simp
  moreover have "of_nat (nat (sint w)) = w" using False by simp
  moreover have "unat (of_nat (nat (sint w)) :: 64 word) = nat (sint w)" 
    using n by (simp only: unat_of_nat) (intro mod_less, simp)
  ultimately show ?thesis using False n cs by (simp add: ParseInt_def big_String_def)
qed

lemma ParseUint_unat: "ParseUint (nat_string (unat w)) = Inr w"
  using ParseUint_nat_string [of "unat w"] unsigned_less [of w, where ?'a = nat] by simp

end
