(* ===== verification/Solver_Hub.thy ===== *)
theory Solver_Hub
  imports Core_Types Go_Chan Go_Json_Strings
begin

section \<open>The solver hub (\<open>internal/ingress/mempool_ws.go\<close>)\<close>

text \<open>
  The WebSocket side of the relayer: the wire formats, the parsing of a bid, and the hub with its
  clients. Clients are pointers in the code: the map \<open>clients\<close> holds addresses of a heap of client
  objects, each with its \<open>send\<close> channel. The go-ethereum functions \<open>common.HexToAddress\<close> and
  \<open>Address.Hex\<close> are parameters; the WebSocket connection is visible only through what is read from it
  (any text, or an error), what is written to it, and whether a write fails.

  The goroutines of the hub interleave at the points where the code takes or releases its lock and at
  the channel operations: \<open>hub_step\<close> has one rule per such section. The read lock of \<open>BroadcastIntent\<close> is
  held exactly by the broadcasts in their sending phase, so the sections under the write lock run only
  when there is none.
\<close>

subsection \<open>Wire formats\<close>

record addr_text =
  HexToAddress :: "string \<Rightarrow> address"
  AddressHex :: "address \<Rightarrow> string"

text \<open>Documented: the checksummed form is \<open>0x\<close> and 40 digits, in ASCII, and reads back as the same address.\<close>

definition addr_text_ok :: "addr_text \<Rightarrow> bool" where
  "addr_text_ok ac \<longleftrightarrow> (\<forall>a. is_ascii (AddressHex ac a) \<and> length (AddressHex ac a) = 42 \<and> HexToAddress ac (AddressHex ac a) = a)"

record bidRequest =
  brIntentID :: string
  brSolver :: string
  brAmountOut :: string
  brGasPrice :: string

record intentPayload =
  ipID :: string
  ipTokenIn :: string
  ipTokenOut :: string
  ipAmountIn :: string
  ipMinAmountOut :: string
  ipDeadline :: "64 word"

record intentBroadcast =
  ibType :: string
  ibIntent :: intentPayload

definition payload_json :: "intentPayload \<Rightarrow> json" where
  "payload_json p =
     JObject [(''id'', JString (ipID p)), (''token_in'', JString (ipTokenIn p)),
       (''token_out'', JString (ipTokenOut p)), (''amount_in'', JString (ipAmountIn p)),
       (''min_amount_out'', JString (ipMinAmountOut p)), (''deadline'', JNumber (big_String (sint (ipDeadline p))))]"

definition broadcast_json :: "intentBroadcast \<Rightarrow> json" where
  "broadcast_json b = JObject [(''type'', JString (ibType b)), (''intent'', payload_json (ibIntent b))]"

text \<open>The message \<open>BroadcastIntent\<close> marshals; marshalling these structs does not fail.\<close>

definition intent_payload :: "addr_text \<Rightarrow> intent \<Rightarrow> intentPayload" where
  "intent_payload ac i =
     \<lparr>ipID = iID i, ipTokenIn = AddressHex ac (iTokenIn i), ipTokenOut = AddressHex ac (iTokenOut i),
      ipAmountIn = bigptr_String (iAmountIn i), ipMinAmountOut = bigptr_String (iMinAmountOut i),
      ipDeadline = Time_Unix (iDeadline i)\<rparr>"

definition broadcastMsg :: "addr_text \<Rightarrow> intent \<Rightarrow> string" where
  "broadcastMsg ac i = print_json (broadcast_json \<lparr>ibType = ''new_intent'', ibIntent = intent_payload ac i\<rparr>)"

subsection \<open>Bids\<close>

definition bidFields :: "string list" where
  "bidFields = [''intent_id'', ''solver'', ''amount_out'', ''gas_price'']"

definition setBidField :: "string \<Rightarrow> json \<Rightarrow> bidRequest \<Rightarrow> bidRequest option" where
  "setBidField f v r =
     (if f = ''intent_id'' then map_option (\<lambda>x. r\<lparr>brIntentID := x\<rparr>) (store_string v (brIntentID r))
      else if f = ''solver'' then map_option (\<lambda>x. r\<lparr>brSolver := x\<rparr>) (store_string v (brSolver r))
      else if f = ''amount_out'' then map_option (\<lambda>x. r\<lparr>brAmountOut := x\<rparr>) (store_string v (brAmountOut r))
      else map_option (\<lambda>x. r\<lparr>brGasPrice := x\<rparr>) (store_string v (brGasPrice r)))"

text \<open>\<open>json.Unmarshal(msg, &req)\<close>\<close>

definition decodeBid :: "string \<Rightarrow> bidRequest option" where
  "decodeBid msg =
     (case decode_message msg of
        None \<Rightarrow> None
      | Some v \<Rightarrow>
          decode_struct setBidField bidFields False v
            \<lparr>brIntentID = [], brSolver = [], brAmountOut = [], brGasPrice = []\<rparr>)"

datatype bid_rejection = BadPayload | BadAmountOut string | BadGasPrice string

text \<open>The body of the loop of \<open>readPump\<close> up to the push: every \<open>continue\<close> is a rejection.\<close>

definition parseBid :: "addr_text \<Rightarrow> go_time \<Rightarrow> string \<Rightarrow> bid_rejection + bid" where
  "parseBid ac now msg =
     (case decodeBid msg of
        None \<Rightarrow> Inl BadPayload
      | Some req \<Rightarrow>
          (case big_SetString (brAmountOut req) of
             None \<Rightarrow> Inl (BadAmountOut (brAmountOut req))
           | Some amountOut \<Rightarrow>
               if amountOut \<le> 0 then Inl (BadAmountOut (brAmountOut req))
               else
                 (case big_SetString (brGasPrice req) of
                    None \<Rightarrow> Inl (BadGasPrice (brGasPrice req))
                  | Some gasPrice \<Rightarrow>
                      if gasPrice \<le> 0 then Inl (BadGasPrice (brGasPrice req))
                      else Inr \<lparr>bIntentID = brIntentID req, bSolver = HexToAddress ac (brSolver req),
                                bAmountOut = Some amountOut, bGasPrice = Some gasPrice,
                                bReceivedAt = now, bSignature = []\<rparr>)))"

text \<open>One message received by \<open>readPump\<close>: parsed, and pushed to \<open>bidCh\<close> without blocking.\<close>

definition readMessage :: "addr_text \<Rightarrow> go_time \<Rightarrow> string \<Rightarrow> bid gochan \<Rightarrow> go_panic + bid gochan" where
  "readMessage ac now msg bidCh =
     (case parseBid ac now msg of
        Inl _ \<Rightarrow> Inr bidCh
      | Inr b \<Rightarrow> (case try_send b bidCh of Inl p \<Rightarrow> Inl p | Inr (_, ch) \<Rightarrow> Inr ch))"

subsection \<open>The hub\<close>

definition maxMessageSize :: nat where
  "maxMessageSize = 4096"

definition sendBufSize :: nat where
  "sendBufSize = 256"

text \<open>Where the two goroutines of a client are: in their loop, in their deferred calls, or done.\<close>

datatype reader_pc = Reading | Unregistering | ClosingRead | ReadDone
datatype writer_pc = Writing | ClosingWrite | WriteDone

record client =
  cSend :: "string gochan"
  cConnClosed :: bool
  cReader :: reader_pc
  cWriter :: writer_pc
  cQueued :: "string list"
  cWritten :: "string list"

text \<open>
  The fields \<open>cQueued\<close> and \<open>cWritten\<close> are the history of a client: the messages put into its queue and
  the text frames written to its connection.
\<close>

definition new_client :: client where
  "new_client = \<lparr>cSend = make_chan sendBufSize, cConnClosed = False, cReader = Reading, cWriter = Writing,
     cQueued = [], cWritten = []\<rparr>"

record hub =
  hHeap :: "nat \<Rightarrow> client option"
  hNext :: nat
  hClients :: "nat set"
  hBidCh :: "bid gochan"

definition NewHub :: "bid gochan \<Rightarrow> hub" where
  "NewHub bidCh = \<lparr>hHeap = (\<lambda>_. None), hNext = 0, hClients = {}, hBidCh = bidCh\<rparr>"

text \<open>
  \<open>ServeWS\<close>: nothing when the upgrade fails, and otherwise a new client, registered under the write
  lock, with its two goroutines started.
\<close>

definition ServeWS :: "bool \<Rightarrow> hub \<Rightarrow> hub" where
  "ServeWS upgraded h =
     (if upgraded
      then h\<lparr>hHeap := (hHeap h)(hNext h \<mapsto> new_client), hNext := Suc (hNext h),
             hClients := insert (hNext h) (hClients h)\<rparr>
      else h)"

definition unregisterClient :: "nat \<Rightarrow> hub \<Rightarrow> go_panic + hub" where
  "unregisterClient p h =
     (if p \<in> hClients h then
        (case hHeap h p of
           None \<Rightarrow> Inl NilDereference
         | Some c \<Rightarrow>
             (case close_chan (cSend c) of
                Inl e \<Rightarrow> Inl e
              | Inr ch \<Rightarrow>
                  Inr (h\<lparr>hClients := hClients h - {p}, hHeap := (hHeap h)(p \<mapsto> c\<lparr>cSend := ch\<rparr>)\<rparr>)))
      else Inr h)"

text \<open>The body of \<open>Run\<close> once the context is done, for the order \<open>ps\<close> in which the map is walked.\<close>

fun closeAll :: "nat list \<Rightarrow> hub \<Rightarrow> go_panic + hub" where
  "closeAll [] h = Inr h"
| "closeAll (p # ps) h =
     (case hHeap h p of
        None \<Rightarrow> Inl NilDereference
      | Some c \<Rightarrow>
          (case close_chan (cSend c) of
             Inl e \<Rightarrow> Inl e
           | Inr ch \<Rightarrow>
               closeAll ps (h\<lparr>hHeap := (hHeap h)(p \<mapsto> c\<lparr>cSend := ch\<rparr>), hClients := hClients h - {p}\<rparr>)))"

text \<open>
  The send of \<open>BroadcastIntent\<close> to one client, and its loop over the clients: the slow ones are
  collected.
\<close>

definition sendTo :: "string \<Rightarrow> nat \<Rightarrow> hub \<Rightarrow> go_panic + bool \<times> hub" where
  "sendTo msg p h =
     (case hHeap h p of
        None \<Rightarrow> Inl NilDereference
      | Some c \<Rightarrow>
          (case try_send msg (cSend c) of
             Inl e \<Rightarrow> Inl e
           | Inr (ok, ch) \<Rightarrow>
               Inr (ok, h\<lparr>hHeap := (hHeap h)(p \<mapsto>
                 c\<lparr>cSend := ch, cQueued := cQueued c @ (if ok then [msg] else [])\<rparr>)\<rparr>)))"

fun sendAll :: "string \<Rightarrow> nat list \<Rightarrow> hub \<Rightarrow> go_panic + nat list \<times> hub" where
  "sendAll msg [] h = Inr ([], h)"
| "sendAll msg (p # ps) h =
     (case sendTo msg p h of
        Inl e \<Rightarrow> Inl e
      | Inr (ok, h') \<Rightarrow>
          (case sendAll msg ps h' of
             Inl e \<Rightarrow> Inl e
           | Inr (slow, h'') \<Rightarrow> Inr (if ok then slow else p # slow, h'')))"

fun unregisterAll :: "nat list \<Rightarrow> hub \<Rightarrow> go_panic + hub" where
  "unregisterAll [] h = Inr h"
| "unregisterAll (p # ps) h =
     (case unregisterClient p h of Inl e \<Rightarrow> Inl e | Inr h' \<Rightarrow> unregisterAll ps h')"

text \<open>\<open>BroadcastIntent\<close> without interruption, for the order \<open>ps\<close> in which the map is walked.\<close>

definition BroadcastIntent :: "addr_text \<Rightarrow> intent \<Rightarrow> nat list \<Rightarrow> hub \<Rightarrow> go_panic + hub" where
  "BroadcastIntent ac i ps h =
     (case sendAll (broadcastMsg ac i) ps h of
        Inl e \<Rightarrow> Inl e
      | Inr (slow, h') \<Rightarrow> unregisterAll slow h')"

text \<open>
  One turn of \<open>writePump\<close>, on a message or on a tick of the ping timer: \<open>io\<close> says whether setting the
  deadline and writing succeed. A closed channel and a failed write both end the loop; the result is
  None when there is nothing to receive.
\<close>

definition writeTurn :: "bool \<Rightarrow> client \<Rightarrow> client option" where
  "writeTurn io c =
     (case chan_recv (cSend c) of
        (Received m, ch) \<Rightarrow>
          Some (if io then c\<lparr>cSend := ch, cWritten := cWritten c @ [m]\<rparr>
                else c\<lparr>cSend := ch, cWriter := ClosingWrite\<rparr>)
      | (ChanClosed, _) \<Rightarrow> Some (c\<lparr>cWriter := ClosingWrite\<rparr>)
      | (WouldBlock, _) \<Rightarrow> None)"

definition pingTurn :: "bool \<Rightarrow> client \<Rightarrow> client" where
  "pingTurn io c = (if io then c else c\<lparr>cWriter := ClosingWrite\<rparr>)"

subsection \<open>Well-formed hubs\<close>

definition client_ok :: "client \<Rightarrow> bool" where
  "client_ok c \<longleftrightarrow> length (chBuf (cSend c)) \<le> sendBufSize \<and> chCap (cSend c) = sendBufSize \<and>
     (\<exists>lost. cQueued c = cWritten c @ lost @ chBuf (cSend c) \<and> (cWriter c = Writing \<longrightarrow> lost = []))"

text \<open>A client is registered exactly while its channel is open.\<close>

definition hub_ok :: "hub \<Rightarrow> bool" where
  "hub_ok h \<longleftrightarrow> hClients h \<subseteq> dom (hHeap h) \<and> chan_ok (hBidCh h) \<and>
     (\<forall>p c. hHeap h p = Some c \<longrightarrow> p < hNext h \<and> client_ok c \<and> (chClosed (cSend c) \<longleftrightarrow> p \<notin> hClients h))"

lemma hub_okD:
  assumes "hub_ok h"
  shows "p \<in> hClients h \<Longrightarrow> \<exists>c. hHeap h p = Some c \<and> \<not> chClosed (cSend c)" "chan_ok (hBidCh h)"
    "hHeap h p = Some c \<Longrightarrow> p < hNext h" "hHeap h p = Some c \<Longrightarrow> client_ok c"
    "hHeap h p = Some c \<Longrightarrow> chClosed (cSend c) \<longleftrightarrow> p \<notin> hClients h"
  using assms by (fastforce simp: hub_ok_def)+

text \<open>A client's object changed in place: the frame of every section that touches one client.\<close>

lemma hub_ok_update:
  assumes "hub_ok h" and "hHeap h p = Some c" and "client_ok c'" and "chClosed (cSend c') = chClosed (cSend c)"
  shows "hub_ok (h\<lparr>hHeap := (hHeap h)(p \<mapsto> c')\<rparr>)"
  using assms by (auto simp: hub_ok_def)

lemma NewHub_ok: "chan_ok bidCh \<Longrightarrow> hub_ok (NewHub bidCh)"
  by (simp add: hub_ok_def NewHub_def)

lemma ServeWS_ok: "hub_ok h \<Longrightarrow> hub_ok (ServeWS upgraded h)"
  by (fastforce simp: hub_ok_def ServeWS_def new_client_def client_ok_def)

lemma client_ok_close: "client_ok c \<Longrightarrow> client_ok (c\<lparr>cSend := (cSend c)\<lparr>chClosed := True\<rparr>\<rparr>)"
  by (simp add: client_ok_def)

lemma unregisterClient_run:
  assumes "hub_ok h"
  obtains h' where "unregisterClient p h = Inr h'" and "hub_ok h'" and "hClients h' = hClients h - {p}"
    and "hBidCh h' = hBidCh h" and "dom (hHeap h') = dom (hHeap h)" and "hNext h' = hNext h"
proof (cases "p \<in> hClients h")
  case True
  with hub_okD(1) [OF assms] obtain c where c: "hHeap h p = Some c" "\<not> chClosed (cSend c)" by blast
  let ?h' = "h\<lparr>hClients := hClients h - {p},
    hHeap := (hHeap h)(p \<mapsto> c\<lparr>cSend := (cSend c)\<lparr>chClosed := True\<rparr>\<rparr>)\<rparr>"
  have run: "unregisterClient p h = Inr ?h'" using True c by (simp add: unregisterClient_def close_chan_def)
  moreover have "hub_ok ?h'"
    using assms c client_ok_close [OF hub_okD(4) [OF assms c(1)]] by (auto simp: hub_ok_def)
  ultimately show thesis by (rule that) (use c in \<open>auto simp: dom_def\<close>)
next
  case False
  with assms show thesis by (intro that [of h]) (simp_all add: unregisterClient_def)
qed

lemma sendTo_run:
  assumes ok: "hub_ok h" and p: "p \<in> hClients h"
  obtains b h' where "sendTo msg p h = Inr (b, h')" and "hub_ok h'" and "hClients h' = hClients h"
    and "hBidCh h' = hBidCh h" and "dom (hHeap h') = dom (hHeap h)" and "hNext h' = hNext h"
proof -
  from hub_okD(1) [OF ok p] obtain c where c: "hHeap h p = Some c" "\<not> chClosed (cSend c)" by blast
  note cok = hub_okD(4) [OF ok c(1)]
  then have "chan_ok (cSend c)" using c(2) by (simp add: client_ok_def chan_ok_def)
  then obtain b ch where ch: "try_send msg (cSend c) = Inr (b, ch)" "chan_ok ch" "chCap ch = chCap (cSend c)"
      "chBuf ch = chBuf (cSend c) @ (if b then [msg] else [])"
    by (rule gochan.offer_total)
  let ?c = "c\<lparr>cSend := ch, cQueued := cQueued c @ (if b then [msg] else [])\<rparr>"
  have "client_ok ?c" using cok ch by (auto simp: client_ok_def chan_ok_def)
  moreover have "chClosed (cSend ?c) = chClosed (cSend c)" using ch(2) c(2) by (simp add: chan_ok_def)
  ultimately have "hub_ok (h\<lparr>hHeap := (hHeap h)(p \<mapsto> ?c)\<rparr>)" by (rule hub_ok_update [OF ok c(1)])
  then show thesis
    by (rule that [of b, rotated]) (use c ch in \<open>auto simp: sendTo_def dom_def\<close>)
qed

subsection \<open>Whole operations, in any order of the map\<close>

text \<open>
  What \<open>BroadcastIntent\<close> does to one registered client: the message is queued when there is room, and
  the channel is closed otherwise.
\<close>

definition has_room :: "client \<Rightarrow> bool" where
  "has_room c \<longleftrightarrow> length (chBuf (cSend c)) < chCap (cSend c)"

definition enqueue :: "string \<Rightarrow> client \<Rightarrow> client" where
  "enqueue msg c =
     (if has_room c
      then c\<lparr>cSend := (cSend c)\<lparr>chBuf := chBuf (cSend c) @ [msg]\<rparr>, cQueued := cQueued c @ [msg]\<rparr>
      else c)"

definition shut :: "client \<Rightarrow> client" where
  "shut c = c\<lparr>cSend := (cSend c)\<lparr>chClosed := True\<rparr>\<rparr>"

definition on_clients :: "nat set \<Rightarrow> (client \<Rightarrow> client) \<Rightarrow> (nat \<Rightarrow> client option) \<Rightarrow> nat \<Rightarrow> client option" where
  "on_clients ps f m = (\<lambda>p. if p \<in> ps then map_option f (m p) else m p)"

definition open_at :: "hub \<Rightarrow> nat \<Rightarrow> bool" where
  "open_at h p \<longleftrightarrow> (case hHeap h p of None \<Rightarrow> False | Some c \<Rightarrow> \<not> chClosed (cSend c))"

lemma on_clients_simps [simp]:
  "on_clients {} f m = m"
  "on_clients ps g (m(p \<mapsto> c)) = (if p \<in> ps then (on_clients ps g m)(p \<mapsto> g c) else (on_clients ps g m)(p \<mapsto> c))"
  by (auto simp: on_clients_def fun_eq_iff)

lemma on_clients_insert:
  "m p = Some c \<Longrightarrow> p \<notin> ps \<Longrightarrow> on_clients ps f (m(p \<mapsto> f c)) = on_clients (insert p ps) f m"
  by (auto simp: on_clients_def fun_eq_iff)

lemma sendTo_enqueue:
  assumes "hHeap h p = Some c" and "\<not> chClosed (cSend c)"
  shows "sendTo msg p h = Inr (has_room c, h\<lparr>hHeap := (hHeap h)(p \<mapsto> enqueue msg c)\<rparr>)"
  using assms by (simp add: sendTo_def try_send_def has_room_def enqueue_def)

lemma sendAll_enqueue:
  "distinct ps \<Longrightarrow> list_all (open_at h) ps \<Longrightarrow>
     sendAll msg ps h =
       Inr (filter (\<lambda>p. \<not> has_room (the (hHeap h p))) ps, h\<lparr>hHeap := on_clients (set ps) (enqueue msg) (hHeap h)\<rparr>)"
proof (induction ps arbitrary: h)
  case (Cons p ps)
  then obtain c where c: "hHeap h p = Some c" "\<not> chClosed (cSend c)"
    by (auto simp: open_at_def split: option.splits)
  let ?h = "h\<lparr>hHeap := (hHeap h)(p \<mapsto> enqueue msg c)\<rparr>"
  have rest: "list_all (open_at ?h) ps"
    using Cons.prems by (auto simp: open_at_def list_all_iff split: option.split)
  have same: "filter (\<lambda>q. \<not> has_room (the (hHeap ?h q))) ps = filter (\<lambda>q. \<not> has_room (the (hHeap h q))) ps"
    using Cons.prems by (intro filter_cong) auto
  show ?case
    using Cons.prems Cons.IH [OF _ rest] same on_clients_insert [of "hHeap h" p c "set ps" "enqueue msg"] c
    by (simp add: sendTo_enqueue fun_upd_def del: on_clients_simps(2))
qed simp

lemma unregisterClient_shut:
  assumes "p \<in> hClients h" and "hHeap h p = Some c" and "\<not> chClosed (cSend c)"
  shows "unregisterClient p h = Inr (h\<lparr>hClients := hClients h - {p}, hHeap := (hHeap h)(p \<mapsto> shut c)\<rparr>)"
  using assms by (simp add: unregisterClient_def close_chan_def shut_def)

lemma unregisterAll_shut:
  "distinct ps \<Longrightarrow> set ps \<subseteq> hClients h \<Longrightarrow> list_all (open_at h) ps \<Longrightarrow>
     unregisterAll ps h =
       Inr (h\<lparr>hClients := hClients h - set ps, hHeap := on_clients (set ps) shut (hHeap h)\<rparr>)"
proof (induction ps arbitrary: h)
  case (Cons p ps)
  then obtain c where c: "hHeap h p = Some c" "\<not> chClosed (cSend c)"
    by (auto simp: open_at_def split: option.splits)
  let ?h = "h\<lparr>hClients := hClients h - {p}, hHeap := (hHeap h)(p \<mapsto> shut c)\<rparr>"
  have "list_all (open_at ?h) ps"
    using Cons.prems by (auto simp: open_at_def list_all_iff split: option.split)
  moreover have "set ps \<subseteq> hClients ?h" using Cons.prems by auto
  moreover have "hClients h - {p} - set ps = hClients h - insert p (set ps)" by blast
  ultimately show ?case
    using Cons.prems Cons.IH [of ?h] on_clients_insert [of "hHeap h" p c "set ps" shut] c
    by (simp add: unregisterClient_shut fun_upd_def del: on_clients_simps(2))
qed simp

lemma closeAll_shut:
  "distinct ps \<Longrightarrow> list_all (open_at h) ps \<Longrightarrow>
     closeAll ps h = Inr (h\<lparr>hHeap := on_clients (set ps) shut (hHeap h), hClients := hClients h - set ps\<rparr>)"
proof (induction ps arbitrary: h)
  case (Cons p ps)
  then obtain c where c: "hHeap h p = Some c" "\<not> chClosed (cSend c)"
    by (auto simp: open_at_def split: option.splits)
  let ?h = "h\<lparr>hHeap := (hHeap h)(p \<mapsto> shut c), hClients := hClients h - {p}\<rparr>"
  have "list_all (open_at ?h) ps"
    using Cons.prems by (auto simp: open_at_def list_all_iff split: option.split)
  moreover have "hClients h - {p} - set ps = hClients h - insert p (set ps)" by blast
  ultimately show ?case
    using Cons.prems Cons.IH [of ?h] on_clients_insert [of "hHeap h" p c "set ps" shut] c
    by (simp add: close_chan_def shut_def [symmetric] fun_upd_def del: on_clients_simps(2))
qed simp

text \<open>The whole broadcast on a well-formed hub, whatever the order.\<close>

definition deliver :: "string \<Rightarrow> client \<Rightarrow> client" where
  "deliver msg c = (if has_room c then enqueue msg c else shut c)"

lemma hub_ok_open: "hub_ok h \<Longrightarrow> p \<in> hClients h \<Longrightarrow> open_at h p"
  using hub_okD(1) [of h p] by (auto simp: open_at_def)

lemma BroadcastIntent_run:
  assumes ok: "hub_ok h" and ps: "distinct ps" "set ps = hClients h"
  shows "BroadcastIntent ac i ps h =
    Inr (h\<lparr>hClients := {p \<in> hClients h. has_room (the (hHeap h p))},
           hHeap := on_clients (hClients h) (deliver (broadcastMsg ac i)) (hHeap h)\<rparr>)"
proof -
  let ?m = "broadcastMsg ac i"
  let ?slow = "filter (\<lambda>p. \<not> has_room (the (hHeap h p))) ps"
  let ?h = "h\<lparr>hHeap := on_clients (set ps) (enqueue ?m) (hHeap h)\<rparr>"
  have "list_all (open_at h) ps" using hub_ok_open [OF ok] ps by (simp add: list_all_iff)
  from sendAll_enqueue [OF ps(1) this] have send: "sendAll ?m ps h = Inr (?slow, ?h)" .
  have "open_at ?h p" if "p \<in> hClients h" for p
    using hub_ok_open [OF ok that] by (auto simp: open_at_def on_clients_def enqueue_def split: option.splits)
  then have "list_all (open_at ?h) ?slow" using ps by (auto simp: list_all_iff)
  moreover have "set ?slow \<subseteq> hClients ?h" using ps by auto
  ultimately have "unregisterAll ?slow ?h =
      Inr (?h\<lparr>hClients := hClients ?h - set ?slow, hHeap := on_clients (set ?slow) shut (hHeap ?h)\<rparr>)"
    using ps(1) by (intro unregisterAll_shut) simp_all
  moreover have "hClients ?h - set ?slow = {p \<in> hClients h. has_room (the (hHeap h p))}" using ps by auto
  moreover have "on_clients (set ?slow) shut (hHeap ?h) = on_clients (hClients h) (deliver ?m) (hHeap h)"
  proof
    fix q
    show "on_clients (set ?slow) shut (hHeap ?h) q = on_clients (hClients h) (deliver ?m) (hHeap h) q"
      using ps by (cases "hHeap h q") (auto simp: on_clients_def deliver_def enqueue_def)
  qed
  ultimately show ?thesis by (simp add: BroadcastIntent_def send)
qed

subsection \<open>Interleaving\<close>

text \<open>
  A call of \<open>BroadcastIntent\<close>: before it takes the read lock, sending under it, unregistering the slow
  clients, and returned. The system adds the context and \<open>Run\<close>.
\<close>

datatype bcast_pc =
    Marshalled string
  | Sending string "nat list" "nat list"
  | Dropping "nat list"
  | Returned

record hub_sys =
  hsHub :: hub
  hsBroadcasts :: "bcast_pc list"
  hsCancelled :: bool
  hsRunReturned :: bool
  hsPanic :: "go_panic option"

definition initHub :: "bid gochan \<Rightarrow> hub_sys" where
  "initHub bidCh =
     \<lparr>hsHub = NewHub bidCh, hsBroadcasts = [], hsCancelled = False, hsRunReturned = False, hsPanic = None\<rparr>"

fun holds_rlock :: "bcast_pc \<Rightarrow> bool" where
  "holds_rlock (Sending _ _ _) \<longleftrightarrow> True"
| "holds_rlock _ \<longleftrightarrow> False"

definition write_lock_free :: "hub_sys \<Rightarrow> bool" where
  "write_lock_free s \<longleftrightarrow> \<not> list_ex holds_rlock (hsBroadcasts s)"

text \<open>The result of a section that can panic, put back into the system.\<close>

definition after_hub :: "go_panic + hub \<Rightarrow> hub_sys \<Rightarrow> hub_sys" where
  "after_hub r s = (case r of Inl e \<Rightarrow> s\<lparr>hsPanic := Some e\<rparr> | Inr h \<Rightarrow> s\<lparr>hsHub := h\<rparr>)"

definition set_bcast :: "nat \<Rightarrow> bcast_pc \<Rightarrow> hub_sys \<Rightarrow> hub_sys" where
  "set_bcast b pc s = s\<lparr>hsBroadcasts := (hsBroadcasts s)[b := pc]\<rparr>"

definition set_client :: "nat \<Rightarrow> client \<Rightarrow> hub_sys \<Rightarrow> hub_sys" where
  "set_client p c s = s\<lparr>hsHub := (hsHub s)\<lparr>hHeap := (hHeap (hsHub s))(p \<mapsto> c)\<rparr>\<rparr>"

definition sendSection :: "nat \<Rightarrow> string \<Rightarrow> nat \<Rightarrow> nat list \<Rightarrow> nat list \<Rightarrow> hub_sys \<Rightarrow> hub_sys" where
  "sendSection b msg p ps slow s =
     (case sendTo msg p (hsHub s) of
        Inl e \<Rightarrow> s\<lparr>hsPanic := Some e\<rparr>
      | Inr (ok, h) \<Rightarrow> set_bcast b (Sending msg ps (if ok then slow else slow @ [p])) (s\<lparr>hsHub := h\<rparr>))"

definition readSection :: "addr_text \<Rightarrow> go_time \<Rightarrow> string \<Rightarrow> hub_sys \<Rightarrow> hub_sys" where
  "readSection ac now msg s =
     (case readMessage ac now msg (hBidCh (hsHub s)) of
        Inl e \<Rightarrow> s\<lparr>hsPanic := Some e\<rparr>
      | Inr ch \<Rightarrow> s\<lparr>hsHub := (hsHub s)\<lparr>hBidCh := ch\<rparr>\<rparr>)"

text \<open>
  \<open>ReadMessage\<close> returns a message only within the read limit that \<open>readPump\<close> sets; a longer one is one of
  its errors, like a closed connection or a deadline, and ends the loop.

  The label of a step is what the rest of the relayer takes part in: the handler broadcasts an intent,
  the dispatcher receives a bid, the context is cancelled.
\<close>

datatype hub_label = Local | Broadcasts intent | HandsOver bid | Cancels

inductive hub_step :: "addr_text \<Rightarrow> hub_label \<Rightarrow> hub_sys \<Rightarrow> hub_sys \<Rightarrow> bool" for ac where
  serve: "write_lock_free s \<Longrightarrow> hub_step ac Local s (s\<lparr>hsHub := ServeWS upgraded (hsHub s)\<rparr>)"
| broadcast: "hub_step ac (Broadcasts i) s (s\<lparr>hsBroadcasts := hsBroadcasts s @ [Marshalled (broadcastMsg ac i)]\<rparr>)"
| rlock: "b < length (hsBroadcasts s) \<Longrightarrow> hsBroadcasts s ! b = Marshalled msg \<Longrightarrow> distinct ps \<Longrightarrow>
     set ps = hClients (hsHub s) \<Longrightarrow> hub_step ac Local s (set_bcast b (Sending msg ps []) s)"
| send: "b < length (hsBroadcasts s) \<Longrightarrow> hsBroadcasts s ! b = Sending msg (p # ps) slow \<Longrightarrow>
     hub_step ac Local s (sendSection b msg p ps slow s)"
| runlock: "b < length (hsBroadcasts s) \<Longrightarrow> hsBroadcasts s ! b = Sending msg [] slow \<Longrightarrow>
     hub_step ac Local s (set_bcast b (Dropping slow) s)"
| drop: "b < length (hsBroadcasts s) \<Longrightarrow> hsBroadcasts s ! b = Dropping (p # ps) \<Longrightarrow> write_lock_free s \<Longrightarrow>
     hub_step ac Local s (after_hub (unregisterClient p (hsHub s)) (set_bcast b (Dropping ps) s))"
| returned: "b < length (hsBroadcasts s) \<Longrightarrow> hsBroadcasts s ! b = Dropping [] \<Longrightarrow>
     hub_step ac Local s (set_bcast b Returned s)"
| cancel: "hub_step ac Cancels s (s\<lparr>hsCancelled := True\<rparr>)"
| shutdown: "hsCancelled s \<Longrightarrow> \<not> hsRunReturned s \<Longrightarrow> write_lock_free s \<Longrightarrow> distinct ps \<Longrightarrow>
     set ps = hClients (hsHub s) \<Longrightarrow>
     hub_step ac Local s (after_hub (closeAll ps (hsHub s)) (s\<lparr>hsRunReturned := True\<rparr>))"
| read: "hHeap (hsHub s) p = Some c \<Longrightarrow> cReader c = Reading \<Longrightarrow> length msg \<le> maxMessageSize \<Longrightarrow>
     hub_step ac Local s (readSection ac now msg s)"
| read_error: "hHeap (hsHub s) p = Some c \<Longrightarrow> cReader c = Reading \<Longrightarrow>
     hub_step ac Local s (set_client p (c\<lparr>cReader := Unregistering\<rparr>) s)"
| unregister: "hHeap (hsHub s) p = Some c \<Longrightarrow> cReader c = Unregistering \<Longrightarrow> write_lock_free s \<Longrightarrow>
     s1 = set_client p (c\<lparr>cReader := ClosingRead\<rparr>) s \<Longrightarrow>
     hub_step ac Local s (after_hub (unregisterClient p (hsHub s1)) s1)"
| read_close: "hHeap (hsHub s) p = Some c \<Longrightarrow> cReader c = ClosingRead \<Longrightarrow>
     hub_step ac Local s (set_client p (c\<lparr>cReader := ReadDone, cConnClosed := True\<rparr>) s)"
| written: "hHeap (hsHub s) p = Some c \<Longrightarrow> cWriter c = Writing \<Longrightarrow> writeTurn io c = Some c' \<Longrightarrow>
     hub_step ac Local s (set_client p c' s)"
| ping: "hHeap (hsHub s) p = Some c \<Longrightarrow> cWriter c = Writing \<Longrightarrow> hub_step ac Local s (set_client p (pingTurn io c) s)"
| write_close: "hHeap (hsHub s) p = Some c \<Longrightarrow> cWriter c = ClosingWrite \<Longrightarrow>
     hub_step ac Local s (set_client p (c\<lparr>cWriter := WriteDone, cConnClosed := True\<rparr>) s)"
| consume: "chan_recv (hBidCh (hsHub s)) = (Received b, ch) \<Longrightarrow>
     hub_step ac (HandsOver b) s (s\<lparr>hsHub := (hsHub s)\<lparr>hBidCh := ch\<rparr>\<rparr>)"

inductive hub_reach :: "addr_text \<Rightarrow> nat \<Rightarrow> hub_sys \<Rightarrow> bool" for ac bidBuf where
  init: "hub_reach ac bidBuf (initHub (make_chan bidBuf))"
| step: "hub_reach ac bidBuf s \<Longrightarrow> hub_step ac l s s' \<Longrightarrow> hub_reach ac bidBuf s'"

text \<open>
  The invariant: nothing has panicked, the hub is well formed, what is being sent to is registered,
  and every bid in the channel was parsed from a message.
\<close>

fun bcast_ok :: "hub \<Rightarrow> bcast_pc \<Rightarrow> bool" where
  "bcast_ok h (Sending msg ps slow) \<longleftrightarrow> set ps \<subseteq> hClients h \<and> distinct ps"
| "bcast_ok h _ \<longleftrightarrow> True"

definition parsed_bid :: "addr_text \<Rightarrow> bid \<Rightarrow> bool" where
  "parsed_bid ac b \<longleftrightarrow> (\<exists>now msg. length msg \<le> maxMessageSize \<and> parseBid ac now msg = Inr b)"

definition bid_positive :: "bid \<Rightarrow> bool" where
  "bid_positive b \<longleftrightarrow> (\<exists>x y. bAmountOut b = Some x \<and> bGasPrice b = Some y \<and> 0 < x \<and> 0 < y)"

definition hub_sys_ok :: "addr_text \<Rightarrow> hub_sys \<Rightarrow> bool" where
  "hub_sys_ok ac s \<longleftrightarrow> hsPanic s = None \<and> hub_ok (hsHub s) \<and>
     list_all (bcast_ok (hsHub s)) (hsBroadcasts s) \<and> list_all (parsed_bid ac) (chBuf (hBidCh (hsHub s)))"

lemma parseBid_positive: "parseBid ac now msg = Inr b \<Longrightarrow> bid_positive b"
  by (auto simp: parseBid_def bid_positive_def split: option.splits if_splits)

lemma parsed_bid_positive: "parsed_bid ac b \<Longrightarrow> bid_positive b"
  by (auto simp: parsed_bid_def dest: parseBid_positive)

lemma readMessage_run:
  assumes "chan_ok ch" and "list_all (parsed_bid ac) (chBuf ch)" and "length msg \<le> maxMessageSize"
  obtains ch' where "readMessage ac now msg ch = Inr ch'" and "chan_ok ch'" and "list_all (parsed_bid ac) (chBuf ch')"
proof (cases "parseBid ac now msg")
  case (Inl e)
  with assms show thesis by (intro that [of ch]) (simp_all add: readMessage_def)
next
  case (Inr b)
  obtain r ch' where "try_send b ch = Inr (r, ch')" "chan_ok ch'" "chBuf ch' = chBuf ch @ (if r then [b] else [])"
    by (rule gochan.offer_total [OF assms(1), of b])
  moreover have "parsed_bid ac b" using Inr assms(3) by (auto simp: parsed_bid_def)
  ultimately show thesis using Inr assms(2)
    by (intro that [of ch']) (simp_all add: readMessage_def)
qed

text \<open>Sections that change one client in place, and sections under the write lock.\<close>

lemma set_client_ok:
  assumes "hub_sys_ok ac s" and "hHeap (hsHub s) p = Some c" and "client_ok c'"
    and "chClosed (cSend c') = chClosed (cSend c)"
  shows "hub_sys_ok ac (set_client p c' s)"
proof -
  have "bcast_ok ((hsHub s)\<lparr>hHeap := (hHeap (hsHub s))(p \<mapsto> c')\<rparr>) b = bcast_ok (hsHub s) b" for b
    by (cases b) simp_all
  then have "bcast_ok ((hsHub s)\<lparr>hHeap := (hHeap (hsHub s))(p \<mapsto> c')\<rparr>) = bcast_ok (hsHub s)" by blast
  with assms hub_ok_update [of "hsHub s" p c c'] show ?thesis by (simp add: hub_sys_ok_def set_client_def)
qed

lemma write_section_ok:
  assumes "hub_sys_ok ac s" and "write_lock_free s" and "hub_ok h" and "hBidCh h = hBidCh (hsHub s)"
  shows "hub_sys_ok ac (s\<lparr>hsHub := h\<rparr>)"
proof -
  have "bcast_ok h pc" if "pc \<in> set (hsBroadcasts s)" for pc
    using assms(2) that by (cases pc) (auto simp: write_lock_free_def list_ex_iff)
  with assms show ?thesis by (simp add: hub_sys_ok_def list_all_iff)
qed

lemma set_bcast_ok:
  assumes "hub_sys_ok ac s" and "bcast_ok (hsHub s) pc"
  shows "hub_sys_ok ac (set_bcast b pc s)"
  using assms
  by (cases "b < length (hsBroadcasts s)")
     (auto simp: hub_sys_ok_def set_bcast_def list_all_length nth_list_update)

lemma writeTurn_ok:
  assumes "client_ok c" and "cWriter c = Writing" and "writeTurn io c = Some c'"
  shows "client_ok c'" "chClosed (cSend c') = chClosed (cSend c)"
  using assms by (auto simp: client_ok_def writeTurn_def chan_recv_def split: list.splits if_splits)

lemma client_ok_pc [simp]:
  "client_ok (c\<lparr>cReader := pc\<rparr>) = client_ok c" "client_ok (c\<lparr>cConnClosed := x\<rparr>) = client_ok c"
  by (simp_all add: client_ok_def)

lemma client_ok_writer: "client_ok c \<Longrightarrow> pc \<noteq> Writing \<Longrightarrow> client_ok (c\<lparr>cWriter := pc\<rparr>)"
  by (auto simp: client_ok_def)

lemma sendSection_ok:
  assumes ok: "hub_sys_ok ac s" and b: "b < length (hsBroadcasts s)" "hsBroadcasts s ! b = Sending msg (p # ps) slow"
  shows "hub_sys_ok ac (sendSection b msg p ps slow s)"
proof -
  have hub: "hub_ok (hsHub s)" and all: "list_all (bcast_ok (hsHub s)) (hsBroadcasts s)"
    using ok by (simp_all add: hub_sys_ok_def)
  from all b have "bcast_ok (hsHub s) (Sending msg (p # ps) slow)" by (metis list_all_length)
  then have p: "p \<in> hClients (hsHub s)" "set ps \<subseteq> hClients (hsHub s)" "distinct ps" by simp_all
  obtain r h where h: "sendTo msg p (hsHub s) = Inr (r, h)" "hub_ok h" "hClients h = hClients (hsHub s)"
      "hBidCh h = hBidCh (hsHub s)"
    by (rule sendTo_run [OF hub p(1)])
  have "bcast_ok h pc \<longleftrightarrow> bcast_ok (hsHub s) pc" for pc by (cases pc) (simp_all add: h)
  then have "hub_sys_ok ac (s\<lparr>hsHub := h\<rparr>)" using ok h by (simp add: hub_sys_ok_def list_all_iff)
  from set_bcast_ok [OF this, of "Sending msg ps (if r then slow else slow @ [p])" b] p h show ?thesis
    by (simp add: sendSection_def)
qed

lemma unregister_section_ok:
  assumes "hub_sys_ok ac s" and "write_lock_free s"
  shows "hub_sys_ok ac (after_hub (unregisterClient p (hsHub s)) s)"
proof -
  have "hub_ok (hsHub s)" using assms(1) by (simp add: hub_sys_ok_def)
  then obtain h where "unregisterClient p (hsHub s) = Inr h" "hub_ok h" "hBidCh h = hBidCh (hsHub s)"
    by (rule unregisterClient_run)
  with write_section_ok [OF assms] show ?thesis by (simp add: after_hub_def)
qed

lemma closeAll_run:
  assumes "hub_ok h" and "distinct ps" and "set ps = hClients h"
  obtains h' where "closeAll ps h = Inr h'" and "hub_ok h'" and "hClients h' = {}" and "hBidCh h' = hBidCh h"
    and "hHeap h' = on_clients (hClients h) shut (hHeap h)"
proof -
  have "list_all (open_at h) ps" using hub_ok_open [OF assms(1)] assms(3) by (simp add: list_all_iff)
  from closeAll_shut [OF assms(2) this] assms(3)
  have "closeAll ps h = Inr (h\<lparr>hHeap := on_clients (hClients h) shut (hHeap h), hClients := {}\<rparr>)" by simp
  moreover have "hub_ok (h\<lparr>hHeap := on_clients (hClients h) shut (hHeap h), hClients := {}\<rparr>)"
    using assms(1) client_ok_close
    by (fastforce simp: hub_ok_def on_clients_def shut_def split: if_splits)
  ultimately show thesis by (rule that) simp_all
qed

lemma write_lock_free_simps [simp]:
  "write_lock_free (s\<lparr>hsHub := h\<rparr>) = write_lock_free s"
  "write_lock_free (s\<lparr>hsRunReturned := r\<rparr>) = write_lock_free s"
  by (simp_all add: write_lock_free_def)

lemma write_lock_free_drop:
  assumes "write_lock_free s"
  shows "write_lock_free (set_bcast b (Dropping ps) s)"
proof -
  have "pc = Dropping ps \<or> pc \<in> set (hsBroadcasts s)" if "pc \<in> set ((hsBroadcasts s)[b := Dropping ps])" for pc
    using that set_update_subset_insert by fastforce
  with assms show ?thesis by (fastforce simp: write_lock_free_def set_bcast_def list_ex_iff)
qed

lemma hub_sys_clientD: "hub_sys_ok ac s \<Longrightarrow> hHeap (hsHub s) p = Some c \<Longrightarrow> client_ok c"
  by (auto simp: hub_sys_ok_def dest: hub_okD(4))

lemma set_bidCh_ok:
  assumes "hub_sys_ok ac s" and "chan_ok ch" and "list_all (parsed_bid ac) (chBuf ch)"
  shows "hub_sys_ok ac (s\<lparr>hsHub := (hsHub s)\<lparr>hBidCh := ch\<rparr>\<rparr>)"
proof -
  have "bcast_ok ((hsHub s)\<lparr>hBidCh := ch\<rparr>) pc = bcast_ok (hsHub s) pc" for pc by (cases pc) simp_all
  then have "bcast_ok ((hsHub s)\<lparr>hBidCh := ch\<rparr>) = bcast_ok (hsHub s)" by blast
  with assms show ?thesis by (simp add: hub_sys_ok_def hub_ok_def)
qed

lemma consume_ok:
  assumes "chan_recv (hBidCh (hsHub s)) = (Received b, ch)" and "hub_sys_ok ac s"
  shows "hub_sys_ok ac (s\<lparr>hsHub := (hsHub s)\<lparr>hBidCh := ch\<rparr>\<rparr>)"
  using assms
  by (intro set_bidCh_ok) (auto simp: hub_sys_ok_def hub_ok_def chan_recv_def chan_ok_def split: list.splits if_splits)

lemma hub_step_ok:
  assumes "hub_step ac l s s'" and "hub_sys_ok ac s"
  shows "hub_sys_ok ac s'"
  using assms
proof (induction rule: hub_step.induct)
  case (serve s upgraded)
  then have "hub_ok (ServeWS upgraded (hsHub s))" by (simp add: hub_sys_ok_def ServeWS_ok)
  with serve show ?case by (intro write_section_ok) (simp_all add: ServeWS_def)
next
  case (rlock b s msg ps)
  then show ?case by (intro set_bcast_ok) simp_all
next
  case (send b s msg p ps slow)
  then show ?case by (intro sendSection_ok)
next
  case (drop b s p ps)
  then have "hub_sys_ok ac (set_bcast b (Dropping ps) s)" by (intro set_bcast_ok) simp_all
  from unregister_section_ok [OF this write_lock_free_drop [OF drop(3)]] show ?case by (simp add: set_bcast_def)
next
  case (shutdown s ps)
  then have "hub_ok (hsHub s)" by (simp add: hub_sys_ok_def)
  from closeAll_run [OF this shutdown(4,5)] obtain h
    where h: "closeAll ps (hsHub s) = Inr h" "hub_ok h" "hBidCh h = hBidCh (hsHub s)" by blast
  have "hub_sys_ok ac (s\<lparr>hsRunReturned := True\<rparr>)" using shutdown by (simp add: hub_sys_ok_def)
  from write_section_ok [OF this, of h] shutdown h show ?case by (simp add: after_hub_def)
next
  case (read s p c msg now)
  then have "chan_ok (hBidCh (hsHub s))" "list_all (parsed_bid ac) (chBuf (hBidCh (hsHub s)))"
    by (simp_all add: hub_sys_ok_def hub_ok_def)
  then obtain ch where ch: "readMessage ac now msg (hBidCh (hsHub s)) = Inr ch" "chan_ok ch"
      "list_all (parsed_bid ac) (chBuf ch)"
    by (rule readMessage_run [OF _ _ read(3)])
  with set_bidCh_ok [OF read(4) ch(2,3)] show ?case by (simp add: readSection_def)
next
  case (unregister s p c s1)
  then have "hub_sys_ok ac s1"
    unfolding unregister(4) by (intro set_client_ok) (auto dest: hub_sys_clientD)
  moreover have "write_lock_free s1" using unregister by (simp add: set_client_def)
  ultimately show ?case by (rule unregister_section_ok)
next
  case (written s p c io c')
  then have "client_ok c" by (auto simp: hub_sys_ok_def dest: hub_okD(4))
  with written writeTurn_ok [OF this] show ?case by (intro set_client_ok) auto
next
  case (broadcast s i)
  then show ?case by (simp add: hub_sys_ok_def)
next
  case (cancel s)
  then show ?case by (simp add: hub_sys_ok_def)
next
  case (consume s b ch)
  then show ?case by (intro consume_ok)
qed (auto intro!: set_client_ok set_bcast_ok client_ok_writer simp: pingTurn_def dest: hub_sys_clientD)

lemma hub_reach_ok: "hub_reach ac bidBuf s \<Longrightarrow> hub_sys_ok ac s"
proof (induction rule: hub_reach.induct)
  case init
  show ?case by (simp add: hub_sys_ok_def initHub_def NewHub_ok) (simp add: NewHub_def)
next
  case (step s l s')
  then show ?case by (blast intro: hub_step_ok)
qed

subsection \<open>What the solvers are sent\<close>

text \<open>Every message queued for a client is the broadcast of an intent.\<close>

definition queued_in :: "string set \<Rightarrow> hub \<Rightarrow> bool" where
  "queued_in M h \<longleftrightarrow> (\<forall>p c. hHeap h p = Some c \<longrightarrow> set (cQueued c) \<subseteq> M)"

fun bcast_in :: "string set \<Rightarrow> bcast_pc \<Rightarrow> bool" where
  "bcast_in M (Marshalled m) \<longleftrightarrow> m \<in> M"
| "bcast_in M (Sending m _ _) \<longleftrightarrow> m \<in> M"
| "bcast_in M _ \<longleftrightarrow> True"

definition sent_in :: "string set \<Rightarrow> hub_sys \<Rightarrow> bool" where
  "sent_in M s \<longleftrightarrow> queued_in M (hsHub s) \<and> list_all (bcast_in M) (hsBroadcasts s)"

lemma queued_in_upd: "queued_in M h \<Longrightarrow> set (cQueued c) \<subseteq> M \<Longrightarrow> queued_in M (h\<lparr>hHeap := (hHeap h)(p \<mapsto> c)\<rparr>)"
  by (simp add: queued_in_def)

lemma queued_in_simps [simp]:
  "queued_in M (h\<lparr>hClients := x\<rparr>) = queued_in M h" "queued_in M (h\<lparr>hBidCh := y\<rparr>) = queued_in M h"
  by (simp_all add: queued_in_def)

lemma queued_in_unregisterClient: "queued_in M h \<Longrightarrow> unregisterClient p h = Inr h' \<Longrightarrow> queued_in M h'"
  by (fastforce simp: unregisterClient_def queued_in_def split: if_splits option.splits sum.splits)

lemma queued_in_closeAll: "queued_in M h \<Longrightarrow> closeAll ps h = Inr h' \<Longrightarrow> queued_in M h'"
proof (induction ps arbitrary: h)
  case (Cons p ps)
  from Cons.prems obtain c ch where c: "hHeap h p = Some c"
    and run: "closeAll ps (h\<lparr>hHeap := (hHeap h)(p \<mapsto> c\<lparr>cSend := ch\<rparr>), hClients := hClients h - {p}\<rparr>) = Inr h'"
    by (auto split: option.splits sum.splits)
  have "set (cQueued c) \<subseteq> M" using Cons.prems(1) c by (auto simp: queued_in_def)
  then have "queued_in M (h\<lparr>hHeap := (hHeap h)(p \<mapsto> c\<lparr>cSend := ch\<rparr>)\<rparr>)"
    using Cons.prems(1) by (intro queued_in_upd) simp_all
  then have "queued_in M (h\<lparr>hHeap := (hHeap h)(p \<mapsto> c\<lparr>cSend := ch\<rparr>), hClients := hClients h - {p}\<rparr>)" by simp
  from Cons.IH [OF this run] show ?case .
qed simp

lemma queued_in_sendTo: "queued_in M h \<Longrightarrow> msg \<in> M \<Longrightarrow> sendTo msg p h = Inr (ok, h') \<Longrightarrow> queued_in M h'"
  by (fastforce simp: sendTo_def queued_in_def split: if_splits option.splits sum.splits)

lemma sent_in_set_client:
  "sent_in M s \<Longrightarrow> hHeap (hsHub s) p = Some c \<Longrightarrow> cQueued c' = cQueued c \<Longrightarrow> sent_in M (set_client p c' s)"
  by (auto simp: sent_in_def set_client_def queued_in_def)

lemma sent_in_set_bcast: "sent_in M s \<Longrightarrow> bcast_in M pc \<Longrightarrow> sent_in M (set_bcast b pc s)"
  by (cases "b < length (hsBroadcasts s)")
     (auto simp: sent_in_def set_bcast_def list_all_length nth_list_update)

lemma sent_in_nth: "sent_in M s \<Longrightarrow> b < length (hsBroadcasts s) \<Longrightarrow> hsBroadcasts s ! b = pc \<Longrightarrow> bcast_in M pc"
  by (auto simp: sent_in_def list_all_length)

lemma sent_in_after:
  "sent_in M s \<Longrightarrow> (\<And>h. r = Inr h \<Longrightarrow> queued_in M h) \<Longrightarrow> sent_in M (after_hub r s)"
  by (cases r) (simp_all add: sent_in_def after_hub_def)

lemma sent_in_queued [dest]: "sent_in M s \<Longrightarrow> queued_in M (hsHub s)"
  by (simp add: sent_in_def)

lemma sent_in_simps [simp]:
  "sent_in M (s\<lparr>hsHub := (hsHub s)\<lparr>hBidCh := ch\<rparr>\<rparr>) = sent_in M s"
  "sent_in M (s\<lparr>hsCancelled := x\<rparr>) = sent_in M s" "sent_in M (s\<lparr>hsRunReturned := x\<rparr>) = sent_in M s"
  "sent_in M (s\<lparr>hsPanic := y\<rparr>) = sent_in M s"
  by (simp_all add: sent_in_def)

lemma hub_step_sent:
  assumes "hub_step ac l s s'" and "sent_in (range (broadcastMsg ac)) s"
  shows "sent_in (range (broadcastMsg ac)) s'"
  using assms
proof (induction rule: hub_step.induct)
  case (serve s upgraded)
  then show ?case by (simp add: sent_in_def queued_in_def ServeWS_def new_client_def)
next
  case (broadcast s i)
  then show ?case by (simp add: sent_in_def)
next
  case (rlock b s msg ps)
  from sent_in_nth [OF rlock(5,1,2)] rlock(5) show ?case by (intro sent_in_set_bcast) simp_all
next
  case (send b s msg p ps slow)
  from sent_in_nth [OF send(3,1,2)] have m: "msg \<in> range (broadcastMsg ac)" by simp
  show ?case
  proof (cases "sendTo msg p (hsHub s)")
    case (Inr r)
    then obtain ok h where r: "sendTo msg p (hsHub s) = Inr (ok, h)" by (cases r) simp
    from queued_in_sendTo [OF sent_in_queued [OF send(3)] m r] send(3)
    have "sent_in (range (broadcastMsg ac)) (s\<lparr>hsHub := h\<rparr>)" by (simp add: sent_in_def)
    with m show ?thesis unfolding sendSection_def r by (simp add: sent_in_set_bcast)
  qed (simp add: sendSection_def send)
next
  case (drop b s p ps)
  then have "sent_in (range (broadcastMsg ac)) (set_bcast b (Dropping ps) s)" by (intro sent_in_set_bcast) simp_all
  then show ?case using drop(4) by (intro sent_in_after queued_in_unregisterClient [OF sent_in_queued])
next
  case (shutdown s ps)
  then show ?case by (intro sent_in_after) (simp_all add: queued_in_closeAll [OF sent_in_queued])
next
  case (read s p c msg now)
  then show ?case by (simp add: readSection_def split: sum.split)
next
  case (unregister s p c s1)
  then have "sent_in (range (broadcastMsg ac)) s1" unfolding unregister(4) by (intro sent_in_set_client) simp_all
  then show ?case by (intro sent_in_after) (auto dest: queued_in_unregisterClient [OF sent_in_queued])
next
  case (written s p c io c')
  then have "cQueued c' = cQueued c" by (auto simp: writeTurn_def chan_recv_def split: list.splits if_splits)
  with written show ?case by (intro sent_in_set_client)
qed (auto intro!: sent_in_set_client sent_in_set_bcast simp: pingTurn_def)

lemma hub_reach_sent: "hub_reach ac bidBuf s \<Longrightarrow> sent_in (range (broadcastMsg ac)) s"
proof (induction rule: hub_reach.induct)
  case init
  show ?case by (simp add: sent_in_def queued_in_def initHub_def NewHub_def)
next
  case (step s l s')
  then show ?case by (blast intro: hub_step_sent)
qed

subsection \<open>The end of a client\<close>

text \<open>
  The loop of \<open>writePump\<close>: each turn takes the channel or the ticker and says whether its calls on the
  connection succeed. The loop ends at the first one that does not, or when it finds the channel closed.
\<close>

datatype writer_turn = SendTurn bool | PingTurn bool

fun turn_ok :: "writer_turn \<Rightarrow> bool" where
  "turn_ok (SendTurn io) = io"
| "turn_ok (PingTurn io) = io"

fun is_send :: "writer_turn \<Rightarrow> bool" where
  "is_send (SendTurn _) = True"
| "is_send (PingTurn _) = False"

abbreviation sends :: "writer_turn list \<Rightarrow> nat" where
  "sends ts \<equiv> length (filter is_send ts)"

fun writePump :: "writer_turn list \<Rightarrow> client \<Rightarrow> client option" where
  "writePump [] c = Some c"
| "writePump (t # ts) c =
     (if cWriter c \<noteq> Writing then Some c
      else case (case t of SendTurn io \<Rightarrow> writeTurn io c | PingTurn io \<Rightarrow> Some (pingTurn io c)) of
        None \<Rightarrow> None
      | Some c' \<Rightarrow> writePump ts c')"

lemma writePump_ended [simp]: "cWriter c = ClosingWrite \<Longrightarrow> writePump ts c = Some c"
  by (cases ts) simp_all

text \<open>On a closed channel the loop never blocks: it writes what is queued up to the first failure.\<close>

lemma writePump_drain:
  "chClosed (cSend c) \<Longrightarrow> cWriter c = Writing \<Longrightarrow>
     \<exists>c'. writePump ts c = Some c' \<and>
       (cWriter c' = ClosingWrite \<longleftrightarrow> length (chBuf (cSend c)) < sends ts \<or> \<not> list_all turn_ok ts) \<and>
       cWritten c' = cWritten c @ take (sends (takeWhile turn_ok ts)) (chBuf (cSend c))"
proof (induction ts arbitrary: c)
  case (Cons t ts)
  show ?case
  proof (cases t)
    case (PingTurn io)
    with Cons show ?thesis by (cases io) (simp_all add: pingTurn_def)
  next
    case (SendTurn io)
    show ?thesis
    proof (cases "chBuf (cSend c)")
      case Nil
      with SendTurn Cons.prems show ?thesis by (simp add: writeTurn_def chan_recv_def)
    next
      case (Cons m buf)
      let ?c = "c\<lparr>cSend := (cSend c)\<lparr>chBuf := buf\<rparr>, cWritten := cWritten c @ [m]\<rparr>"
      show ?thesis
      proof (cases io)
        case True
        then have "writeTurn io c = Some ?c" using Cons by (simp add: writeTurn_def chan_recv_def)
        with True SendTurn Cons Cons.prems Cons.IH [of ?c] show ?thesis by simp
      next
        case False
        with SendTurn Cons Cons.prems show ?thesis by (simp add: writeTurn_def chan_recv_def)
      qed
    qed
  qed
qed simp

subsection \<open>Messages read back\<close>

text \<open>The JSON text of a solver's bid, with the fields in the order of the struct.\<close>

definition bid_json :: "bidRequest \<Rightarrow> json" where
  "bid_json r =
     JObject [(''intent_id'', JString (brIntentID r)), (''solver'', JString (brSolver r)),
       (''amount_out'', JString (brAmountOut r)), (''gas_price'', JString (brGasPrice r))]"

lemma is_ascii_big_String: "is_ascii (big_String x)"
proof -
  have "of_char c < (128::nat)" if "is_digit c" for c
    using that by (auto simp: is_digit_def digit_val_def split: if_splits)
  then have "is_ascii (nat_string n)" for n
    using nat_string_digits [of n] by (auto simp: is_ascii_def list_all_iff)
  then show ?thesis by (auto simp: big_String_def is_ascii_def)
qed

lemmas valid_utf8_big_String [simp] = valid_utf8_ascii [OF is_ascii_big_String]

lemma decodeBid_print:
  assumes "valid_utf8 (brIntentID r)" "valid_utf8 (brSolver r)" "valid_utf8 (brAmountOut r)" "valid_utf8 (brGasPrice r)"
  shows "decodeBid (print_json (bid_json r)) = Some r"
proof -
  have "json_ok (bid_json r)"
    using assms by (simp add: bid_json_def valid_utf8_ascii is_ascii_def)
  from decode_message_print [OF this] show ?thesis
    by (simp add: decodeBid_def decode_struct_def bid_json_def bidFields_def field_of_def setBidField_def)
qed

text \<open>
  What the read limit means for a bid: one with a reasonable id and amounts fits in a message, and the
  id of one that was read has at most three times the limit.
\<close>

lemma length_bid_json:
  "length (print_json (bid_json req)) \<le>
     6 * (length (brIntentID req) + length (brSolver req) + length (brAmountOut req) + length (brGasPrice req)) + 230"
  using length_json_string [of "brIntentID req"] length_json_string [of "brSolver req"] length_json_string [of "brAmountOut req"]
    length_json_string [of "brGasPrice req"] length_json_string [of "''intent_id''"] length_json_string [of "''solver''"]
    length_json_string [of "''amount_out''"] length_json_string [of "''gas_price''"]
  by (simp add: bid_json_def)

lemma bid_message_fits:
  assumes "addr_text_ok ac" and "length iid \<le> 512" and "length amount + length gas \<le> 64"
  shows "length (print_json (bid_json \<lparr>brIntentID = iid, brSolver = AddressHex ac a, brAmountOut = amount, brGasPrice = gas\<rparr>))
    \<le> maxMessageSize"
  using length_bid_json [of "\<lparr>brIntentID = iid, brSolver = AddressHex ac a, brAmountOut = amount, brGasPrice = gas\<rparr>"] assms
  by (simp add: addr_text_ok_def maxMessageSize_def)

lemma decodeBid_short:
  assumes "decodeBid msg = Some req"
  shows "length (brIntentID req) \<le> 3 * length msg"
proof -
  from assms obtain v t where v: "decode_value msg = Some (v, t)"
      "decode_struct setBidField bidFields False v
        \<lparr>brIntentID = [], brSolver = [], brAmountOut = [], brGasPrice = []\<rparr> = Some req"
    by (auto simp: decodeBid_def decode_message_def split: option.splits if_splits)
  have "length s \<le> n" if "store_string w old = Some s" "strings_all (\<lambda>x. length x \<le> n) w" "length old \<le> n" for w old s n
    using that by (cases w) auto
  then have "length (brIntentID r') \<le> n"
    if "setBidField f w r = Some r'" "strings_all (\<lambda>x. length x \<le> n) w" "length (brIntentID r) \<le> n" for f w r r' n
    using that by (auto simp: setBidField_def split: if_splits)
  from this v(2) decode_value_short [OF v(1)] show ?thesis by (rule decode_struct_keeps) simp_all
qed

lemma parseBid_short: "parseBid ac now msg = Inr b \<Longrightarrow> length (bIntentID b) \<le> 3 * length msg"
  by (auto simp: parseBid_def dest: decodeBid_short split: option.splits if_splits)

lemma parsed_bid_short: "parsed_bid ac b \<Longrightarrow> length (bIntentID b) \<le> 3 * maxMessageSize"
  unfolding parsed_bid_def by (auto dest: parseBid_short)

text \<open>What a solver can read of a broadcast, with the decoder the relayer uses for its own messages.\<close>

fun json_field :: "string \<Rightarrow> json \<Rightarrow> json option" where
  "json_field k (JObject ms) = map_of ms k"
| "json_field k _ = None"

fun json_text :: "json option \<Rightarrow> string option" where
  "json_text (Some (JString s)) = Some s"
| "json_text _ = None"

lemma broadcast_ok:
  assumes "addr_text_ok ac" and "valid_utf8 (iID i)" and "iAmountIn i = Some x" and "iMinAmountOut i = Some y"
  shows "decode_message (broadcastMsg ac i) =
    Some (broadcast_json \<lparr>ibType = ''new_intent'', ibIntent = intent_payload ac i\<rparr>)"
proof -
  have "valid_utf8 (AddressHex ac a)" for a using assms(1) by (simp add: addr_text_ok_def valid_utf8_ascii)
  with assms(2-4) show ?thesis unfolding broadcastMsg_def
    by (intro decode_message_print) (auto simp: broadcast_json_def payload_json_def intent_payload_def valid_utf8_ascii is_ascii_def)
qed

text \<open>A concrete textual form of addresses, for the theorems that evaluate on an input.\<close>

definition be_nat :: "bytes \<Rightarrow> nat" where
  "be_nat bs = foldl (\<lambda>a b. 256 * a + unat b) 0 bs"

lemma be_bytes_snoc: "be_bytes (Suc n) w = be_bytes n (drop_bit 8 w) @ [ucast w]"
proof -
  have "rev [0..<Suc n] = map Suc (rev [0..<n]) @ [0]"
    by (simp only: rev_map [symmetric] map_Suc_upt) (simp add: upt_conv_Cons del: upt_Suc)
  then show ?thesis by (simp add: be_bytes_def drop_bit_drop_bit comp_def add.commute del: upt_Suc)
qed

lemma be_nat_be_bytes: "be_nat (be_bytes n w) = unat w mod 256 ^ n"
proof (induction n arbitrary: w)
  case (Suc n)
  have "unat (ucast w :: byte) = unat w mod 256" by (simp add: unsigned_ucast_eq take_bit_eq_mod)
  moreover have "unat (drop_bit 8 w) = unat w div 256"
    by (simp only: unat_drop_bit_eq) (simp add: drop_bit_eq_div)
  ultimately show ?case
    using Suc by (simp add: be_bytes_snoc be_nat_def mod_mult2_eq)
qed (simp add: be_nat_def be_bytes_def)

definition sample_addr_text :: addr_text where
  "sample_addr_text =
     \<lparr>HexToAddress = (\<lambda>s. of_nat (be_nat (fst (hex_DecodeString (TrimPrefix s ''0x''))))),
      AddressHex = (\<lambda>a. ''0x'' @ hex_EncodeToString (address_bytes a))\<rparr>"

lemma is_ascii_hex: "is_ascii (hex_EncodeToString bs)"
proof -
  have "of_char (hex_char n) < (128::nat)" if "unat n < 16" for n :: byte
    using that by (simp add: hex_char_def Let_def)
  then show ?thesis
    by (induction bs) (simp_all add: hex_EncodeToString_def is_ascii_def nibble_bounds)
qed

lemma length_hex: "length (hex_EncodeToString bs) = 2 * length bs"
  by (induction bs) (simp_all add: hex_EncodeToString_def)

lemma sample_addr_text_ok: "addr_text_ok sample_addr_text"
proof -
  have "of_nat (unat a mod 256 ^ 20) = a" for a :: address
    using unsigned_less [of a, where ?'a = nat] by simp
  moreover have "is_ascii (''0x'' @ hex_EncodeToString (address_bytes a))" for a
    using is_ascii_hex by (simp add: is_ascii_def)
  ultimately show ?thesis
    by (simp add: addr_text_ok_def sample_addr_text_def TrimPrefix_def HasPrefix_def hex_Decode_Encode be_nat_be_bytes length_hex)
qed

subsection \<open>Properties\<close>

text \<open>A run of the hub: a solver joins, an intent is broadcast to it, and the solver bids.\<close>

definition sample_bid_msg :: string where
  "sample_bid_msg = print_json (bid_json
     \<lparr>brIntentID = ''i'', brSolver = AddressHex sample_addr_text 7, brAmountOut = ''900'', brGasPrice = ''3''\<rparr>)"

definition sample_hub :: hub_sys where
  "sample_hub =
     (let m = broadcastMsg sample_addr_text (sample_intent ''i'' 1) in
      \<lparr>hsHub =
         \<lparr>hHeap = [0 \<mapsto> \<lparr>cSend = \<lparr>chBuf = [m], chCap = sendBufSize, chClosed = False\<rparr>, cConnClosed = False,
                          cReader = Reading, cWriter = Writing, cQueued = [m], cWritten = []\<rparr>],
          hNext = 1, hClients = {0},
          hBidCh = \<lparr>chBuf = [sample_bid ''i'' 7 900 3], chCap = 10000, chClosed = False\<rparr>\<rparr>,
       hsBroadcasts = [Dropping []], hsCancelled = False, hsRunReturned = False, hsPanic = None\<rparr>)"

lemma parse_sample_bid:
  "parseBid sample_addr_text (time_Unix 1700000001) sample_bid_msg = Inr (sample_bid ''i'' 7 900 3)"
proof -
  have a: "HexToAddress sample_addr_text (AddressHex sample_addr_text 7) = 7" "valid_utf8 (AddressHex sample_addr_text 7)"
    using sample_addr_text_ok by (simp_all add: addr_text_ok_def valid_utf8_ascii)
  have n: "big_SetString ''900'' = Some 900" "big_SetString ''3'' = Some 3" by code_simp+
  have "decodeBid sample_bid_msg =
      Some \<lparr>brIntentID = ''i'', brSolver = AddressHex sample_addr_text 7, brAmountOut = ''900'', brGasPrice = ''3''\<rparr>"
    unfolding sample_bid_msg_def
    by (rule decodeBid_print) (simp_all add: a valid_utf8_ascii is_ascii_def)
  with a n show ?thesis by (simp add: parseBid_def sample_bid_def)
qed

lemma sample_bid_fits: "length sample_bid_msg \<le> maxMessageSize"
  unfolding sample_bid_msg_def by (rule bid_message_fits [OF sample_addr_text_ok]) simp_all

lemma sample_hub_reach: "hub_reach sample_addr_text 10000 sample_hub"
proof -
  let ?m = "broadcastMsg sample_addr_text (sample_intent ''i'' 1)"
  let ?hub = "\<lambda>h bs. \<lparr>hsHub = h, hsBroadcasts = bs, hsCancelled = False, hsRunReturned = False, hsPanic = None\<rparr>"
  let ?h1 = "ServeWS True (NewHub (make_chan 10000))"
  let ?h2 = "?h1\<lparr>hHeap := [0 \<mapsto> enqueue ?m new_client]\<rparr>"
  have "hub_reach sample_addr_text 10000 (initHub (make_chan 10000))" by (rule hub_reach.init)
  then have "hub_reach sample_addr_text 10000 (?hub ?h1 [])"
    by (rule hub_reach.step [where l = Local]) (use hub_step.serve [of "initHub (make_chan 10000)" sample_addr_text True] in \<open>simp add: initHub_def write_lock_free_def\<close>)
  then have "hub_reach sample_addr_text 10000 (?hub ?h1 [Marshalled ?m])"
    by (rule hub_reach.step [where l = "Broadcasts (sample_intent ''i'' 1)"]) (use hub_step.broadcast [of _ _ "?hub ?h1 []"] in simp)
  then have "hub_reach sample_addr_text 10000 (?hub ?h1 [Sending ?m [0] []])"
    by (rule hub_reach.step [where l = Local])
       (use hub_step.rlock [of 0 "?hub ?h1 [Marshalled ?m]" ?m "[0]"] in \<open>simp add: set_bcast_def ServeWS_def NewHub_def\<close>)
  moreover have "sendTo ?m 0 ?h1 = Inr (True, ?h2)"
    by (simp add: sendTo_def ServeWS_def NewHub_def new_client_def make_chan_def try_send_def sendBufSize_def enqueue_def has_room_def)
  ultimately have "hub_reach sample_addr_text 10000 (?hub ?h2 [Sending ?m [] []])"
    by (elim hub_reach.step [where l = Local])
       (use hub_step.send [of 0 "?hub ?h1 [Sending ?m [0] []]" ?m 0 "[]" "[]"] in \<open>simp add: sendSection_def set_bcast_def\<close>)
  then have r: "hub_reach sample_addr_text 10000 (?hub ?h2 [Dropping []])"
    by (rule hub_reach.step [where l = Local])
       (use hub_step.runlock [of 0 "?hub ?h2 [Sending ?m [] []]"] in \<open>simp add: set_bcast_def\<close>)
  have "readSection sample_addr_text (time_Unix 1700000001) sample_bid_msg (?hub ?h2 [Dropping []]) = sample_hub"
    by (simp add: readSection_def readMessage_def parse_sample_bid sample_hub_def try_send_def make_chan_def
        ServeWS_def NewHub_def new_client_def enqueue_def has_room_def sendBufSize_def Let_def)
  with hub_step.read [of "?hub ?h2 [Dropping []]" 0 "enqueue ?m new_client" sample_bid_msg sample_addr_text "time_Unix 1700000001"]
    sample_bid_fits
  have "hub_step sample_addr_text Local (?hub ?h2 [Dropping []]) sample_hub"
    by (simp add: enqueue_def new_client_def)
  with r show ?thesis by (rule hub_reach.step)
qed

text \<open>
  C30. In every interleaving of the hub's goroutines nothing panics: no message is sent on a closed
  channel and no channel is closed twice. A client is registered exactly while its channel is open,
  its queue holds at most \<open>sendBufSize\<close> messages, and every bid handed to the auction side has a
  positive amount and a positive gas price.
\<close>

theorem hub_concurrent_safety:
  assumes "hub_reach ac bidBuf s"
  shows "hsPanic s = None \<and>
    (\<forall>p c. hHeap (hsHub s) p = Some c \<longrightarrow>
       (p \<in> hClients (hsHub s) \<longleftrightarrow> \<not> chClosed (cSend c)) \<and> length (chBuf (cSend c)) \<le> sendBufSize) \<and>
    (\<forall>b \<in> set (chBuf (hBidCh (hsHub s))). bid_positive b)"
proof -
  have ok: "hub_sys_ok ac s" using assms by (rule hub_reach_ok)
  then have "hub_ok (hsHub s)" by (simp add: hub_sys_ok_def)
  note D = hub_okD(4,5) [OF this]
  show ?thesis using ok D parsed_bid_positive by (auto simp: hub_sys_ok_def list_all_iff client_ok_def)
qed

theorem hub_concurrent_safety_witness:
  "hsPanic sample_hub = None \<and> hClients (hsHub sample_hub) = {0} \<and> bid_positive (sample_bid ''i'' 7 900 3)"
  using hub_concurrent_safety [OF sample_hub_reach] by (simp add: sample_hub_def Let_def)

text \<open>
  C31. What a solver receives: the messages queued for it are broadcasts of intents, and the frames
  written to its connection are the first of them in the same order. As long as its writer runs,
  nothing is lost: what is queued is what was written followed by what waits.
\<close>

theorem solver_frames_in_order:
  assumes "hub_reach ac bidBuf s" and "hHeap (hsHub s) p = Some c"
  shows "(\<exists>is. cQueued c = map (broadcastMsg ac) is) \<and> prefix (cWritten c) (cQueued c) \<and>
    (cWriter c = Writing \<longrightarrow> cQueued c = cWritten c @ chBuf (cSend c))"
proof -
  have "client_ok c" using assms hub_sys_clientD [OF hub_reach_ok] by blast
  then have "prefix (cWritten c) (cQueued c) \<and> (cWriter c = Writing \<longrightarrow> cQueued c = cWritten c @ chBuf (cSend c))"
    by (auto simp: client_ok_def)
  moreover have "set (cQueued c) \<subseteq> range (broadcastMsg ac)"
    using hub_reach_sent [OF assms(1)] assms(2) by (simp add: sent_in_def queued_in_def)
  then have "\<exists>is. cQueued c = map (broadcastMsg ac) is" unfolding ex_map_conv by blast
  ultimately show ?thesis by blast
qed

theorem solver_frames_in_order_witness:
  "\<exists>c. hHeap (hsHub sample_hub) 0 = Some c \<and> cQueued c = cWritten c @ chBuf (cSend c) \<and> cQueued c \<noteq> []"
  using solver_frames_in_order [OF sample_hub_reach, of 0 "the (hHeap (hsHub sample_hub) 0)"]
  by (simp add: sample_hub_def Let_def)

text \<open>
  One broadcast, whatever the order in which the map of clients is walked: a registered client
  with room in its queue gets exactly this message appended and stays, one without room keeps its
  queue, is closed and leaves the map, and nothing else changes.
\<close>

lemma BroadcastIntent_every_client:
  assumes "hub_ok h"
  shows "\<exists>h'. (\<forall>ps. distinct ps \<longrightarrow> set ps = hClients h \<longrightarrow> BroadcastIntent ac i ps h = Inr h') \<and>
    hClients h' = {p \<in> hClients h. has_room (the (hHeap h p))} \<and> hBidCh h' = hBidCh h \<and>
    (\<forall>p c. hHeap h p = Some c \<longrightarrow>
       hHeap h' p = Some
         (if p \<notin> hClients h then c
          else if length (chBuf (cSend c)) < chCap (cSend c)
          then c\<lparr>cSend := (cSend c)\<lparr>chBuf := chBuf (cSend c) @ [broadcastMsg ac i]\<rparr>,
                 cQueued := cQueued c @ [broadcastMsg ac i]\<rparr>
          else c\<lparr>cSend := (cSend c)\<lparr>chClosed := True\<rparr>\<rparr>))"
  by (rule exI [of _ "h\<lparr>hClients := {p \<in> hClients h. has_room (the (hHeap h p))},
           hHeap := on_clients (hClients h) (deliver (broadcastMsg ac i)) (hHeap h)\<rparr>"])
     (use BroadcastIntent_run [OF assms] in \<open>simp add: on_clients_def deliver_def enqueue_def has_room_def shut_def\<close>)

text \<open>
  C32. Shutdown: closing every client leaves none registered, and however the turns of a client's writer
  and the failures of its connection fall, the writer never blocks again. It writes the messages still
  queued, in order and from the first on, one per turn on the channel, until a call on the connection fails;
  and it has ended exactly when one did or when it has had more such turns than there were messages.
\<close>

theorem shutdown_drains_clients:
  assumes "hub_ok h" and "distinct ps" and "set ps = hClients h"
  shows "\<exists>h'. closeAll ps h = Inr h' \<and> hClients h' = {} \<and>
    (\<forall>p c ts. p \<in> hClients h \<longrightarrow> hHeap h p = Some c \<longrightarrow> cWriter c = Writing \<longrightarrow>
       (\<exists>c' c''. hHeap h' p = Some c' \<and> writePump ts c' = Some c'' \<and>
          (cWriter c'' = ClosingWrite \<longleftrightarrow> length (chBuf (cSend c)) < sends ts \<or> \<not> list_all turn_ok ts) \<and>
          cWritten c'' = cWritten c @ take (sends (takeWhile turn_ok ts)) (chBuf (cSend c))))"
proof -
  obtain h' where h': "closeAll ps h = Inr h'" "hClients h' = {}" "hHeap h' = on_clients (hClients h) shut (hHeap h)"
    by (rule closeAll_run [OF assms])
  have shut: "chClosed (cSend (shut c))" "cWriter (shut c) = cWriter c" "cWritten (shut c) = cWritten c"
      "chBuf (cSend (shut c)) = chBuf (cSend c)" for c
    by (simp_all add: shut_def)
  from h' show ?thesis
    using writePump_drain [OF shut(1)] by (intro exI [of _ h']) (simp add: on_clients_def shut)
qed

theorem shutdown_drains_clients_witness:
  "\<exists>h' c' c''. closeAll [0] (hsHub sample_hub) = Inr h' \<and> hHeap h' 0 = Some c' \<and>
     writePump [PingTurn True, SendTurn True, SendTurn True] c' = Some c'' \<and> cWriter c'' = ClosingWrite \<and>
     cWritten c'' = [broadcastMsg sample_addr_text (sample_intent ''i'' 1)]"
proof -
  have ok: "hub_ok (hsHub sample_hub)" using hub_reach_ok [OF sample_hub_reach] by (simp add: hub_sys_ok_def)
  let ?c = "the (hHeap (hsHub sample_hub) 0)"
  let ?ts = "[PingTurn True, SendTurn True, SendTurn True]"
  have c: "0 \<in> hClients (hsHub sample_hub)" "hHeap (hsHub sample_hub) 0 = Some ?c" "cWriter ?c = Writing"
      "chBuf (cSend ?c) = [broadcastMsg sample_addr_text (sample_intent ''i'' 1)]" "cWritten ?c = []"
    by (simp_all add: sample_hub_def Let_def)
  have "distinct [0::nat]" "set [0] = hClients (hsHub sample_hub)" by (simp_all add: sample_hub_def Let_def)
  from shutdown_drains_clients [OF ok this] obtain h' where h': "closeAll [0] (hsHub sample_hub) = Inr h'"
      and all: "\<And>p c ts. p \<in> hClients (hsHub sample_hub) \<Longrightarrow> hHeap (hsHub sample_hub) p = Some c \<Longrightarrow> cWriter c = Writing \<Longrightarrow>
       \<exists>c' c''. hHeap h' p = Some c' \<and> writePump ts c' = Some c'' \<and>
          (cWriter c'' = ClosingWrite \<longleftrightarrow> length (chBuf (cSend c)) < sends ts \<or> \<not> list_all turn_ok ts) \<and>
          cWritten c'' = cWritten c @ take (sends (takeWhile turn_ok ts)) (chBuf (cSend c))"
    by blast
  from all [OF c(1-3), of ?ts] obtain c' c'' where "hHeap h' 0 = Some c'" "writePump ?ts c' = Some c''"
      "cWriter c'' = ClosingWrite" "cWritten c'' = [broadcastMsg sample_addr_text (sample_intent ''i'' 1)]"
    by (auto simp only: c(4,5) is_send.simps turn_ok.simps filter.simps takeWhile.simps list.size take.simps) simp_all
  with h' show ?thesis by metis
qed

text \<open>
  C33. A bid sent by a solver as JSON is read back field by field: the same intent, solver and
  amounts, rejected exactly when an amount is not positive.
\<close>

theorem parseBid_reads_bid:
  assumes "addr_text_ok ac" and "valid_utf8 iid"
  shows "parseBid ac now (print_json (bid_json
      \<lparr>brIntentID = iid, brSolver = AddressHex ac solver, brAmountOut = big_String x, brGasPrice = big_String y\<rparr>)) =
    (if x \<le> 0 then Inl (BadAmountOut (big_String x))
     else if y \<le> 0 then Inl (BadGasPrice (big_String y))
     else Inr \<lparr>bIntentID = iid, bSolver = solver, bAmountOut = Some x, bGasPrice = Some y,
               bReceivedAt = now, bSignature = []\<rparr>)"
proof -
  let ?r = "\<lparr>brIntentID = iid, brSolver = AddressHex ac solver, brAmountOut = big_String x, brGasPrice = big_String y\<rparr>"
  have "decodeBid (print_json (bid_json ?r)) = Some ?r"
    using assms by (intro decodeBid_print) (simp_all add: addr_text_ok_def valid_utf8_ascii)
  with assms(1) show ?thesis by (simp add: parseBid_def addr_text_ok_def decimal.decode_encode)
qed

theorem parseBid_reads_bid_witness:
  "parseBid sample_addr_text (time_Unix 5) (print_json (bid_json
      \<lparr>brIntentID = ''i'', brSolver = AddressHex sample_addr_text 9, brAmountOut = big_String 12, brGasPrice = big_String 0\<rparr>)) =
    Inl (BadGasPrice (big_String 0))"
  by (subst parseBid_reads_bid [OF sample_addr_text_ok]) (simp_all add: valid_utf8_ascii is_ascii_def)

text \<open>
  The message broadcast for an intent is a JSON object from which a solver reads back the id, the
  two token addresses, both amounts at full precision and the deadline.
\<close>

lemma broadcast_reads_intent:
  assumes "addr_text_ok ac" and "valid_utf8 (iID i)" and "iAmountIn i = Some x" and "iMinAmountOut i = Some y"
  shows "\<exists>v p. decode_message (broadcastMsg ac i) = Some v \<and> json_text (json_field ''type'' v) = Some ''new_intent'' \<and>
    json_field ''intent'' v = Some p \<and> json_text (json_field ''id'' p) = Some (iID i) \<and>
    map_option (HexToAddress ac) (json_text (json_field ''token_in'' p)) = Some (iTokenIn i) \<and>
    map_option (HexToAddress ac) (json_text (json_field ''token_out'' p)) = Some (iTokenOut i) \<and>
    Option.bind (json_text (json_field ''amount_in'' p)) big_SetString = Some x \<and>
    Option.bind (json_text (json_field ''min_amount_out'' p)) big_SetString = Some y \<and>
    json_field ''deadline'' p = Some (JNumber (big_String (sint (Time_Unix (iDeadline i)))))"
  using broadcast_ok [OF assms] assms
  by (auto simp: broadcast_json_def payload_json_def intent_payload_def addr_text_ok_def decimal.decode_encode)

end
