(* ===== verification/Intent_Handler.thy ===== *)
theory Intent_Handler
  imports Solver_Hub Go_Json_Strings
begin

section \<open>The REST handler (\<open>internal/ingress/handler.go\<close>)\<close>

text \<open>
  \<open>POST /v1/intent\<close>: the body is decoded and checked, the intent is pushed to \<open>intentCh\<close> without
  blocking and broadcast to the solvers. The request is what the handler reads of it, the method and
  the bytes of the body that can be read; the response is the status, the content type and the body.
  The clock is read twice, once for the deadline and once for \<open>ReceivedAt\<close>; the wording of the JSON
  decoder's errors is an argument.
\<close>

subsection \<open>Requests and responses\<close>

record intentRequest =
  irID :: string
  irSender :: string
  irTokenIn :: string
  irTokenOut :: string
  irAmountIn :: string
  irMinAmountOut :: string
  irDeadline :: "64 word"
  irNonce :: "64 word"
  irSignature :: string

definition zeroRequest :: intentRequest where
  "zeroRequest = \<lparr>irID = [], irSender = [], irTokenIn = [], irTokenOut = [], irAmountIn = [],
     irMinAmountOut = [], irDeadline = 0, irNonce = 0, irSignature = []\<rparr>"

definition requestFields :: "string list" where
  "requestFields = [''id'', ''sender'', ''token_in'', ''token_out'', ''amount_in'', ''min_amount_out'',
     ''deadline'', ''nonce'', ''signature'']"

definition setRequestField :: "string \<Rightarrow> json \<Rightarrow> intentRequest \<Rightarrow> intentRequest option" where
  "setRequestField f v r =
     (if f = ''id'' then map_option (\<lambda>x. r\<lparr>irID := x\<rparr>) (store_string v (irID r))
      else if f = ''sender'' then map_option (\<lambda>x. r\<lparr>irSender := x\<rparr>) (store_string v (irSender r))
      else if f = ''token_in'' then map_option (\<lambda>x. r\<lparr>irTokenIn := x\<rparr>) (store_string v (irTokenIn r))
      else if f = ''token_out'' then map_option (\<lambda>x. r\<lparr>irTokenOut := x\<rparr>) (store_string v (irTokenOut r))
      else if f = ''amount_in'' then map_option (\<lambda>x. r\<lparr>irAmountIn := x\<rparr>) (store_string v (irAmountIn r))
      else if f = ''min_amount_out'' then map_option (\<lambda>x. r\<lparr>irMinAmountOut := x\<rparr>) (store_string v (irMinAmountOut r))
      else if f = ''deadline'' then map_option (\<lambda>x. r\<lparr>irDeadline := x\<rparr>) (store_int64 v (irDeadline r))
      else if f = ''nonce'' then map_option (\<lambda>x. r\<lparr>irNonce := x\<rparr>) (store_uint64 v (irNonce r))
      else map_option (\<lambda>x. r\<lparr>irSignature := x\<rparr>) (store_string v (irSignature r)))"

text \<open>\<open>dec.Decode(&req)\<close> with \<open>DisallowUnknownFields\<close>: the first value of the body.\<close>

definition decodeRequest :: "string \<Rightarrow> intentRequest option" where
  "decodeRequest body =
     (case decode_value body of
        None \<Rightarrow> None
      | Some (v, _) \<Rightarrow> decode_struct setRequestField requestFields True v zeroRequest)"

record http_request =
  hrMethod :: string
  hrBody :: string

record http_response =
  hpStatus :: nat
  hpContentType :: string
  hpBody :: string

datatype intent_rejection =
    MethodNotAllowed
  | InvalidBody string
  | IDRequired
  | BadAmountIn
  | BadMinAmountOut
  | DeadlinePassed
  | BadSignature
  | AtCapacity

fun rejectionStatus :: "intent_rejection \<Rightarrow> nat" where
  "rejectionStatus MethodNotAllowed = 405"
| "rejectionStatus AtCapacity = 503"
| "rejectionStatus _ = 400"

fun rejectionText :: "intent_rejection \<Rightarrow> string" where
  "rejectionText MethodNotAllowed = ''method not allowed''"
| "rejectionText (InvalidBody err) = ''invalid request body: '' @ err"
| "rejectionText IDRequired = ''id is required''"
| "rejectionText BadAmountIn = ''amount_in must be a positive decimal integer''"
| "rejectionText BadMinAmountOut = ''min_amount_out must be a non-negative decimal integer''"
| "rejectionText DeadlinePassed = ''deadline must be in the future''"
| "rejectionText BadSignature = ''signature must be hex-encoded''"
| "rejectionText AtCapacity = ''auction engine at capacity, please retry''"

definition http_Error :: "intent_rejection \<Rightarrow> http_response" where
  "http_Error e = \<lparr>hpStatus = rejectionStatus e, hpContentType = ''text/plain; charset=utf-8'',
     hpBody = rejectionText e @ [CHR 0x0A]\<rparr>"

text \<open>\<open>json.NewEncoder(w).Encode(intentResponse{...})\<close>, which ends with a newline.\<close>

record intentResponse =
  rsIntentID :: string
  rsStatus :: string

definition response_json :: "intentResponse \<Rightarrow> json" where
  "response_json r = JObject [(''intent_id'', JString (rsIntentID r)), (''status'', JString (rsStatus r))]"

definition acceptedResponse :: "intent_id \<Rightarrow> http_response" where
  "acceptedResponse iid = \<lparr>hpStatus = 202, hpContentType = ''application/json'',
     hpBody = print_json (response_json \<lparr>rsIntentID = iid, rsStatus = ''queued''\<rparr>) @ [CHR 0x0A]\<rparr>"

definition Health :: "http_request \<Rightarrow> http_response" where
  "Health r = \<lparr>hpStatus = 200, hpContentType = ''application/json'',
     hpBody = [CHR ''{'', dquote] @ ''status'' @ [dquote, CHR '':'', dquote] @ ''ok'' @ [dquote, CHR ''}'']\<rparr>"

subsection \<open>\<open>SubmitIntent\<close>\<close>

text \<open>The optional signature.\<close>

definition parseSignature :: "string \<Rightarrow> bytes option" where
  "parseSignature s =
     (if s = [] then Some []
      else (case hex_DecodeString (TrimPrefix s ''0x'') of (sig, None) \<Rightarrow> Some sig | (_, Some _) \<Rightarrow> None))"

text \<open>The checks in the order of the code, and the intent they build.\<close>

definition checkRequest :: "addr_text \<Rightarrow> go_time \<Rightarrow> go_time \<Rightarrow> intentRequest \<Rightarrow> intent_rejection + intent" where
  "checkRequest ac now received req =
     (if irID req = [] then Inl IDRequired
      else
        (case big_SetString (irAmountIn req) of
           None \<Rightarrow> Inl BadAmountIn
         | Some amountIn \<Rightarrow>
             if amountIn \<le> 0 then Inl BadAmountIn
             else
               (case big_SetString (irMinAmountOut req) of
                  None \<Rightarrow> Inl BadMinAmountOut
                | Some minAmountOut \<Rightarrow>
                    if minAmountOut < 0 then Inl BadMinAmountOut
                    else
                      (let deadline = time_Unix (irDeadline req) in
                       if \<not> Time_After deadline now then Inl DeadlinePassed
                       else
                         (case parseSignature (irSignature req) of
                            None \<Rightarrow> Inl BadSignature
                          | Some sig \<Rightarrow>
                              Inr \<lparr>iID = irID req, iSender = HexToAddress ac (irSender req),
                                   iTokenIn = HexToAddress ac (irTokenIn req),
                                   iTokenOut = HexToAddress ac (irTokenOut req),
                                   iAmountIn = Some amountIn, iMinAmountOut = Some minAmountOut,
                                   iDeadline = deadline, iNonce = irNonce req, iSignature = sig,
                                   iReceivedAt = received\<rparr>)))))"

definition parseIntent ::
    "addr_text \<Rightarrow> (string \<Rightarrow> string) \<Rightarrow> go_time \<Rightarrow> go_time \<Rightarrow> http_request \<Rightarrow> intent_rejection + intent" where
  "parseIntent ac jsonErr now received r =
     (if hrMethod r \<noteq> ''POST'' then Inl MethodNotAllowed
      else
        (case decodeRequest (hrBody r) of
           None \<Rightarrow> Inl (InvalidBody (jsonErr (hrBody r)))
         | Some req \<Rightarrow> checkRequest ac now received req))"

text \<open>The handler's two channels to the rest: \<open>intentCh\<close> and the hub.\<close>

record handler =
  hIntentCh :: "intent gochan"
  hHub :: hub

definition NewHandler :: "intent gochan \<Rightarrow> hub \<Rightarrow> handler" where
  "NewHandler intentCh h = \<lparr>hIntentCh = intentCh, hHub = h\<rparr>"

text \<open>The whole handler, for the order \<open>ps\<close> in which the broadcast walks the clients.\<close>

definition SubmitIntent ::
    "addr_text \<Rightarrow> (string \<Rightarrow> string) \<Rightarrow> go_time \<Rightarrow> go_time \<Rightarrow> nat list \<Rightarrow> http_request \<Rightarrow> handler
     \<Rightarrow> go_panic + http_response \<times> handler" where
  "SubmitIntent ac jsonErr now received ps r h =
     (case parseIntent ac jsonErr now received r of
        Inl e \<Rightarrow> Inr (http_Error e, h)
      | Inr i \<Rightarrow>
          (case try_send i (hIntentCh h) of
             Inl p \<Rightarrow> Inl p
           | Inr (sent, ch) \<Rightarrow>
               if \<not> sent then Inr (http_Error AtCapacity, h)
               else
                 (case BroadcastIntent ac i ps (hHub h) of
                    Inl p \<Rightarrow> Inl p
                  | Inr hub \<Rightarrow> Inr (acceptedResponse (iID i), \<lparr>hIntentCh = ch, hHub = hub\<rparr>))))"

subsection \<open>Accepted intents\<close>

lemma store_string_valid: "store_string v old = Some s \<Longrightarrow> strings_ok v \<Longrightarrow> valid_utf8 old \<Longrightarrow> valid_utf8 s"
  by (cases v) auto

lemma decodeRequest_id_valid: "decodeRequest body = Some req \<Longrightarrow> valid_utf8 (irID req)"
proof -
  assume "decodeRequest body = Some req"
  then obtain v t where v: "decode_value body = Some (v, t)"
      "decode_struct setRequestField requestFields True v zeroRequest = Some req"
    by (auto simp: decodeRequest_def split: option.splits)
  have "valid_utf8 (irID r')" if "setRequestField f w r = Some r'" "strings_ok w" "valid_utf8 (irID r)" for f w r r'
    using that by (auto simp: setRequestField_def store_string_valid split: if_splits)
  from this v(2) decode_value_strings [OF v(1)] show "valid_utf8 (irID req)"
    by (rule decode_struct_keeps) (simp_all add: zeroRequest_def valid_utf8.simps)
qed

text \<open>What every intent that passes the checks has.\<close>

definition intent_valid :: "intent \<Rightarrow> bool" where
  "intent_valid i \<longleftrightarrow> iID i \<noteq> [] \<and> valid_utf8 (iID i) \<and>
     (\<exists>x. iAmountIn i = Some x \<and> 0 < x) \<and> (\<exists>y. iMinAmountOut i = Some y \<and> 0 \<le> y)"

lemma checkRequest_valid:
  "checkRequest ac now received req = Inr i \<Longrightarrow> valid_utf8 (irID req) \<Longrightarrow>
     intent_valid i \<and> Time_After (iDeadline i) now \<and> iReceivedAt i = received"
  by (auto simp: checkRequest_def intent_valid_def Let_def split: if_splits option.splits)

lemma parseIntent_valid:
  "parseIntent ac jsonErr now received r = Inr i \<Longrightarrow>
     intent_valid i \<and> Time_After (iDeadline i) now \<and> iReceivedAt i = received"
  by (auto simp: parseIntent_def dest: checkRequest_valid decodeRequest_id_valid split: if_splits option.splits)

subsection \<open>Requests read back\<close>

text \<open>The JSON text of a request, with the fields in the order of the struct.\<close>

definition request_json :: "intentRequest \<Rightarrow> json" where
  "request_json r =
     JObject [(''id'', JString (irID r)), (''sender'', JString (irSender r)), (''token_in'', JString (irTokenIn r)),
       (''token_out'', JString (irTokenOut r)), (''amount_in'', JString (irAmountIn r)),
       (''min_amount_out'', JString (irMinAmountOut r)), (''deadline'', JNumber (big_String (sint (irDeadline r)))),
       (''nonce'', JNumber (nat_string (unat (irNonce r)))), (''signature'', JString (irSignature r))]"

definition request_texts_ok :: "intentRequest \<Rightarrow> bool" where
  "request_texts_ok r \<longleftrightarrow> list_all valid_utf8
     [irID r, irSender r, irTokenIn r, irTokenOut r, irAmountIn r, irMinAmountOut r, irSignature r]"

lemma nat_string_big_String: "nat_string n = big_String (int n)"
  by (simp add: big_String_def)

lemma request_json_ok: "request_texts_ok r \<Longrightarrow> json_ok (request_json r)"
  by (auto simp: request_json_def request_texts_ok_def valid_utf8_ascii is_ascii_def nat_string_big_String)

lemma decodeRequest_print:
  assumes "request_texts_ok r" and "number_end rest"
  shows "decodeRequest (print_json (request_json r) @ rest) = Some r"
proof -
  have "decode_struct setRequestField requestFields True (request_json r) zeroRequest = Some r"
    by (simp add: decode_struct_def request_json_def requestFields_def field_of_def setRequestField_def
        ParseInt_big_String ParseUint_unat parsed_def zeroRequest_def)
  with decode_print [OF request_json_ok [OF assms(1)] assms(2)] show ?thesis by (simp add: decodeRequest_def)
qed

lemma response_body:
  assumes "valid_utf8 iid"
  shows "decode_message (hpBody (acceptedResponse iid)) =
    Some (response_json \<lparr>rsIntentID = iid, rsStatus = ''queued''\<rparr>)"
proof -
  have "json_ok (response_json \<lparr>rsIntentID = iid, rsStatus = ''queued''\<rparr>)"
    using assms by (simp add: response_json_def valid_utf8_ascii is_ascii_def)
  from decode_print [OF this, of "[CHR 0x0A]"] show ?thesis
    by (simp add: acceptedResponse_def decode_message_def number_end_def skip_ws_def is_ws_def is_digit_def digit_val_def)
qed

subsection \<open>Deadlines\<close>

text \<open>The last second \<open>time.Unix\<close> represents without wrapping.\<close>

definition max_unix :: int where
  "max_unix = 2 ^ 63 - 1 - 62135596800"

lemma sint_add_unixToInternal:
  assumes "0 \<le> sint (d :: 64 word)"
  shows "sint (d + unixToInternal) = (if sint d \<le> max_unix then sint d + 62135596800 else sint d + 62135596800 - 2 ^ 64)"
proof -
  have d: "sint d < 2 ^ 63" using sint_less [of d] by simp
  have "sint (d + unixToInternal) = signed_take_bit 63 (sint d + 62135596800)"
    by (simp add: sint_word_ariths unixToInternal_def)
  also have "\<dots> = (sint d + 62135596800 + 2 ^ 63) mod 2 ^ 64 - 2 ^ 63"
    by (simp add: signed_take_bit_eq_take_bit_shift take_bit_eq_mod)
  also have "\<dots> = (if sint d \<le> max_unix then sint d + 62135596800 else sint d + 62135596800 - 2 ^ 64)"
  proof (cases "sint d \<le> max_unix")
    case True
    then have "(sint d + 62135596800 + 2 ^ 63) mod 2 ^ 64 = sint d + 62135596800 + 2 ^ 63"
      using assms by (intro mod_pos_pos_trivial) (simp_all add: max_unix_def)
    with True show ?thesis by simp
  next
    case False
    have "(sint d + 62135596800 + 2 ^ 63) mod 2 ^ 64 = (sint d + 62135596800 + 2 ^ 63 - 2 ^ 64) mod 2 ^ 64"
      by (simp only: minus_mod_self2)
    also have "\<dots> = sint d + 62135596800 + 2 ^ 63 - 2 ^ 64"
      using False d by (intro mod_pos_pos_trivial) (simp_all add: max_unix_def)
    finally show ?thesis using False by simp
  qed
  finally show ?thesis .
qed

lemma deadline_after:
  assumes "0 \<le> sint d" and now: "0 \<le> sint (Time_Unix now)" "sint (Time_Unix now) \<le> max_unix"
  shows "Time_After (time_Unix d) now \<longleftrightarrow> sint (Time_Unix now) < sint d \<and> sint d \<le> max_unix"
proof -
  have "tSec now = Time_Unix now + unixToInternal" by (simp add: Time_Unix_def)
  then have "sint (tSec now) = sint (Time_Unix now) + 62135596800"
    using sint_add_unixToInternal [OF now(1)] now(2) by simp
  moreover have "sint d < 2 ^ 63" using sint_less [of d] by simp
  ultimately show ?thesis
    using sint_add_unixToInternal [OF assms(1)] now
    by (auto simp: Time_After_def time_Unix_def max_unix_def split: if_splits)
qed

subsection \<open>Properties\<close>

definition sample_request :: intentRequest where
  "sample_request =
     \<lparr>irID = ''i'', irSender = ''0x01'', irTokenIn = ''0x02'', irTokenOut = ''0x03'', irAmountIn = big_String 1000,
      irMinAmountOut = big_String 900, irDeadline = 1900000000, irNonce = 4, irSignature = ''0xab''\<rparr>"

definition sample_post :: http_request where
  "sample_post = \<lparr>hrMethod = ''POST'', hrBody = print_json (request_json sample_request)\<rparr>"

definition sample_posted :: intent where
  "sample_posted =
     \<lparr>iID = ''i'', iSender = HexToAddress sample_addr_text ''0x01'', iTokenIn = HexToAddress sample_addr_text ''0x02'',
      iTokenOut = HexToAddress sample_addr_text ''0x03'', iAmountIn = Some 1000, iMinAmountOut = Some 900,
      iDeadline = time_Unix 1900000000, iNonce = 4, iSignature = [0xab], iReceivedAt = time_Unix 1800000001\<rparr>"

lemma sample_request_texts: "request_texts_ok sample_request"
  by (simp add: request_texts_ok_def sample_request_def valid_utf8_ascii is_ascii_def [where s = "_ # _"]
      is_ascii_def [where s = "[]"])

lemma number_end_Nil [simp]: "number_end []"
  by (simp add: number_end_def)

text \<open>The same request under any id.\<close>

definition post_as :: "intent_id \<Rightarrow> http_request" where
  "post_as iid = \<lparr>hrMethod = ''POST'', hrBody = print_json (request_json (sample_request\<lparr>irID := iid\<rparr>))\<rparr>"

lemma post_as_parsed:
  assumes "is_ascii iid" and "iid \<noteq> []"
  shows "parseIntent sample_addr_text jsonErr (time_Unix 1800000000) (time_Unix 1800000001) (post_as iid) =
    Inr (sample_posted\<lparr>iID := iid\<rparr>)"
proof -
  have "request_texts_ok (sample_request\<lparr>irID := iid\<rparr>)"
    using sample_request_texts assms(1) by (simp add: request_texts_ok_def valid_utf8_ascii)
  then have "decodeRequest (hrBody (post_as iid)) = Some (sample_request\<lparr>irID := iid\<rparr>)"
    using decodeRequest_print [of _ "[]"] by (simp add: post_as_def)
  moreover have "Time_After (time_Unix 1900000000) (time_Unix 1800000000)"
    by (simp add: Time_After_def time_Unix_def unixToInternal_def)
  moreover have "parseSignature ''0xab'' = Some [0xab]" by code_simp
  ultimately show ?thesis
    using assms(2)
    by (simp add: parseIntent_def post_as_def checkRequest_def sample_request_def sample_posted_def decimal.decode_encode)
qed

lemma sample_post_parsed:
  "parseIntent sample_addr_text jsonErr (time_Unix 1800000000) (time_Unix 1800000001) sample_post = Inr sample_posted"
  using post_as_parsed [of "''i''"] by (simp add: post_as_def sample_post_def sample_request_def sample_posted_def is_ascii_def)

text \<open>
  C6. The handler never panics and has exactly three outcomes. A request that fails a check is answered
  with the status and message of the first failed check and changes nothing. A valid intent is answered
  503 and changes nothing when the channel is full. Otherwise the answer is 202, the intent is the last
  in the channel, and every registered solver with room has its broadcast as the last message.
\<close>

theorem SubmitIntent_outcome:
  assumes "chan_ok (hIntentCh h)" and "hub_ok (hHub h)" and "distinct ps" and "set ps = hClients (hHub h)"
  shows "\<exists>resp h'. SubmitIntent ac jsonErr now received ps r h = Inr (resp, h') \<and>
    (case parseIntent ac jsonErr now received r of
       Inl e \<Rightarrow> resp = http_Error e \<and> h' = h
     | Inr i \<Rightarrow>
         if length (chBuf (hIntentCh h)) < chCap (hIntentCh h)
         then resp = acceptedResponse (iID i) \<and> chBuf (hIntentCh h') = chBuf (hIntentCh h) @ [i] \<and>
           chan_ok (hIntentCh h') \<and>
           (\<forall>p \<in> hClients (hHub h). \<forall>c. hHeap (hHub h) p = Some c \<longrightarrow> has_room c \<longrightarrow>
              (\<exists>c'. hHeap (hHub h') p = Some c' \<and> cQueued c' = cQueued c @ [broadcastMsg ac i] \<and>
                 p \<in> hClients (hHub h')))
         else resp = http_Error AtCapacity \<and> h' = h)"
proof (cases "parseIntent ac jsonErr now received r")
  case (Inl e)
  then show ?thesis by (simp add: SubmitIntent_def)
next
  case (Inr i)
  obtain b ch where ch: "try_send i (hIntentCh h) = Inr (b, ch)" "chan_ok ch"
      "chBuf ch = chBuf (hIntentCh h) @ (if b then [i] else [])"
      "b \<longleftrightarrow> length (chBuf (hIntentCh h)) < chCap (hIntentCh h)"
    by (rule gochan.offer_total [OF assms(1)])
  show ?thesis
  proof (cases b)
    case False
    with Inr ch show ?thesis by (simp add: SubmitIntent_def)
  next
    case True
    with Inr ch BroadcastIntent_run [OF assms(2-4), of ac i] show ?thesis
      by (simp add: SubmitIntent_def on_clients_def deliver_def enqueue_def)
  qed
qed

theorem SubmitIntent_outcome_witness:
  "\<exists>resp h'. SubmitIntent sample_addr_text (\<lambda>_. []) (time_Unix 1800000000) (time_Unix 1800000001) [0] sample_post
       (NewHandler (make_chan 256) (hsHub sample_hub)) = Inr (resp, h') \<and>
     hpStatus resp = 202 \<and> chBuf (hIntentCh h') = [sample_posted]"
proof -
  let ?h = "NewHandler (make_chan 256) (hsHub sample_hub)"
  have hub: "hub_ok (hHub ?h)" using hub_reach_ok [OF sample_hub_reach] by (simp add: hub_sys_ok_def NewHandler_def)
  have ch: "chan_ok (hIntentCh ?h)" by (simp add: NewHandler_def chan_ok_def make_chan_def)
  have ps: "distinct [0::nat]" "set [0] = hClients (hHub ?h)" by (simp_all add: NewHandler_def sample_hub_def Let_def)
  have room: "chBuf (hIntentCh ?h) = []" "chCap (hIntentCh ?h) = 256" by (simp_all add: NewHandler_def make_chan_def)
  from SubmitIntent_outcome [OF ch hub ps, where r = sample_post and ac = sample_addr_text and jsonErr = "\<lambda>_. []"
      and now = "time_Unix 1800000000" and received = "time_Unix 1800000001", unfolded sample_post_parsed sum.case]
  show ?thesis
    by (rule ex_forward, elim ex_forward conjE, intro conjI) (simp_all add: room acceptedResponse_def)
qed

text \<open>
  C34. A request posted as JSON, with anything after it that cannot continue the value, is read back
  exactly: every field arrives as sent, amounts at any size and signed and unsigned 64-bit numbers
  included, and the checks decide on those values.
\<close>

theorem posted_request_read_back:
  assumes "request_texts_ok req" and "number_end rest"
    and "irAmountIn req = big_String x" and "irMinAmountOut req = big_String y"
    and "irSignature req = ''0x'' @ hex_EncodeToString sig" and "irID req \<noteq> []"
  shows "parseIntent ac jsonErr now received \<lparr>hrMethod = ''POST'', hrBody = print_json (request_json req) @ rest\<rparr> =
    (if x \<le> 0 then Inl BadAmountIn
     else if y < 0 then Inl BadMinAmountOut
     else if \<not> Time_After (time_Unix (irDeadline req)) now then Inl DeadlinePassed
     else Inr \<lparr>iID = irID req, iSender = HexToAddress ac (irSender req), iTokenIn = HexToAddress ac (irTokenIn req),
               iTokenOut = HexToAddress ac (irTokenOut req), iAmountIn = Some x, iMinAmountOut = Some y,
               iDeadline = time_Unix (irDeadline req), iNonce = irNonce req, iSignature = sig,
               iReceivedAt = received\<rparr>)"
proof -
  have "parseSignature (''0x'' @ hex_EncodeToString sig) = Some sig"
    by (simp add: parseSignature_def TrimPrefix_def HasPrefix_def hex_Decode_Encode)
  with decodeRequest_print [OF assms(1,2)] assms(3-6) show ?thesis
    by (simp add: parseIntent_def checkRequest_def Let_def decimal.decode_encode)
qed

theorem posted_request_read_back_witness:
  "parseIntent sample_addr_text (\<lambda>_. []) (time_Unix 2000000000) (time_Unix 2000000001)
     \<lparr>hrMethod = ''POST'', hrBody = print_json (request_json (sample_request\<lparr>irSignature := ''0x'' @ hex_EncodeToString [7]\<rparr>)) @ ''}''\<rparr> =
   Inl DeadlinePassed"
proof -
  have "request_texts_ok (sample_request\<lparr>irSignature := ''0x'' @ hex_EncodeToString [7]\<rparr>)"
    using sample_request_texts is_ascii_hex [of "[7]"] by (simp add: request_texts_ok_def valid_utf8_ascii is_ascii_def)
  then show ?thesis
    by (subst posted_request_read_back [of _ _ 1000 900 "[7]"])
       (simp_all add: sample_request_def number_end_def Time_After_def time_Unix_def unixToInternal_def)
qed

text \<open>
  C36. The deadline check is exact on the times the clock can show: a deadline is accepted when it is
  at least one second after the current second. Deadlines beyond \<open>max_unix\<close>, about 292 billion years
  away, wrap around in \<open>time.Unix\<close> and are refused as past.
\<close>

theorem deadline_check_exact:
  assumes "irID req \<noteq> []" and "irAmountIn req = big_String x" and "0 < x"
    and "irMinAmountOut req = big_String y" and "0 \<le> y" and "0 \<le> sint (irDeadline req)"
    and "0 \<le> sint (Time_Unix now)" and "sint (Time_Unix now) \<le> max_unix"
  shows "checkRequest ac now received req = Inl DeadlinePassed \<longleftrightarrow>
    \<not> (sint (Time_Unix now) < sint (irDeadline req) \<and> sint (irDeadline req) \<le> max_unix)"
  using assms deadline_after [OF assms(6-8)]
  by (simp add: checkRequest_def Let_def decimal.decode_encode split: option.split)

theorem deadline_check_exact_witness:
  "checkRequest sample_addr_text (time_Unix 1800000000) (time_Unix 1800000001)
     (sample_request\<lparr>irDeadline := 0x7FFFFFFFFFFFFFFF\<rparr>) = Inl DeadlinePassed"
  using deadline_check_exact [of "sample_request\<lparr>irDeadline := 0x7FFFFFFFFFFFFFFF\<rparr>" 1000 900 "time_Unix 1800000000"]
  by (simp add: sample_request_def max_unix_def)

text \<open>
  C35. Whatever bytes were posted, an accepted intent can be read by every solver and by the user. The
  broadcast decodes to a \<open>new_intent\<close> message in which the fields \<open>id\<close>, \<open>token_in\<close>, \<open>token_out\<close>, \<open>amount_in\<close>,
  \<open>min_amount_out\<close> and \<open>deadline\<close> hold, each under its own name, the id of the intent, its two tokens, its two amounts at full
  precision and its deadline in seconds; the body of the 202 response decodes to the id and the status \<open>queued\<close>.
\<close>

theorem accepted_intent_readable:
  assumes "addr_text_ok ac" and "parseIntent ac jsonErr now received r = Inr i"
  shows "(\<exists>v p. decode_message (broadcastMsg ac i) = Some v \<and> json_text (json_field ''type'' v) = Some ''new_intent'' \<and>
      json_field ''intent'' v = Some p \<and> json_text (json_field ''id'' p) = Some (iID i) \<and>
      map_option (HexToAddress ac) (json_text (json_field ''token_in'' p)) = Some (iTokenIn i) \<and>
      map_option (HexToAddress ac) (json_text (json_field ''token_out'' p)) = Some (iTokenOut i) \<and>
      iAmountIn i \<noteq> None \<and> Option.bind (json_text (json_field ''amount_in'' p)) big_SetString = iAmountIn i \<and>
      iMinAmountOut i \<noteq> None \<and> Option.bind (json_text (json_field ''min_amount_out'' p)) big_SetString = iMinAmountOut i \<and>
      json_field ''deadline'' p = Some (JNumber (big_String (sint (Time_Unix (iDeadline i)))))) \<and>
    hpStatus (acceptedResponse (iID i)) = 202 \<and>
    (\<exists>v. decode_message (hpBody (acceptedResponse (iID i))) = Some v \<and>
      json_text (json_field ''intent_id'' v) = Some (iID i) \<and> json_text (json_field ''status'' v) = Some ''queued'')"
proof -
  from parseIntent_valid [OF assms(2)] obtain x y where i: "valid_utf8 (iID i)" "iAmountIn i = Some x" "iMinAmountOut i = Some y"
    by (auto simp: intent_valid_def)
  have "json_text (json_field ''intent_id'' (response_json \<lparr>rsIntentID = iID i, rsStatus = ''queued''\<rparr>)) = Some (iID i)"
      "json_text (json_field ''status'' (response_json \<lparr>rsIntentID = iID i, rsStatus = ''queued''\<rparr>)) = Some ''queued''"
    by (simp_all add: response_json_def)
  then have "\<exists>v. decode_message (hpBody (acceptedResponse (iID i))) = Some v \<and>
      json_text (json_field ''intent_id'' v) = Some (iID i) \<and> json_text (json_field ''status'' v) = Some ''queued''"
    using response_body [OF i(1)] by blast
  then show ?thesis
    using broadcast_reads_intent [OF assms(1) i] by (simp add: i(2,3) acceptedResponse_def)
qed

theorem accepted_intent_readable_witness:
  "\<exists>v p w. decode_message (broadcastMsg sample_addr_text sample_posted) = Some v \<and> json_field ''intent'' v = Some p \<and>
     json_text (json_field ''id'' p) = Some ''i'' \<and>
     Option.bind (json_text (json_field ''amount_in'' p)) big_SetString = iAmountIn sample_posted \<and>
     decode_message (hpBody (acceptedResponse ''i'')) = Some w \<and> json_text (json_field ''intent_id'' w) = Some ''i''"
proof -
  have "iID sample_posted = ''i''" by (simp add: sample_posted_def)
  then show ?thesis
    using accepted_intent_readable [OF sample_addr_text_ok sample_post_parsed [of "\<lambda>_. []"]] by auto
qed

end
