(* ===== verification/Relayer_Config.thy ===== *)
theory Relayer_Config
  imports Go_Text
begin

section \<open>Environment and configuration (\<open>cmd/relayer/main.go\<close>)\<close>

text \<open>
  The process environment, the \<open>.env\<close> loader and the variables \<open>main\<close> reads. \<open>os.Getenv\<close> does not tell
  an empty variable from an unset one; \<open>os.Setenv\<close> refuses an empty key, a key with an equals sign and
  NUL bytes. A file is what can be read of it and whether reading ended with an error.
\<close>

subsection \<open>\<open>os.Getenv\<close> and \<open>os.Setenv\<close>\<close>

type_synonym env = "string \<rightharpoonup> string"

definition Getenv :: "string \<Rightarrow> env \<Rightarrow> string" where
  "Getenv k e = (case e k of None \<Rightarrow> [] | Some v \<Rightarrow> v)"

definition setenv_ok :: "string \<Rightarrow> string \<Rightarrow> bool" where
  "setenv_ok k v \<longleftrightarrow> k \<noteq> [] \<and> CHR ''='' \<notin> set k \<and> CHR 0x00 \<notin> set k \<and> CHR 0x00 \<notin> set v"

definition Setenv :: "string \<Rightarrow> string \<Rightarrow> env \<Rightarrow> env option" where
  "Setenv k v e = (if setenv_ok k v then Some (e(k \<mapsto> v)) else None)"

subsection \<open>\<open>loadDotEnv\<close>\<close>

datatype dotenv_error = OpenFailed string | SetFailed string | LineTooLong | ReadFailed

record env_file =
  efText :: string
  efReadError :: bool

text \<open>The assignment on one line, if there is one.\<close>

definition dotenvLine :: "string \<Rightarrow> (string \<times> string) option" where
  "dotenvLine raw =
     (let line = TrimSpace raw in
      if line = [] \<or> HasPrefix line ''#'' then None
      else
        (case SplitN2 CHR ''='' line of
           [k, v] \<Rightarrow> Some (TrimSpace k, TrimSpace v)
         | _ \<Rightarrow> None))"

fun dotenvLines :: "string list \<Rightarrow> env \<Rightarrow> env \<times> dotenv_error option" where
  "dotenvLines [] e = (e, None)"
| "dotenvLines (raw # ls) e =
     (case dotenvLine raw of
        None \<Rightarrow> dotenvLines ls e
      | Some (k, v) \<Rightarrow>
          if Getenv k e = [] then
            (case Setenv k v e of
               None \<Rightarrow> (e, Some (SetFailed k))
             | Some e' \<Rightarrow> dotenvLines ls e')
          else dotenvLines ls e)"

text \<open>None stands for a file that cannot be opened.\<close>

definition loadDotEnv :: "string \<Rightarrow> env_file option \<Rightarrow> env \<Rightarrow> env \<times> dotenv_error option" where
  "loadDotEnv path file e =
     (case file of
        None \<Rightarrow> (e, Some (OpenFailed path))
      | Some f \<Rightarrow>
          (let (ls, tooLong) = scanLines (efText f) in
           case dotenvLines ls e of
             (e', Some err) \<Rightarrow> (e', Some err)
           | (e', None) \<Rightarrow> (e', if tooLong then Some LineTooLong else if efReadError f then Some ReadFailed else None)))"

subsection \<open>The variables of \<open>main\<close>\<close>

datatype config_error =
    EnvNotSet string
  | InvalidChainID string parse_error
  | InvalidAuctionTimeout string parse_error

definition mustEnv :: "env \<Rightarrow> string \<Rightarrow> config_error + string" where
  "mustEnv e key = (let v = Getenv key e in if v = [] then Inl (EnvNotSet key) else Inr v)"

definition envDefault :: "env \<Rightarrow> string \<Rightarrow> string \<Rightarrow> string" where
  "envDefault e key d = (let v = Getenv key e in if v = [] then d else v)"

text \<open>\<open>time.Duration(auctionMS) * time.Millisecond\<close>, on signed 64-bit integers.\<close>

definition durationMS :: "64 word \<Rightarrow> 64 word" where
  "durationMS ms = ms * 1000000"

record config =
  cfRpcURL :: string
  cfPrivateKeyHex :: string
  cfSettlementAddr :: string
  cfChainID :: "64 word"
  cfAuctionTimeout :: "64 word"
  cfPort :: string

definition readConfig :: "env \<Rightarrow> config_error + config" where
  "readConfig e =
     (case mustEnv e ''BASE_RPC_URL'' of Inl x \<Rightarrow> Inl x | Inr rpcURL \<Rightarrow>
      case mustEnv e ''RELAYER_PRIVATE_KEY'' of Inl x \<Rightarrow> Inl x | Inr privateKeyHex \<Rightarrow>
      case mustEnv e ''SETTLEMENT_CONTRACT_ADDRESS'' of Inl x \<Rightarrow> Inl x | Inr settlementAddr \<Rightarrow>
      case mustEnv e ''CHAIN_ID'' of Inl x \<Rightarrow> Inl x | Inr chainIDStr \<Rightarrow>
      case ParseUint chainIDStr of Inl x \<Rightarrow> Inl (InvalidChainID chainIDStr x) | Inr chainID \<Rightarrow>
      let auctionMSStr = envDefault e ''AUCTION_TIMEOUT_MS'' ''200'' in
      case ParseUint auctionMSStr of Inl x \<Rightarrow> Inl (InvalidAuctionTimeout auctionMSStr x) | Inr auctionMS \<Rightarrow>
      Inr \<lparr>cfRpcURL = rpcURL, cfPrivateKeyHex = privateKeyHex, cfSettlementAddr = settlementAddr,
           cfChainID = chainID, cfAuctionTimeout = durationMS auctionMS, cfPort = envDefault e ''PORT'' ''8080''\<rparr>)"

subsection \<open>The loader on any file\<close>

lemma dotenvLines_keeps:
  "Getenv k e \<noteq> [] \<Longrightarrow> fst (dotenvLines ls e) k = e k"
proof (induction ls arbitrary: e)
  case (Cons raw ls)
  show ?case
  proof (cases "dotenvLine raw")
    case None
    with Cons show ?thesis by simp
  next
    case (Some kv)
    obtain k' v' where kv: "kv = (k', v')" by (cases kv)
    have "fst (dotenvLines ls (e(k' \<mapsto> v'))) k = e k" if "Getenv k' e = []"
      using that Cons.prems Cons.IH [of "e(k' \<mapsto> v')"] by (cases "k = k'") (simp_all add: Getenv_def fun_upd_def)
    with Cons Some kv show ?thesis by (simp add: Setenv_def)
  qed
qed simp

subsection \<open>The loader on a file of assignments\<close>

text \<open>A key or value that survives the loader: visible ASCII at both ends, one line, and no equals sign in a key.\<close>

definition visible :: "char \<Rightarrow> bool" where
  "visible c \<longleftrightarrow> 33 \<le> (of_char c :: nat) \<and> (of_char c :: nat) < 127"

definition token_ok :: "string \<Rightarrow> bool" where
  "token_ok s \<longleftrightarrow> s \<noteq> [] \<and> visible (hd s) \<and> visible (last s) \<and> CHR 0x0A \<notin> set s \<and> CHR 0x00 \<notin> set s"

definition assignment_ok :: "string \<times> string \<Rightarrow> bool" where
  "assignment_ok kv \<longleftrightarrow> token_ok (fst kv) \<and> token_ok (snd kv) \<and> CHR ''='' \<notin> set (fst kv) \<and> hd (fst kv) \<noteq> CHR ''#'' \<and>
     length (fst kv) + length (snd kv) + 1 < maxTokenSize"

definition assignment_text :: "string \<times> string \<Rightarrow> string" where
  "assignment_text kv = fst kv @ CHR ''='' # snd kv"

definition assignments_text :: "(string \<times> string) list \<Rightarrow> string" where
  "assignments_text kvs = concat (map (\<lambda>kv. assignment_text kv @ [CHR 0x0A]) kvs)"

lemma space_encodings_ends:
  "e \<in> set space_encodings \<Longrightarrow> e \<noteq> [] \<and> \<not> visible (hd e) \<and> \<not> visible (last e)"
proof -
  have "list_all (\<lambda>e. e \<noteq> [] \<and> \<not> visible (hd e) \<and> \<not> visible (last e)) space_encodings" by code_simp
  then show "e \<in> set space_encodings \<Longrightarrow> e \<noteq> [] \<and> \<not> visible (hd e) \<and> \<not> visible (last e)"
    by (simp add: list_all_iff)
qed

lemma TrimSpace_visible:
  assumes "s \<noteq> []" "visible (hd s)" "visible (last s)"
  shows "TrimSpace s = s"
proof -
  have "\<not> HasPrefix s e" if "e \<in> set space_encodings" "e \<noteq> []" for e
    using space_encodings_ends [OF that(1)] assms by (auto simp: HasPrefix_append)
  then have "trim_prefixes space_encodings s = s" by (intro trim_prefixes_id)
  moreover have "\<not> HasPrefix (rev s) e" if "e \<in> set (map rev space_encodings)" "e \<noteq> []" for e
  proof
    assume "HasPrefix (rev s) e"
    then obtain t where "rev s = e @ t" by (auto simp: HasPrefix_append)
    moreover from that obtain e' where e': "e = rev e'" "e' \<in> set space_encodings" by auto
    ultimately have "last s = last e'" using that(2) assms(1)
      by (metis Nil_is_rev_conv hd_append2 hd_rev)
    with space_encodings_ends [OF e'(2)] assms(3) show False by simp
  qed
  then have "trim_prefixes (map rev space_encodings) (rev s) = rev s" by (intro trim_prefixes_id)
  ultimately show ?thesis by (simp add: TrimSpace_def)
qed

lemma dotenvLine_assignment: "assignment_ok kv \<Longrightarrow> dotenvLine (assignment_text kv) = Some kv"
proof -
  assume ok: "assignment_ok kv"
  obtain k v where kv: "kv = (k, v)" by (cases kv)
  have k: "TrimSpace k = k" "k \<noteq> []" and v: "TrimSpace v = v"
    using ok kv TrimSpace_visible by (auto simp: assignment_ok_def token_ok_def)
  have "TrimSpace (k @ CHR ''='' # v) = k @ CHR ''='' # v"
    using ok kv by (intro TrimSpace_visible) (auto simp: assignment_ok_def token_ok_def)
  moreover have "\<not> HasPrefix (k @ CHR ''='' # v) ''#''"
    using ok kv by (auto simp: HasPrefix_append assignment_ok_def token_ok_def Cons_eq_append_conv append_eq_Cons_conv)
  moreover have "SplitN2 CHR ''='' (k @ CHR ''='' # v) = [k, v]"
    using ok kv by (intro SplitN2_first) (simp add: assignment_ok_def)
  ultimately show ?thesis using k v kv by (simp add: dotenvLine_def assignment_text_def Let_def)
qed

lemma nl10: "char_of (10 :: nat) = CHR 0x0A"
  by (simp add: char_of_eq_iff)

lemma scanLines_assignment:
  assumes "assignment_ok kv"
  shows "scanLines (assignment_text kv @ CHR 0x0A # rest) =
    (assignment_text kv # fst (scanLines rest), snd (scanLines rest))"
proof -
  let ?l = "assignment_text kv"
  have nl: "CHR 0x0A \<notin> set ?l" "?l \<noteq> []" "length ?l < maxTokenSize"
    using assms by (auto simp: assignment_ok_def token_ok_def assignment_text_def)
  then have all: "\<And>c. c \<in> set ?l \<Longrightarrow> c \<noteq> char_of (10 :: nat)" 
    using nl10 by auto
  have span: "span_line (?l @ CHR 0x0A # rest) = (?l, CHR 0x0A # rest)"
    by (simp add: span_line_def takeWhile_append2 dropWhile_append2 all [unfolded nl10] nl10)
  have "last ?l \<noteq> char_of (13 :: nat)"
    using assms by (auto simp: assignment_ok_def token_ok_def assignment_text_def visible_def)
  then have "dropCR ?l = ?l" by (simp add: dropCR_def)
  with nl span show ?thesis by (subst scanLines.simps) (simp add: Let_def split: prod.split)
qed

lemma scanLines_assignments:
  "list_all assignment_ok kvs \<Longrightarrow> scanLines (assignments_text kvs) = (map assignment_text kvs, False)"
proof (induction kvs)
  case Nil
  show ?case by (simp add: assignments_text_def scanLines.simps span_line_def)
next
  case (Cons kv kvs)
  then show ?case by (simp add: assignments_text_def scanLines_assignment)
qed

text \<open>The first assignment of a key counts, unless the environment already has a value for it.\<close>

definition defaulted :: "(string \<times> string) list \<Rightarrow> env \<Rightarrow> string \<Rightarrow> string" where
  "defaulted kvs e k = (if Getenv k e \<noteq> [] then Getenv k e else (case map_of kvs k of None \<Rightarrow> [] | Some v \<Rightarrow> v))"

lemma defaulted_step: "v \<noteq> [] \<Longrightarrow> Getenv k e = [] \<Longrightarrow> defaulted kvs (e(k \<mapsto> v)) = defaulted ((k, v) # kvs) e"
  by (auto simp: defaulted_def Getenv_def fun_eq_iff)

lemma defaulted_skip: "Getenv k e \<noteq> [] \<Longrightarrow> defaulted kvs e = defaulted ((k, v) # kvs) e"
  by (auto simp: defaulted_def fun_eq_iff)

lemma dotenvLines_assignments:
  "list_all assignment_ok kvs \<Longrightarrow>
     \<exists>e'. dotenvLines (map assignment_text kvs) e = (e', None) \<and> (\<forall>k. Getenv k e' = defaulted kvs e k)"
proof (induction kvs arbitrary: e)
  case Nil
  then show ?case by (simp add: defaulted_def)
next
  case (Cons kv kvs)
  obtain k v where kv: "kv = (k, v)" by (cases kv)
  have ok: "setenv_ok k v" "v \<noteq> []" using Cons.prems kv by (auto simp: assignment_ok_def token_ok_def setenv_ok_def)
  have line: "dotenvLine (assignment_text (k, v)) = Some (k, v)" using Cons.prems kv dotenvLine_assignment by simp
  have rest: "list_all assignment_ok kvs" using Cons.prems by simp
  show ?case
  proof (cases "Getenv k e = []")
    case True
    from Cons.IH [OF rest, of "e(k \<mapsto> v)"] show ?thesis
      unfolding kv defaulted_step [OF ok(2) True] by (simp add: line True Setenv_def ok fun_upd_def)
  next
    case False
    from Cons.IH [OF rest, of e] show ?thesis
      unfolding kv defaulted_skip [OF False, of kvs v] by (simp add: line False)
  qed
qed

subsection \<open>Properties\<close>

text \<open>
  C37. Loading \<open>.env\<close> never changes a variable that has a value, whatever is in the file and wherever the
  loader stops. A file of assignments loads without error, and then every variable has the value it had
  before if that was not empty, and that of its first assignment otherwise.
\<close>

theorem loadDotEnv_precedence:
  shows "(\<forall>path f e k. Getenv k e \<noteq> [] \<longrightarrow> fst (loadDotEnv path f e) k = e k) \<and>
    (\<forall>path kvs e. list_all assignment_ok kvs \<longrightarrow>
       (\<exists>e'. loadDotEnv path (Some \<lparr>efText = assignments_text kvs, efReadError = False\<rparr>) e = (e', None) \<and>
          (\<forall>k. Getenv k e' =
             (if Getenv k e \<noteq> [] then Getenv k e else (case map_of kvs k of None \<Rightarrow> [] | Some v \<Rightarrow> v)))))"
proof (intro conjI allI impI)
  fix path f and e :: env and k
  assume k: "Getenv k e \<noteq> []"
  have "fst (dotenvLines ls e) k = e k" for ls using k by (rule dotenvLines_keeps)
  then show "fst (loadDotEnv path f e) k = e k"
    by (auto simp: loadDotEnv_def Let_def split: option.split prod.split) (metis fst_conv)+
next
  fix path kvs and e :: env
  assume ok: "list_all assignment_ok kvs"
  from dotenvLines_assignments [OF ok, of e] scanLines_assignments [OF ok]
  show "\<exists>e'. loadDotEnv path (Some \<lparr>efText = assignments_text kvs, efReadError = False\<rparr>) e = (e', None) \<and>
      (\<forall>k. Getenv k e' =
         (if Getenv k e \<noteq> [] then Getenv k e else (case map_of kvs k of None \<Rightarrow> [] | Some v \<Rightarrow> v)))"
    by (auto simp: loadDotEnv_def defaulted_def Let_def)
qed

definition sample_env :: env where
  "sample_env = [''PORT'' \<mapsto> ''9000'', ''CHAIN_ID'' \<mapsto> [], ''AUCTION_TIMEOUT_MS'' \<mapsto> nat_string 200,
     ''BASE_RPC_URL'' \<mapsto> ''u'', ''RELAYER_PRIVATE_KEY'' \<mapsto> ''k'', ''SETTLEMENT_CONTRACT_ADDRESS'' \<mapsto> ''a'']"

theorem loadDotEnv_precedence_witness:
  "\<exists>e'. loadDotEnv ''.env'' (Some \<lparr>efText = assignments_text [(''PORT'', ''1''), (''CHAIN_ID'', ''8453'')],
       efReadError = False\<rparr>) sample_env = (e', None) \<and>
     Getenv ''PORT'' e' = ''9000'' \<and> Getenv ''CHAIN_ID'' e' = ''8453''"
proof -
  have "list_all assignment_ok [(''PORT'', ''1''), (''CHAIN_ID'', ''8453'')]"
    by (simp add: assignment_ok_def token_ok_def visible_def maxTokenSize_def)
  from conjunct2 [OF loadDotEnv_precedence, rule_format, OF this, of "''.env''" sample_env] show ?thesis
    by (rule ex_forward) (auto simp: sample_env_def Getenv_def)
qed

text \<open>
  C38. The auction window is the configured number of milliseconds exactly for values up to
  9223372036854; beyond that the multiplication wraps around and the window is another one. The
  configuration does not check the bound.
\<close>

theorem auction_timeout_exact:
  assumes "Getenv ''AUCTION_TIMEOUT_MS'' e = nat_string n" and "n < 2 ^ 64" and "readConfig e = Inr c"
  shows "sint (cfAuctionTimeout c) = 1000000 * int n \<longleftrightarrow> n \<le> 9223372036854"
proof -
  have "cfAuctionTimeout c = durationMS (of_nat n)"
    using assms by (auto simp: readConfig_def envDefault_def Let_def ParseUint_nat_string split: sum.splits)
  then have c: "cfAuctionTimeout c = word_of_int (1000000 * int n)" by (simp add: durationMS_def)
  show ?thesis
  proof
    assume "sint (cfAuctionTimeout c) = 1000000 * int n"
    then have "1000000 * int n < 2 ^ 63" using sint_less [of "cfAuctionTimeout c"] by simp
    then show "n \<le> 9223372036854" by simp
  next
    assume "n \<le> 9223372036854"
    then show "sint (cfAuctionTimeout c) = 1000000 * int n"
      unfolding c by (simp only: sint_sbintrunc') (rule signed_take_bit_int_eq_self, simp_all)
  qed
qed

theorem auction_timeout_exact_witness:
  "\<exists>c. readConfig (sample_env(''CHAIN_ID'' \<mapsto> nat_string 1)) = Inr c \<and> sint (cfAuctionTimeout c) = 200000000"
proof -
  let ?e = "sample_env(''CHAIN_ID'' \<mapsto> nat_string 1)"
  have ms: "Getenv ''AUCTION_TIMEOUT_MS'' ?e = nat_string 200" by (simp add: sample_env_def Getenv_def)
  obtain c where c: "readConfig ?e = Inr c"
    by (simp add: readConfig_def mustEnv_def Getenv_def sample_env_def envDefault_def Let_def ParseUint_nat_string)
  from auction_timeout_exact [OF ms _ c] c show ?thesis by simp
qed

end
