(* ===== verification/Auction_Engine.thy ===== *)
theory Auction_Engine
  imports Core_Types Go_Chan
begin

section \<open>The auction engine (\<open>internal/auction\<close>)\<close>

text \<open>
  \<open>Engine\<close> keeps a map from intent ids to pointers to auction entries. The entries are kept in an
  explicit heap, because an entry outlives its removal from the map: a goroutine that has looked up
  the pointer keeps appending to the entry after \<open>Cleanup\<close> has deleted the key. Every critical
  section of the code (the code between taking and releasing \<open>Engine.mu\<close> or \<open>auctionEntry.mu\<close>) is
  one definition; the methods are composed of them in the order of the code. The interleavings of
  these sections are the subject of the theory \<open>Auction_Interleaving\<close>.
\<close>

record auctionEntry =
  aeBids :: "bid list"
  aeIntent :: intent
  aeStartedAt :: go_time

record engine =
  eAuctions :: "intent_id \<rightharpoonup> nat"
  eHeap :: "nat \<rightharpoonup> auctionEntry"
  eNext :: nat
  eVoucherCh :: "voucher gochan"
  eTimeout :: "64 word"

datatype auction_error =
    AuctionAlreadyActive intent_id
  | AmountOutNil intent_id
  | GasPriceNil intent_id
  | AuctionNotFound intent_id

definition NewEngine :: "nat \<Rightarrow> 64 word \<Rightarrow> engine" where
  "NewEngine voucherBufSize auctionTimeout =
     \<lparr>eAuctions = Map.empty, eHeap = Map.empty, eNext = 0,
      eVoucherCh = make_chan voucherBufSize, eTimeout = auctionTimeout\<rparr>"

text \<open>\<open>StartAuction\<close>: the new entry is allocated at \<open>eNext\<close>; on an error nothing is changed.\<close>

definition StartAuction :: "go_time \<Rightarrow> intent \<Rightarrow> engine \<Rightarrow> auction_error + engine" where
  "StartAuction now i e =
     (case eAuctions e (iID i) of
        Some _ \<Rightarrow> Inl (AuctionAlreadyActive (iID i))
      | None \<Rightarrow>
          Inr (e\<lparr>eHeap := (eHeap e)(eNext e \<mapsto> \<lparr>aeBids = [], aeIntent = i, aeStartedAt = now\<rparr>),
                 eNext := Suc (eNext e),
                 eAuctions := (eAuctions e)(iID i \<mapsto> eNext e)\<rparr>))"

text \<open>\<open>submitBidLocked\<close>: the lookup under \<open>Engine.mu\<close>, then the append under \<open>auctionEntry.mu\<close>.\<close>

definition lookupEntry :: "intent_id \<Rightarrow> engine \<Rightarrow> nat option" where
  "lookupEntry iid e = eAuctions e iid"

definition appendBid :: "bid \<Rightarrow> nat \<Rightarrow> engine \<Rightarrow> engine" where
  "appendBid b p e =
     (case eHeap e p of
        None \<Rightarrow> e
      | Some en \<Rightarrow> e\<lparr>eHeap := (eHeap e)(p \<mapsto> en\<lparr>aeBids := aeBids en @ [b]\<rparr>)\<rparr>)"

definition submitBidLocked :: "bid \<Rightarrow> engine \<Rightarrow> bool \<times> engine" where
  "submitBidLocked b e =
     (case lookupEntry (bIntentID b) e of
        None \<Rightarrow> (False, e)
      | Some p \<Rightarrow> (True, appendBid b p e))"

definition SubmitBid :: "bid \<Rightarrow> engine \<Rightarrow> auction_error + engine" where
  "SubmitBid b e =
     (if bAmountOut b = None then Inl (AmountOutNil (bIntentID b))
      else if bGasPrice b = None then Inl (GasPriceNil (bIntentID b))
      else case submitBidLocked b e of
             (False, _) \<Rightarrow> Inl (AuctionNotFound (bIntentID b))
           | (True, e') \<Rightarrow> Inr e')"

text \<open>The loop of \<open>selectWinner\<close>, with the running winner as its accumulator.\<close>

fun winner_scan :: "bid option \<Rightarrow> bid list \<Rightarrow> go_panic + bid option" where
  "winner_scan winner [] = Inr winner"
| "winner_scan None (b # bs) = winner_scan (Some b) bs"
| "winner_scan (Some w) (b # bs) =
     (case big_Cmp (bAmountOut b) (bAmountOut w) of
        Inl p \<Rightarrow> Inl p
      | Inr cmp \<Rightarrow>
          if cmp > 0 then winner_scan (Some b) bs
          else if cmp = 0 then
            (case big_Cmp (bGasPrice b) (bGasPrice w) of
               Inl p \<Rightarrow> Inl p
             | Inr g \<Rightarrow> if g > 0 then winner_scan (Some b) bs else winner_scan (Some w) bs)
          else winner_scan (Some w) bs)"

definition scanEntry :: "nat \<Rightarrow> engine \<Rightarrow> go_panic + bid option" where
  "scanEntry p e =
     (case eHeap e p of
        None \<Rightarrow> Inl NilDereference
      | Some en \<Rightarrow> winner_scan None (aeBids en))"

definition selectWinner :: "intent_id \<Rightarrow> engine \<Rightarrow> go_panic + bid option" where
  "selectWinner iid e =
     (case lookupEntry iid e of None \<Rightarrow> Inr None | Some p \<Rightarrow> scanEntry p e)"

definition Cleanup :: "intent_id \<Rightarrow> engine \<Rightarrow> engine" where
  "Cleanup iid e = e\<lparr>eAuctions := (eAuctions e)(iid := None)\<rparr>"

definition newVoucher :: "go_time \<Rightarrow> intent \<Rightarrow> bid \<Rightarrow> voucher" where
  "newVoucher now i w =
     \<lparr>vIntentID = iID i, vWinningSolver = bSolver w, vAmountOut = bAmountOut w,
      vIntent = Some i, vWinningBid = Some w, vCreatedAt = now\<rparr>"

text \<open>The non-blocking send of \<open>runAuction\<close>; the flag says whether the voucher was emitted.\<close>

definition emitVoucher :: "voucher \<Rightarrow> engine \<Rightarrow> go_panic + bool \<times> engine" where
  "emitVoucher v e =
     (case try_send v (eVoucherCh e) of
        Inl p \<Rightarrow> Inl p
      | Inr (sent, ch) \<Rightarrow> Inr (sent, e\<lparr>eVoucherCh := ch\<rparr>))"

datatype auction_outcome = ClosedWithNoBids | VoucherEmitted voucher | VoucherDropped voucher

text \<open>
  \<open>runAuction\<close> from the moment its timer has fired, run without interruption: the deferred
  \<open>Cleanup\<close> is the last action of every path.
\<close>

definition runAuction :: "go_time \<Rightarrow> intent \<Rightarrow> engine \<Rightarrow> go_panic + auction_outcome \<times> engine" where
  "runAuction now i e =
     (case selectWinner (iID i) e of
        Inl p \<Rightarrow> Inl p
      | Inr None \<Rightarrow> Inr (ClosedWithNoBids, Cleanup (iID i) e)
      | Inr (Some w) \<Rightarrow>
          (let v = newVoucher now i w in
           case emitVoucher v e of
             Inl p \<Rightarrow> Inl p
           | Inr (sent, e') \<Rightarrow>
               Inr (if sent then VoucherEmitted v else VoucherDropped v, Cleanup (iID i) e')))"

subsection \<open>Well-formed engines and the auction book\<close>

text \<open>
  The abstract view of an engine is its book: the open auctions, each with its intent and the bids
  it has received, in order of arrival. \<open>book_start\<close>, \<open>book_submit\<close> and \<open>book_close\<close> say what the
  three operations of the engine promise to do to it.
\<close>

type_synonym book = "intent_id \<rightharpoonup> intent \<times> bid list"

definition engine_book :: "engine \<Rightarrow> book" where
  "engine_book e iid =
     (case eAuctions e iid of
        None \<Rightarrow> None
      | Some p \<Rightarrow> map_option (\<lambda>en. (aeIntent en, aeBids en)) (eHeap e p))"

definition book_start :: "intent \<Rightarrow> book \<Rightarrow> book" where
  "book_start i bk = bk(iID i \<mapsto> (i, []))"

definition book_submit :: "bid \<Rightarrow> book \<Rightarrow> book" where
  "book_submit b bk =
     (case bk (bIntentID b) of
        None \<Rightarrow> bk
      | Some (i, bs) \<Rightarrow> bk(bIntentID b \<mapsto> (i, bs @ [b])))"

definition book_close :: "intent_id \<Rightarrow> book \<Rightarrow> book" where
  "book_close iid bk = bk(iid := None)"

text \<open>The bid that must win: the first of those with the highest price.\<close>

definition best_bid :: "bid list \<Rightarrow> bid option" where
  "best_bid bs = first_max bid_price bs"

definition entry_ok :: "auctionEntry \<Rightarrow> bool" where
  "entry_ok en \<longleftrightarrow>
     (\<forall>b \<in> set (aeBids en). bid_priced b \<and> bIntentID b = iID (aeIntent en))"

definition engine_ok :: "engine \<Rightarrow> bool" where
  "engine_ok e \<longleftrightarrow>
     chan_ok (eVoucherCh e) \<and> (\<forall>v \<in> set (chBuf (eVoucherCh e)). voucher_ok v) \<and>
     (\<forall>iid p. eAuctions e iid = Some p \<longrightarrow> (\<exists>en. eHeap e p = Some en \<and> iID (aeIntent en) = iid)) \<and>
     (\<forall>p en. eHeap e p = Some en \<longrightarrow> p < eNext e \<and> entry_ok en)"

lemma engine_okD:
  assumes "engine_ok e"
  shows "chan_ok (eVoucherCh e)"
    and "v \<in> set (chBuf (eVoucherCh e)) \<Longrightarrow> voucher_ok v"
    and "eAuctions e iid = Some p \<Longrightarrow> \<exists>en. eHeap e p = Some en \<and> iID (aeIntent en) = iid"
    and "eHeap e p = Some en \<Longrightarrow> p < eNext e"
    and "eHeap e p = Some en \<Longrightarrow> entry_ok en"
  using assms by (auto simp: engine_ok_def)

lemma engine_entry_id:
  "engine_ok e \<Longrightarrow> eAuctions e iid = Some p \<Longrightarrow> eHeap e p = Some en \<Longrightarrow> iID (aeIntent en) = iid"
  using engine_okD(3) by fastforce

lemma engine_next_free:
  assumes "engine_ok e"
  shows "eHeap e (eNext e) = None" and "eAuctions e iid \<noteq> Some (eNext e)"
proof -
  show free: "eHeap e (eNext e) = None"
    using engine_okD(4) [OF assms, of "eNext e"] by (cases "eHeap e (eNext e)") auto
  show "eAuctions e iid \<noteq> Some (eNext e)"
    using engine_okD(3) [OF assms, of iid "eNext e"] free by auto
qed

lemma NewEngine_ok [simp]: "engine_ok (NewEngine n t)"
  by (simp add: engine_ok_def NewEngine_def)

lemma NewEngine_book [simp]: "engine_book (NewEngine n t) = Map.empty"
  by (rule ext) (simp add: engine_book_def NewEngine_def)

lemma engine_book_None_iff:
  "engine_ok e \<Longrightarrow> engine_book e iid = None \<longleftrightarrow> eAuctions e iid = None"
  by (auto simp: engine_book_def split: option.splits dest: engine_okD(3))

lemma engine_book_SomeD:
  assumes "engine_ok e" and "engine_book e iid = Some (i, bs)"
  obtains p en where "eAuctions e iid = Some p" and "eHeap e p = Some en"
    and "i = aeIntent en" and "bs = aeBids en" and "iID i = iid"
    and "\<forall>b \<in> set bs. bid_priced b \<and> bIntentID b = iid"
proof -
  from assms(2) obtain p en where p: "eAuctions e iid = Some p" "eHeap e p = Some en"
      and i: "i = aeIntent en" "bs = aeBids en"
    by (auto simp: engine_book_def split: option.splits)
  have iid: "iID (aeIntent en) = iid" by (rule engine_entry_id [OF assms(1) p])
  from engine_okD(5) [OF assms(1) p(2)] iid i
  have "\<forall>b \<in> set bs. bid_priced b \<and> bIntentID b = iid" by (simp add: entry_ok_def)
  with p i iid show thesis by (intro that [of p en]) simp_all
qed

text \<open>Two ids never share an entry, since the entry holds the intent it was made for.\<close>

lemma engine_auctions_inj:
  "engine_ok e \<Longrightarrow> eAuctions e a = Some p \<Longrightarrow> eAuctions e b = Some p \<Longrightarrow> a = b"
  using engine_okD(3) [of e a p] engine_entry_id [of e b p] engine_entry_id [of e a p] by auto

subsection \<open>The operations keep the engine well formed and follow the book\<close>

lemma StartAuction_ok [wf_rules]:
  assumes "engine_ok e" and "StartAuction now i e = Inr e'"
  shows "engine_ok e'"
proof -
  note free = engine_next_free [OF assms(1)]
  from assms(2) have e': "e' = e\<lparr>eHeap := (eHeap e)(eNext e \<mapsto> \<lparr>aeBids = [], aeIntent = i, aeStartedAt = now\<rparr>),
      eNext := Suc (eNext e), eAuctions := (eAuctions e)(iID i \<mapsto> eNext e)\<rparr>"
    by (auto simp: StartAuction_def split: option.splits)
  show ?thesis
    using assms(1) free less_SucI by (fastforce simp: e' engine_ok_def entry_ok_def)
qed

lemma StartAuction_book [simp]:
  assumes "engine_ok e" and "StartAuction now i e = Inr e'"
  shows "engine_book e' = book_start i (engine_book e)"
proof (rule ext)
  fix iid
  show "engine_book e' iid = book_start i (engine_book e) iid"
    using assms(2) engine_next_free(2) [OF assms(1), of iid]
    by (auto simp: StartAuction_def engine_book_def book_start_def split: option.splits)
qed

lemma StartAuction_fresh:
  "engine_ok e \<Longrightarrow> engine_book e (iID i) = None \<Longrightarrow> \<exists>e'. StartAuction now i e = Inr e'"
  by (simp add: StartAuction_def engine_book_None_iff)

lemma StartAuction_duplicate:
  "engine_ok e \<Longrightarrow> engine_book e (iID i) \<noteq> None \<Longrightarrow>
     StartAuction now i e = Inl (AuctionAlreadyActive (iID i))"
  by (auto simp: StartAuction_def engine_book_None_iff)

lemma appendBid_ok [wf_rules]:
  assumes "engine_ok e" and "eHeap e p = Some en" and "bid_priced b" and "bIntentID b = iID (aeIntent en)"
  shows "engine_ok (appendBid b p e)"
proof -
  have "eAuctions e iid = Some p \<Longrightarrow> iID (aeIntent en) = iid" for iid
    using engine_entry_id [OF assms(1) _ assms(2)] .
  with assms show ?thesis
    by (auto simp: appendBid_def engine_ok_def entry_ok_def)
qed

text \<open>An append reaches the book only while the entry is still in the map.\<close>

lemma appendBid_book:
  assumes "engine_ok e" and en: "eHeap e p = Some en" "bIntentID b = iID (aeIntent en)"
  shows "engine_book (appendBid b p e) =
    (if eAuctions e (bIntentID b) = Some p then book_submit b (engine_book e) else engine_book e)"
proof (rule ext)
  fix iid
  have other: "eAuctions e iid = Some p \<Longrightarrow> iid = bIntentID b"
    using engine_entry_id [OF assms(1) _ en(1)] en(2) by simp
  show "engine_book (appendBid b p e) iid =
    (if eAuctions e (bIntentID b) = Some p then book_submit b (engine_book e) else engine_book e) iid"
    using en other
    by (cases "iid = bIntentID b")
       (auto simp: engine_book_def appendBid_def book_submit_def split: option.split)
qed

lemma SubmitBid_cases:
  assumes "engine_ok e"
  shows "bid_priced b \<Longrightarrow> engine_book e (bIntentID b) = Some (i, bs) \<Longrightarrow>
      \<exists>e'. SubmitBid b e = Inr e' \<and> engine_ok e' \<and> eVoucherCh e' = eVoucherCh e \<and>
        engine_book e' = book_submit b (engine_book e)"
    and "bid_priced b \<Longrightarrow> engine_book e (bIntentID b) = None \<Longrightarrow>
      SubmitBid b e = Inl (AuctionNotFound (bIntentID b))"
    and "\<not> bid_priced b \<Longrightarrow>
      SubmitBid b e = Inl (if bAmountOut b = None then AmountOutNil (bIntentID b)
                           else GasPriceNil (bIntentID b))"
proof -
  assume priced: "bid_priced b" and "engine_book e (bIntentID b) = Some (i, bs)"
  then obtain p en where p: "eAuctions e (bIntentID b) = Some p" "eHeap e p = Some en"
      and i: "iID (aeIntent en) = bIntentID b"
    using engine_book_SomeD [OF assms] by metis
  have run: "SubmitBid b e = Inr (appendBid b p e)"
    using priced p
    by (auto simp: SubmitBid_def submitBidLocked_def lookupEntry_def bid_priced_def)
  have "engine_book (appendBid b p e) = book_submit b (engine_book e)"
    using appendBid_book [OF assms p(2)] p(1) i by simp
  with run p i appendBid_ok [OF assms p(2) priced]
  show "\<exists>e'. SubmitBid b e = Inr e' \<and> engine_ok e' \<and> eVoucherCh e' = eVoucherCh e \<and>
        engine_book e' = book_submit b (engine_book e)"
    by (simp add: appendBid_def)
next
  assume "bid_priced b" and "engine_book e (bIntentID b) = None"
  with assms show "SubmitBid b e = Inl (AuctionNotFound (bIntentID b))"
    by (auto simp: SubmitBid_def submitBidLocked_def lookupEntry_def bid_priced_def
        engine_book_None_iff)
next
  assume "\<not> bid_priced b"
  then show "SubmitBid b e = Inl (if bAmountOut b = None then AmountOutNil (bIntentID b)
                           else GasPriceNil (bIntentID b))"
    by (auto simp: SubmitBid_def bid_priced_def)
qed

subsection \<open>The winner\<close>

lemma outbid_iff:
  assumes "bid_priced b" and "bid_priced w"
  shows "bid_price w < bid_price b \<longleftrightarrow>
    the (bAmountOut w) < the (bAmountOut b) \<or>
    (the (bAmountOut w) = the (bAmountOut b) \<and> the (bGasPrice w) < the (bGasPrice b))"
  by (auto simp: bid_price_def)

lemma winner_scan_step:
  assumes "bid_priced b" and "bid_priced w"
  shows "winner_scan (Some w) (b # bs) =
    winner_scan (Some (if bid_price w < bid_price b then b else w)) bs"
proof -
  obtain ab gb aw gw where "bAmountOut b = Some ab" "bGasPrice b = Some gb"
      "bAmountOut w = Some aw" "bGasPrice w = Some gw"
    using assms by (auto simp: bid_priced_def)
  then show ?thesis
    by (simp add: outbid_iff [OF assms] sgn_if)
qed

text \<open>The loop of \<open>selectWinner\<close> never panics on priced bids and computes the reference winner.\<close>

lemma winner_scan_Some:
  "bid_priced w \<Longrightarrow> \<forall>b \<in> set bs. bid_priced b \<Longrightarrow>
     winner_scan (Some w) bs = Inr (best_bid (w # bs))"
proof (induction bs arbitrary: w)
  case Nil
  then show ?case by (simp add: best_bid_def)
next
  case (Cons b bs)
  then show ?case
    by (simp add: winner_scan_step best_bid_def first_max_step del: winner_scan.simps(3))
qed

lemma winner_scan_best_bid:
  "\<forall>b \<in> set bs. bid_priced b \<Longrightarrow> winner_scan None bs = Inr (best_bid bs)"
  by (cases bs) (simp_all add: winner_scan_Some best_bid_def)

lemma selectWinner_book:
  assumes "engine_ok e"
  shows "selectWinner iid e =
    Inr (case engine_book e iid of None \<Rightarrow> None | Some (i, bs) \<Rightarrow> best_bid bs)"
proof (cases "engine_book e iid")
  case None
  then have "eAuctions e iid = None" by (simp add: engine_book_None_iff [OF assms])
  with None show ?thesis by (simp add: selectWinner_def lookupEntry_def)
next
  case (Some a)
  then obtain i bs where a: "engine_book e iid = Some (i, bs)" by (cases a) auto
  from assms a obtain p en where "eAuctions e iid = Some p" "eHeap e p = Some en"
      "bs = aeBids en" "\<forall>b \<in> set bs. bid_priced b \<and> bIntentID b = iid"
    by (rule engine_book_SomeD)
  with a show ?thesis
    by (simp add: selectWinner_def lookupEntry_def scanEntry_def winner_scan_best_bid)
qed

lemma best_bid_mem: "best_bid bs = Some w \<Longrightarrow> w \<in> set bs"
  by (auto simp: best_bid_def dest: first_max_mem)

lemma newVoucher_ok:
  "bid_priced w \<Longrightarrow> bIntentID w = iID i \<Longrightarrow> voucher_ok (newVoucher now i w)"
  by (simp add: voucher_ok_def newVoucher_def)

lemma Cleanup_ok [wf_rules]: "engine_ok e \<Longrightarrow> engine_ok (Cleanup iid e)"
  by (auto simp: engine_ok_def Cleanup_def)

lemma Cleanup_book [simp]: "engine_book (Cleanup iid e) = book_close iid (engine_book e)"
  by (rule ext) (simp add: engine_book_def Cleanup_def book_close_def split: option.split)

lemma Cleanup_chan [simp]: "eVoucherCh (Cleanup iid e) = eVoucherCh e"
  by (simp add: Cleanup_def)

lemma emitVoucher_run:
  assumes "engine_ok e" and "voucher_ok v"
  defines "fits \<equiv> length (chBuf (eVoucherCh e)) < chCap (eVoucherCh e)"
  obtains e' where "emitVoucher v e = Inr (fits, e')" and "engine_ok e'"
    and "engine_book e' = engine_book e" and "chCap (eVoucherCh e') = chCap (eVoucherCh e)"
    and "chBuf (eVoucherCh e') = chBuf (eVoucherCh e) @ (if fits then [v] else [])"
proof (cases fits)
  case True
  define ch where "ch = (eVoucherCh e)\<lparr>chBuf := chBuf (eVoucherCh e) @ [v]\<rparr>"
  have run: "emitVoucher v e = Inr (fits, e\<lparr>eVoucherCh := ch\<rparr>)"
    using True engine_okD(1) [OF assms(1)] by (simp add: emitVoucher_def fits_def go_run ch_def)
  show thesis
  proof (rule that [OF run])
    show "engine_ok (e\<lparr>eVoucherCh := ch\<rparr>)"
      using True assms(1,2) by (auto simp: engine_ok_def fits_def ch_def)
    show "engine_book (e\<lparr>eVoucherCh := ch\<rparr>) = engine_book e"
      by (rule ext) (simp add: engine_book_def split: option.split)
  qed (simp_all add: True ch_def)
next
  case False
  then have "emitVoucher v e = Inr (False, e)"
    using engine_okD(1) [OF assms(1)] by (simp add: emitVoucher_def fits_def go_run)
  with False assms(1) show thesis by (intro that [of e]) simp_all
qed

text \<open>\<open>runAuction\<close> on an open auction, every branch.\<close>

lemma runAuction_book:
  assumes "engine_ok e" and "engine_book e (iID i) = Some (i', bs)"
  shows "\<exists>out e'. runAuction now i e = Inr (out, e') \<and> engine_ok e' \<and>
     engine_book e' = book_close (iID i) (engine_book e) \<and>
     chCap (eVoucherCh e') = chCap (eVoucherCh e) \<and>
     chBuf (eVoucherCh e') = chBuf (eVoucherCh e) @ (case out of VoucherEmitted v \<Rightarrow> [v] | _ \<Rightarrow> []) \<and>
     out = (case best_bid bs of
              None \<Rightarrow> ClosedWithNoBids
            | Some w \<Rightarrow>
                if length (chBuf (eVoucherCh e)) < chCap (eVoucherCh e)
                then VoucherEmitted (newVoucher now i w) else VoucherDropped (newVoucher now i w))"
proof (cases "best_bid bs")
  case None
  with assms show ?thesis
    by (simp add: runAuction_def selectWinner_book Cleanup_ok)
next
  case (Some w)
  from assms have "bid_priced w" and "bIntentID w = iID i"
    using best_bid_mem [OF Some] by (auto elim!: engine_book_SomeD)
  then have v: "voucher_ok (newVoucher now i w)" by (rule newVoucher_ok)
  show ?thesis
    by (rule emitVoucher_run [OF assms(1) v])
       (auto simp: runAuction_def selectWinner_book [OF assms(1)] assms(2) Some Let_def Cleanup_ok)
qed

subsection \<open>The engine as its clients see it\<close>

text \<open>
  The dispatchers of the Event Bus call \<open>StartAuction\<close> and \<open>SubmitBid\<close>, and the goroutine of an
  auction runs \<open>runAuction\<close>. The interface states what each call does to the book and to the queue
  of vouchers; every law covers one branch of the code.
\<close>

locale auction_house =
  fixes start :: "go_time \<Rightarrow> intent \<Rightarrow> 'e \<Rightarrow> auction_error + 'e"
    and submit :: "bid \<Rightarrow> 'e \<Rightarrow> auction_error + 'e"
    and finish :: "go_time \<Rightarrow> intent \<Rightarrow> 'e \<Rightarrow> go_panic + auction_outcome \<times> 'e"
    and book_of :: "'e \<Rightarrow> book"
    and outbox :: "'e \<Rightarrow> voucher gochan"
    and ok :: "'e \<Rightarrow> bool"
  assumes start_fresh: "ok e \<Longrightarrow> book_of e (iID i) = None \<Longrightarrow>
      \<exists>e'. start t i e = Inr e' \<and> ok e' \<and> outbox e' = outbox e \<and> book_of e' = book_start i (book_of e)"
    and start_active: "ok e \<Longrightarrow> book_of e (iID i) \<noteq> None \<Longrightarrow>
      start t i e = Inl (AuctionAlreadyActive (iID i))"
    and submit_open: "ok e \<Longrightarrow> bid_priced b \<Longrightarrow> book_of e (bIntentID b) = Some (i, bs) \<Longrightarrow>
      \<exists>e'. submit b e = Inr e' \<and> ok e' \<and> outbox e' = outbox e \<and> book_of e' = book_submit b (book_of e)"
    and submit_refused: "ok e \<Longrightarrow> \<not> bid_priced b \<or> book_of e (bIntentID b) = None \<Longrightarrow>
      \<exists>err. submit b e = Inl err"
    and finish_open: "ok e \<Longrightarrow> book_of e (iID i) = Some (i', bs) \<Longrightarrow>
      \<exists>out e'. finish t i e = Inr (out, e') \<and> ok e' \<and>
        book_of e' = book_close (iID i) (book_of e) \<and> chCap (outbox e') = chCap (outbox e) \<and>
        chBuf (outbox e') = chBuf (outbox e) @ (case out of VoucherEmitted v \<Rightarrow> [v] | _ \<Rightarrow> []) \<and>
        out = (case best_bid bs of
                 None \<Rightarrow> ClosedWithNoBids
               | Some w \<Rightarrow>
                   if length (chBuf (outbox e)) < chCap (outbox e)
                   then VoucherEmitted (newVoucher t i w) else VoucherDropped (newVoucher t i w))"

text \<open>A sequence of bids submitted one after the other; a refused bid changes nothing.\<close>

definition submit_one :: "(bid \<Rightarrow> 'e \<Rightarrow> auction_error + 'e) \<Rightarrow> bid \<Rightarrow> 'e \<Rightarrow> 'e" where
  "submit_one submit b e = (case submit b e of Inl _ \<Rightarrow> e | Inr e' \<Rightarrow> e')"

fun submit_all :: "(bid \<Rightarrow> 'e \<Rightarrow> auction_error + 'e) \<Rightarrow> bid list \<Rightarrow> 'e \<Rightarrow> 'e" where
  "submit_all submit [] e = e"
| "submit_all submit (b # bs) e = submit_all submit bs (submit_one submit b e)"

definition bids_for :: "intent_id \<Rightarrow> bid list \<Rightarrow> bid list" where
  "bids_for iid bs = filter (\<lambda>b. bIntentID b = iid \<and> bid_priced b) bs"

context auction_house
begin

lemma submit_step:
  assumes "ok e"
  shows "ok (submit_one submit b e)" and "outbox (submit_one submit b e) = outbox e"
    and "book_of e iid = None \<Longrightarrow> book_of (submit_one submit b e) iid = None"
    and "book_of e iid = Some (i, bs) \<Longrightarrow>
      book_of (submit_one submit b e) iid = Some (i, bs @ bids_for iid [b])"
proof (atomize (full), cases "bid_priced b \<and> book_of e (bIntentID b) \<noteq> None")
  case True
  then obtain j js where j: "book_of e (bIntentID b) = Some (j, js)" by auto
  with submit_open [OF assms _ j] True
  show "(ok (submit_one submit b e) \<and> outbox (submit_one submit b e) = outbox e) \<and>
     (book_of e iid = None \<longrightarrow> book_of (submit_one submit b e) iid = None) \<and>
     (book_of e iid = Some (i, bs) \<longrightarrow>
      book_of (submit_one submit b e) iid = Some (i, bs @ bids_for iid [b]))"
    by (auto simp: submit_one_def book_submit_def bids_for_def)
next
  case False
  then have closed: "\<not> bid_priced b \<or> book_of e (bIntentID b) = None" by blast
  with submit_refused [OF assms this] have "submit_one submit b e = e"
    by (auto simp: submit_one_def)
  with assms closed
  show "(ok (submit_one submit b e) \<and> outbox (submit_one submit b e) = outbox e) \<and>
     (book_of e iid = None \<longrightarrow> book_of (submit_one submit b e) iid = None) \<and>
     (book_of e iid = Some (i, bs) \<longrightarrow>
      book_of (submit_one submit b e) iid = Some (i, bs @ bids_for iid [b]))"
    by (auto simp: bids_for_def)
qed

lemma submit_all_ok: "ok e \<Longrightarrow> ok (submit_all submit bs e) \<and> outbox (submit_all submit bs e) = outbox e"
  by (induction bs arbitrary: e) (auto simp: submit_step)

lemma submit_all_closed:
  "ok e \<Longrightarrow> book_of e iid = None \<Longrightarrow> book_of (submit_all submit bs e) iid = None"
  by (induction bs arbitrary: e) (auto simp: submit_step)

lemma submit_all_open:
  "ok e \<Longrightarrow> book_of e iid = Some (i, bs0) \<Longrightarrow>
     book_of (submit_all submit bs e) iid = Some (i, bs0 @ bids_for iid bs)"
proof (induction bs arbitrary: e bs0)
  case Nil
  then show ?case by (simp add: bids_for_def)
next
  case (Cons b bs)
  from Cons.IH [OF submit_step(1) [OF Cons.prems(1)] submit_step(4) [OF Cons.prems]]
  show ?case by (simp add: bids_for_def)
qed

text \<open>The life of one auction, from its start through any sequence of bids to its close.\<close>

lemma lifecycle:
  assumes ok: "ok e" and fresh: "book_of e (iID i) = None"
  obtains e1 e3 where "start t0 i e = Inr e1" and "ok e3" and "book_of e3 (iID i) = None"
    and "finish t1 i (submit_all submit bs e1) =
       Inr (case best_bid (bids_for (iID i) bs) of
              None \<Rightarrow> ClosedWithNoBids
            | Some w \<Rightarrow>
                if length (chBuf (outbox e)) < chCap (outbox e)
                then VoucherEmitted (newVoucher t1 i w) else VoucherDropped (newVoucher t1 i w), e3)"
proof -
  from start_fresh [OF ok fresh, of t0] obtain e1 where e1: "start t0 i e = Inr e1" "ok e1"
      "outbox e1 = outbox e" "book_of e1 = book_start i (book_of e)" by blast
  define e2 where "e2 = submit_all submit bs e1"
  have e2: "ok e2" "outbox e2 = outbox e"
    using submit_all_ok [OF e1(2), of bs] e1(3) by (simp_all add: e2_def)
  have "book_of e1 (iID i) = Some (i, [])" by (simp add: e1(4) book_start_def)
  then have "book_of e2 (iID i) = Some (i, bids_for (iID i) bs)"
    using submit_all_open [OF e1(2), of "iID i" i "[]" bs] by (simp add: e2_def)
  from finish_open [OF e2(1) this, of t1, unfolded e2(2)] e1(1) that show thesis
    by (auto simp: book_close_def e2_def)
qed

end

interpretation eng: auction_house StartAuction SubmitBid runAuction engine_book eVoucherCh engine_ok
proof (unfold_locales, goal_cases)
  case (1 e i t)
  then obtain e' where e': "StartAuction t i e = Inr e'" using StartAuction_fresh by blast
  with 1 show ?case
    by (auto simp: StartAuction_ok StartAuction_book) (auto simp: StartAuction_def split: option.splits)
next
  case (2 e i t)
  then show ?case by (rule StartAuction_duplicate)
next
  case (3 e b i bs)
  then show ?case using SubmitBid_cases(1) by blast
next
  case (4 e b)
  then show ?case using SubmitBid_cases(2,3) by blast
next
  case (5 e i i' bs t)
  then show ?case by (rule runAuction_book)
qed

subsection \<open>Properties\<close>

text \<open>
  C3. The life of one auction. On any well-formed engine with no open auction for the intent and room
  in the voucher channel, \<open>StartAuction\<close> succeeds; whatever bids are then submitted, for this intent
  or for others, priced or with nil amounts, \<open>runAuction\<close> does not panic, emits exactly the voucher of
  the first bid with the highest amount (ties by gas price) among the priced bids for this intent, or
  closes with no bids when there is none, and the entry is gone afterwards.
\<close>

theorem auction_lifecycle:
  assumes "engine_ok e" and "engine_book e (iID i) = None"
    and "length (chBuf (eVoucherCh e)) < chCap (eVoucherCh e)"
  shows "\<exists>e1 e3. StartAuction t0 i e = Inr e1 \<and> engine_ok e3 \<and> engine_book e3 (iID i) = None \<and>
    runAuction t1 i (submit_all SubmitBid bs e1) =
      Inr (case best_bid (bids_for (iID i) bs) of
             None \<Rightarrow> ClosedWithNoBids
           | Some w \<Rightarrow> VoucherEmitted (newVoucher t1 i w), e3)"
  by (rule eng.lifecycle [OF assms(1,2), of t0 t1 bs]) (auto simp: assms(3) cong: option.case_cong)

theorem auction_lifecycle_witness:
  "\<exists>e1 e3. StartAuction (time_Unix 0) (sample_intent ''a'' 900) (NewEngine 1 200) = Inr e1 \<and>
     engine_ok e3 \<and> engine_book e3 ''a'' = None \<and>
     runAuction (time_Unix 1) (sample_intent ''a'' 900)
       (submit_all SubmitBid
          [sample_bid ''a'' 7 950 1, sample_bid ''b'' 8 999 1, sample_bid ''a'' 9 980 1] e1) =
       Inr (VoucherEmitted (newVoucher (time_Unix 1) (sample_intent ''a'' 900) (sample_bid ''a'' 9 980 1)), e3)"
proof -
  have fresh: "engine_book (NewEngine 1 200) (iID (sample_intent ''a'' 900)) = None" by simp
  have room: "length (chBuf (eVoucherCh (NewEngine 1 200))) < chCap (eVoucherCh (NewEngine 1 200))"
    by (simp add: NewEngine_def)
  have win: "best_bid (bids_for ''a''
      [sample_bid ''a'' 7 950 1, sample_bid ''b'' 8 999 1, sample_bid ''a'' 9 980 1]) =
      Some (sample_bid ''a'' 9 980 1)"
    by (simp add: bids_for_def best_bid_def first_max_step sample_bid_def bid_priced_def bid_price_def)
  show ?thesis
    using auction_lifecycle [OF NewEngine_ok fresh room, of "time_Unix 0" "time_Unix 1"
      "[sample_bid ''a'' 7 950 1, sample_bid ''b'' 8 999 1, sample_bid ''a'' 9 980 1]"] win
    by (simp add: sample_intent_def)
qed

text \<open>
  C29. Who wins. On any well-formed engine \<open>selectWinner\<close> never panics: it returns no winner for an unknown
  auction and for one without bids, and otherwise the earliest bid of highest price: every bid that
  arrived before it is strictly worse and no bid that arrived after it is better, where amounts are
  compared first and gas prices on equal amounts.
\<close>

theorem selectWinner_first_best:
  assumes "engine_ok e"
  shows "(engine_book e iid = None \<longrightarrow> selectWinner iid e = Inr None) \<and>
    (\<forall>i. engine_book e iid = Some (i, []) \<longrightarrow> selectWinner iid e = Inr None) \<and>
    (\<forall>i bs. engine_book e iid = Some (i, bs) \<longrightarrow> bs \<noteq> [] \<longrightarrow>
       (\<exists>ys w zs. selectWinner iid e = Inr (Some w) \<and> bs = ys @ w # zs \<and>
          (\<forall>b \<in> set ys. bid_price b < bid_price w) \<and> (\<forall>b \<in> set zs. bid_price b \<le> bid_price w)))"
proof (intro conjI allI impI)
  fix i bs
  assume bs: "engine_book e iid = Some (i, bs)" "bs \<noteq> []"
  obtain w where w: "best_bid bs = Some w"
    using bs(2) by (cases "best_bid bs") (auto simp: best_bid_def)
  with assms bs(1) have "selectWinner iid e = Inr (Some w)" by (simp add: selectWinner_book)
  with w show "\<exists>ys w zs. selectWinner iid e = Inr (Some w) \<and> bs = ys @ w # zs \<and>
      (\<forall>b \<in> set ys. bid_price b < bid_price w) \<and> (\<forall>b \<in> set zs. bid_price b \<le> bid_price w)"
    unfolding best_bid_def first_max_Some_iff by blast
qed (simp_all add: selectWinner_book [OF assms] best_bid_def)

theorem selectWinner_first_best_witness:
  "\<exists>e ys w zs. selectWinner ''a'' e = Inr (Some w) \<and>
     [sample_bid ''a'' 7 950 1, sample_bid ''a'' 8 950 2, sample_bid ''a'' 9 950 2] = ys @ w # zs \<and>
     (\<forall>b \<in> set ys. bid_price b < bid_price w) \<and> (\<forall>b \<in> set zs. bid_price b \<le> bid_price w)"
proof -
  define bs where "bs = [sample_bid ''a'' 7 950 1, sample_bid ''a'' 8 950 2, sample_bid ''a'' 9 950 2]"
  obtain e1 where e1: "StartAuction (time_Unix 0) (sample_intent ''a'' 900) (NewEngine 1 200) = Inr e1"
    by (simp add: StartAuction_def NewEngine_def)
  define e2 where "e2 = submit_all SubmitBid bs e1"
  have ok1: "engine_ok e1" by (rule StartAuction_ok [OF NewEngine_ok e1])
  have "engine_book e1 ''a'' = Some (sample_intent ''a'' 900, [])"
    using StartAuction_book [OF NewEngine_ok e1] by (simp add: book_start_def sample_intent_def)
  from eng.submit_all_open [OF ok1 this, of bs]
  have "engine_book e2 ''a'' = Some (sample_intent ''a'' 900, bs)"
    by (simp add: e2_def bs_def bids_for_def sample_bid_def bid_priced_def)
  moreover have "engine_ok e2" using eng.submit_all_ok [OF ok1] by (simp add: e2_def)
  moreover have "bs \<noteq> []" by (simp add: bs_def)
  ultimately show ?thesis using selectWinner_first_best [of e2 "''a''"] unfolding bs_def by blast
qed

text \<open>
  The winning price does not depend on the order in which concurrent submissions reach the entry:
  two arrival orders of the same bids have winners of equal amount and equal gas price.
\<close>

lemma winner_price_order_free:
  assumes "\<forall>b \<in> set bs. bid_priced b" and "bs \<noteq> []" and "set bs' = set bs"
  shows "\<exists>w w'. winner_scan None bs = Inr (Some w) \<and> winner_scan None bs' = Inr (Some w') \<and>
    bAmountOut w' = bAmountOut w \<and> bGasPrice w' = bGasPrice w"
proof -
  from assms have ne: "bs' \<noteq> []" and p': "\<forall>b \<in> set bs'. bid_priced b" by auto
  from assms(2) ne obtain w w' where w: "best_bid bs = Some w" "best_bid bs' = Some w'"
    by (cases "best_bid bs"; cases "best_bid bs'") (auto simp: best_bid_def)
  then have mem: "w \<in> set bs" "w' \<in> set bs'" by (auto dest: best_bid_mem)
  have "bid_price w \<le> bid_price w'" "bid_price w' \<le> bid_price w"
    using w mem assms(3) by (auto simp: best_bid_def dest: first_max_ge)
  then have "bid_price w = bid_price w'" by (rule antisym)
  with mem assms(1) p' have "bAmountOut w' = bAmountOut w" "bGasPrice w' = bGasPrice w"
    by (auto simp: bid_price_def bid_priced_def)
  with w show ?thesis by (simp add: winner_scan_best_bid assms(1) p')
qed

end
