(* ===== verification/Auction_Interleaving.thy ===== *)
theory Auction_Interleaving
  imports Auction_Engine
begin

section \<open>The auction engine under concurrency\<close>

text \<open>
  Any number of goroutines call \<open>StartAuction\<close> and \<open>SubmitBid\<close>, one goroutine per auction runs
  \<open>runAuction\<close>, and a consumer drains the voucher channel. A step of the system is one critical
  section of one goroutine: the code between two lock operations, or one channel operation. Which
  goroutine moves next is not determined, so the steps are a relation; the timer of an auction may
  fire at any moment, which covers every timeout and every scheduling delay.

  The state has the engine, the position of every auction goroutine (keyed by the address of the
  entry it was started for), the submissions that have looked up their entry and not yet appended to
  it, whether a goroutine has panicked, and the history of what happened.
\<close>

datatype run_pc =
    Waiting                \<comment> \<open>before \<open>timer.C\<close> fires\<close>
  | Holding "nat option"   \<comment> \<open>in \<open>selectWinner\<close>, \<open>Engine.mu\<close> released, the entry pointer read\<close>
  | Chosen "bid option"    \<comment> \<open>\<open>selectWinner\<close> has returned\<close>
  | Finishing              \<comment> \<open>only the deferred \<open>Cleanup\<close> is left\<close>

record auction_run =
  rIntent :: intent
  rPc :: run_pc

datatype engine_event =
    Started nat intent
  | StartRefused intent auction_error
  | BidAppended nat bid
  | BidRefused bid auction_error
  | Scanned nat
  | Emitted nat voucher
  | Dropped nat voucher
  | NoBids nat
  | Cleaned nat
  | Taken voucher

record system =
  sEngine :: engine
  sRuns :: "nat \<rightharpoonup> auction_run"
  sSubs :: "nat \<rightharpoonup> bid \<times> nat"
  sCrashed :: bool
  sLog :: "engine_event list"

definition initSystem :: "nat \<Rightarrow> 64 word \<Rightarrow> system" where
  "initSystem voucherBufSize auctionTimeout =
     \<lparr>sEngine = NewEngine voucherBufSize auctionTimeout, sRuns = Map.empty, sSubs = Map.empty,
      sCrashed = False, sLog = []\<rparr>"

definition setPc :: "nat \<Rightarrow> auction_run \<Rightarrow> run_pc \<Rightarrow> system \<Rightarrow> system" where
  "setPc p r pc s = s\<lparr>sRuns := (sRuns s)(p \<mapsto> r\<lparr>rPc := pc\<rparr>)\<rparr>"

definition logEvent :: "engine_event \<Rightarrow> system \<Rightarrow> system" where
  "logEvent ev s = s\<lparr>sLog := sLog s @ [ev]\<rparr>"

text \<open>A call of \<open>StartAuction\<close>: registration under \<open>Engine.mu\<close>, then the new goroutine.\<close>

definition startSection :: "go_time \<Rightarrow> intent \<Rightarrow> system \<Rightarrow> system" where
  "startSection now i s =
     (case StartAuction now i (sEngine s) of
        Inl err \<Rightarrow> logEvent (StartRefused i err) s
      | Inr e \<Rightarrow>
          logEvent (Started (eNext (sEngine s)) i)
            (s\<lparr>sEngine := e,
               sRuns := (sRuns s)(eNext (sEngine s) \<mapsto> \<lparr>rIntent = i, rPc = Waiting\<rparr>)\<rparr>))"

text \<open>
  The two sections of \<open>SubmitBid\<close>, run by goroutine \<open>t\<close>: the nil checks and the lookup, which
  may refuse the bid, and the append to the entry that was looked up.
\<close>

definition lookupSection :: "nat \<Rightarrow> bid \<Rightarrow> system \<Rightarrow> system" where
  "lookupSection t b s =
     (if bAmountOut b = None then logEvent (BidRefused b (AmountOutNil (bIntentID b))) s
      else if bGasPrice b = None then logEvent (BidRefused b (GasPriceNil (bIntentID b))) s
      else case lookupEntry (bIntentID b) (sEngine s) of
             None \<Rightarrow> logEvent (BidRefused b (AuctionNotFound (bIntentID b))) s
           | Some p \<Rightarrow> s\<lparr>sSubs := (sSubs s)(t \<mapsto> (b, p))\<rparr>)"

definition appendSection :: "nat \<Rightarrow> bid \<Rightarrow> nat \<Rightarrow> system \<Rightarrow> system" where
  "appendSection t b p s =
     logEvent (BidAppended p b)
       (s\<lparr>sEngine := appendBid b p (sEngine s), sSubs := (sSubs s)(t := None)\<rparr>)"

text \<open>The sections of \<open>runAuction\<close> for the auction at address \<open>p\<close>.\<close>

definition timerSection :: "nat \<Rightarrow> auction_run \<Rightarrow> system \<Rightarrow> system" where
  "timerSection p r s = setPc p r (Holding (lookupEntry (iID (rIntent r)) (sEngine s))) s"

definition scanSection :: "nat \<Rightarrow> auction_run \<Rightarrow> nat option \<Rightarrow> system \<Rightarrow> system" where
  "scanSection p r entry s =
     (case entry of
        None \<Rightarrow> setPc p r (Chosen None) s
      | Some q \<Rightarrow>
          (case scanEntry q (sEngine s) of
             Inl _ \<Rightarrow> s\<lparr>sCrashed := True\<rparr>
           | Inr w \<Rightarrow> logEvent (Scanned p) (setPc p r (Chosen w) s)))"

definition publishSection :: "go_time \<Rightarrow> nat \<Rightarrow> auction_run \<Rightarrow> bid option \<Rightarrow> system \<Rightarrow> system" where
  "publishSection now p r winner s =
     (case winner of
        None \<Rightarrow> logEvent (NoBids p) (setPc p r Finishing s)
      | Some w \<Rightarrow>
          (let v = newVoucher now (rIntent r) w in
           case emitVoucher v (sEngine s) of
             Inl _ \<Rightarrow> s\<lparr>sCrashed := True\<rparr>
           | Inr (sent, e) \<Rightarrow>
               logEvent (if sent then Emitted p v else Dropped p v)
                 (setPc p r Finishing (s\<lparr>sEngine := e\<rparr>))))"

definition cleanupSection :: "nat \<Rightarrow> auction_run \<Rightarrow> system \<Rightarrow> system" where
  "cleanupSection p r s =
     logEvent (Cleaned p)
       (s\<lparr>sEngine := Cleanup (iID (rIntent r)) (sEngine s), sRuns := (sRuns s)(p := None)\<rparr>)"

text \<open>The consumer of \<open>Vouchers()\<close> receives one voucher.\<close>

definition takeSection :: "system \<Rightarrow> system" where
  "takeSection s =
     (case chan_recv (eVoucherCh (sEngine s)) of
        (Received v, ch) \<Rightarrow> logEvent (Taken v) (s\<lparr>sEngine := (sEngine s)\<lparr>eVoucherCh := ch\<rparr>\<rparr>)
      | _ \<Rightarrow> s)"

inductive engine_step :: "system \<Rightarrow> system \<Rightarrow> bool" where
  start: "engine_step s (startSection now i s)"
| lookup: "sSubs s t = None \<Longrightarrow> engine_step s (lookupSection t b s)"
| append: "sSubs s t = Some (b, p) \<Longrightarrow> engine_step s (appendSection t b p s)"
| timer: "sRuns s p = Some r \<Longrightarrow> rPc r = Waiting \<Longrightarrow> engine_step s (timerSection p r s)"
| scan: "sRuns s p = Some r \<Longrightarrow> rPc r = Holding q \<Longrightarrow> engine_step s (scanSection p r q s)"
| publish: "sRuns s p = Some r \<Longrightarrow> rPc r = Chosen w \<Longrightarrow> engine_step s (publishSection now p r w s)"
| cleanup: "sRuns s p = Some r \<Longrightarrow> rPc r = Finishing \<Longrightarrow> engine_step s (cleanupSection p r s)"
| take: "engine_step s (takeSection s)"

inductive engine_reach :: "nat \<Rightarrow> 64 word \<Rightarrow> system \<Rightarrow> bool" for n timeout where
  init: "engine_reach n timeout (initSystem n timeout)"
| step: "engine_reach n timeout s \<Longrightarrow> engine_step s s' \<Longrightarrow> engine_reach n timeout s'"

lemmas section_defs = startSection_def lookupSection_def appendSection_def timerSection_def
  scanSection_def publishSection_def cleanupSection_def takeSection_def logEvent_def setPc_def

subsection \<open>The structural invariant\<close>

text \<open>
  A running auction owns its entry: the map sends the id of its intent to its address, the entry at
  that address was made for the same intent, and the pointer it reads in \<open>selectWinner\<close> is its own.
  Conversely every key of the map belongs to a running auction. A submission in flight holds the
  address of an entry of the intent it bids for, which may no longer be in the map.
\<close>

definition run_ok :: "engine \<Rightarrow> nat \<Rightarrow> auction_run \<Rightarrow> bool" where
  "run_ok e p r \<longleftrightarrow>
     eAuctions e (iID (rIntent r)) = Some p \<and>
     (\<exists>en. eHeap e p = Some en \<and> aeIntent en = rIntent r) \<and>
     (\<forall>q. rPc r = Holding q \<longrightarrow> q = Some p) \<and>
     (\<forall>w. rPc r = Chosen (Some w) \<longrightarrow> bid_priced w \<and> bIntentID w = iID (rIntent r))"

definition sub_ok :: "engine \<Rightarrow> bid \<Rightarrow> nat \<Rightarrow> bool" where
  "sub_ok e b p \<longleftrightarrow>
     bid_priced b \<and> (\<exists>en. eHeap e p = Some en \<and> iID (aeIntent en) = bIntentID b)"

definition sys_ok :: "system \<Rightarrow> bool" where
  "sys_ok s \<longleftrightarrow>
     engine_ok (sEngine s) \<and> \<not> sCrashed s \<and>
     (\<forall>p r. sRuns s p = Some r \<longrightarrow> run_ok (sEngine s) p r) \<and>
     (\<forall>iid p. eAuctions (sEngine s) iid = Some p \<longrightarrow> sRuns s p \<noteq> None) \<and>
     (\<forall>t b p. sSubs s t = Some (b, p) \<longrightarrow> sub_ok (sEngine s) b p)"

lemma sys_okD:
  assumes "sys_ok s"
  shows "engine_ok (sEngine s)" and "\<not> sCrashed s"
    and "sRuns s p = Some r \<Longrightarrow> run_ok (sEngine s) p r"
    and "eAuctions (sEngine s) iid = Some p \<Longrightarrow> \<exists>r. sRuns s p = Some r"
    and "sSubs s t = Some (b, p) \<Longrightarrow> sub_ok (sEngine s) b p"
  using assms by (auto simp: sys_ok_def)

lemma initSystem_ok [simp]: "sys_ok (initSystem n timeout)"
  by (simp add: sys_ok_def initSystem_def) (simp add: NewEngine_def)

lemma logEvent_ok [simp]: "sys_ok (logEvent ev s) = sys_ok s"
  by (simp add: sys_ok_def logEvent_def)

lemma startSection_ok [wf_rules]:
  assumes "sys_ok s"
  shows "sys_ok (startSection now i s)"
proof (cases "StartAuction now i (sEngine s)")
  case (Inl err)
  with assms show ?thesis by (simp add: startSection_def)
next
  case (Inr e)
  let ?p = "eNext (sEngine s)"
  have ok: "engine_ok (sEngine s)" by (rule sys_okD(1) [OF assms])
  have e: "eAuctions e = (eAuctions (sEngine s))(iID i \<mapsto> ?p)"
      "eHeap e = (eHeap (sEngine s))(?p \<mapsto> \<lparr>aeBids = [], aeIntent = i, aeStartedAt = now\<rparr>)"
      "eAuctions (sEngine s) (iID i) = None"
    using Inr by (auto simp: StartAuction_def split: option.splits)
  have run: "run_ok e p r" if "p \<noteq> ?p" "run_ok (sEngine s) p r" for p r
    using that e by (auto simp: run_ok_def)
  have sub: "sub_ok e b p" if "sub_ok (sEngine s) b p" for b p
    using that e engine_next_free(1) [OF ok] by (auto simp: sub_ok_def)
  have new: "run_ok e ?p \<lparr>rIntent = i, rPc = Waiting\<rparr>"
    using e by (auto simp: run_ok_def)
  have "sys_ok (s\<lparr>sEngine := e, sRuns := (sRuns s)(?p \<mapsto> \<lparr>rIntent = i, rPc = Waiting\<rparr>)\<rparr>)"
    using StartAuction_ok [OF ok Inr] sys_okD(2-5) [OF assms] run sub new e
    by (auto simp: sys_ok_def)
  with Inr show ?thesis by (simp add: startSection_def)
qed

lemma lookupSection_ok [wf_rules]:
  assumes "sys_ok s"
  shows "sys_ok (lookupSection t b s)"
proof (cases "bid_priced b \<and> lookupEntry (bIntentID b) (sEngine s) \<noteq> None")
  case True
  then obtain p where p: "eAuctions (sEngine s) (bIntentID b) = Some p"
    by (auto simp: lookupEntry_def)
  with True engine_okD(3) [OF sys_okD(1) [OF assms] p] have "sub_ok (sEngine s) b p"
    by (auto simp: sub_ok_def)
  with assms p True show ?thesis
    by (auto simp: lookupSection_def lookupEntry_def sys_ok_def bid_priced_def)
next
  case False
  with assms show ?thesis
    by (auto simp: lookupSection_def bid_priced_def split: option.splits)
qed

lemma appendSection_ok [wf_rules]:
  assumes "sys_ok s" and "sSubs s t = Some (b, p)"
  shows "sys_ok (appendSection t b p s)"
proof -
  from sys_okD(5) [OF assms] obtain en where en: "eHeap (sEngine s) p = Some en" "bid_priced b"
      "bIntentID b = iID (aeIntent en)" by (auto simp: sub_ok_def)
  let ?e = "appendBid b p (sEngine s)"
  have ok: "engine_ok ?e" by (rule appendBid_ok [OF sys_okD(1) [OF assms(1)] en])
  have run: "run_ok ?e q r" if "run_ok (sEngine s) q r" for q r
    using that en by (auto simp: run_ok_def appendBid_def)
  have sub: "sub_ok ?e c q" if "sub_ok (sEngine s) c q" for c q
    using that en by (auto simp: sub_ok_def appendBid_def)
  have maps: "eAuctions ?e = eAuctions (sEngine s)"
    by (simp add: appendBid_def split: option.split)
  show ?thesis
    using sys_okD(2-5) [OF assms(1)] ok run sub
    by (auto simp: appendSection_def sys_ok_def logEvent_def maps split: if_splits)
qed

lemma setPc_ok:
  assumes "sys_ok s" and "run_ok (sEngine s) p (r\<lparr>rPc := pc\<rparr>)"
  shows "sys_ok (setPc p r pc s)"
  using assms by (auto simp: sys_ok_def setPc_def)

lemma timerSection_ok [wf_rules]:
  assumes "sys_ok s" and "sRuns s p = Some r"
  shows "sys_ok (timerSection p r s)"
  using sys_okD(3) [OF assms]
  by (auto simp: timerSection_def run_ok_def lookupEntry_def intro!: setPc_ok [OF assms(1)])

lemma run_scan:
  assumes "sys_ok s" and "sRuns s p = Some r" and "rPc r = Holding q"
  obtains en where "q = Some p" and "eHeap (sEngine s) p = Some en" and "aeIntent en = rIntent r"
    and "scanEntry p (sEngine s) = Inr (best_bid (aeBids en))"
    and "\<forall>b \<in> set (aeBids en). bid_priced b \<and> bIntentID b = iID (rIntent r)"
proof -
  from sys_okD(3) [OF assms(1,2)] assms(3) obtain en where en: "q = Some p"
      "eHeap (sEngine s) p = Some en" "aeIntent en = rIntent r" by (auto simp: run_ok_def)
  from engine_okD(5) [OF sys_okD(1) [OF assms(1)] en(2)] en(3)
  have bids: "\<forall>b \<in> set (aeBids en). bid_priced b \<and> bIntentID b = iID (rIntent r)"
    by (simp add: entry_ok_def)
  then have "scanEntry p (sEngine s) = Inr (best_bid (aeBids en))"
    using en(2) by (simp add: scanEntry_def winner_scan_best_bid)
  with en bids that show thesis by blast
qed

lemma scanSection_ok [wf_rules]:
  assumes "sys_ok s" and "sRuns s p = Some r" and "rPc r = Holding q"
  shows "sys_ok (scanSection p r q s)"
proof (rule run_scan [OF assms])
  fix en
  assume en: "q = Some p" "eHeap (sEngine s) p = Some en" "aeIntent en = rIntent r"
    "scanEntry p (sEngine s) = Inr (best_bid (aeBids en))"
    "\<forall>b \<in> set (aeBids en). bid_priced b \<and> bIntentID b = iID (rIntent r)"
  then have "run_ok (sEngine s) p (r\<lparr>rPc := Chosen (best_bid (aeBids en))\<rparr>)"
    using sys_okD(3) [OF assms(1,2)] best_bid_mem by (auto simp: run_ok_def)
  from setPc_ok [OF assms(1) this] en show ?thesis by (simp add: scanSection_def)
qed

text \<open>The send touches only the channel.\<close>

lemma emitVoucher_frame:
  "emitVoucher v e = Inr (sent, e') \<Longrightarrow>
     eAuctions e' = eAuctions e \<and> eHeap e' = eHeap e \<and> eNext e' = eNext e"
  by (auto simp: emitVoucher_def split: sum.splits)

lemma run_ok_frame:
  "eAuctions e' = eAuctions e \<Longrightarrow> eHeap e' = eHeap e \<Longrightarrow> run_ok e' p r = run_ok e p r"
  "eHeap e' = eHeap e \<Longrightarrow> sub_ok e' b p = sub_ok e b p"
  by (simp_all add: run_ok_def sub_ok_def)

lemma sys_ok_frame:
  assumes "sys_ok s" and "engine_ok e'"
    and "eAuctions e' = eAuctions (sEngine s)" and "eHeap e' = eHeap (sEngine s)"
  shows "sys_ok (s\<lparr>sEngine := e'\<rparr>)"
  using assms run_ok_frame(1) [OF assms(3,4)] run_ok_frame(2) [OF assms(4)]
  by (simp add: sys_ok_def)

lemma run_publish:
  assumes "sys_ok s" and "sRuns s p = Some r" and "rPc r = Chosen (Some w)"
  obtains sent e' where "emitVoucher (newVoucher now (rIntent r) w) (sEngine s) = Inr (sent, e')"
    and "engine_ok e'" and "eAuctions e' = eAuctions (sEngine s)" and "eHeap e' = eHeap (sEngine s)"
    and "eNext e' = eNext (sEngine s)"
proof -
  from sys_okD(3) [OF assms(1,2)] assms(3) have "voucher_ok (newVoucher now (rIntent r) w)"
    by (intro newVoucher_ok) (auto simp: run_ok_def)
  from emitVoucher_run [OF sys_okD(1) [OF assms(1)] this] emitVoucher_frame that
  show thesis by metis
qed

lemma publishSection_ok [wf_rules]:
  assumes "sys_ok s" and "sRuns s p = Some r" and "rPc r = Chosen w"
  shows "sys_ok (publishSection now p r w s)"
proof (cases w)
  case None
  with sys_okD(3) [OF assms(1,2)] show ?thesis
    by (auto simp: publishSection_def run_ok_def intro!: setPc_ok [OF assms(1)])
next
  case (Some b)
  obtain sent e' where e': "emitVoucher (newVoucher now (rIntent r) b) (sEngine s) = Inr (sent, e')"
      "engine_ok e'" "eAuctions e' = eAuctions (sEngine s)" "eHeap e' = eHeap (sEngine s)"
    using run_publish [OF assms(1,2), of b now] assms(3) Some by metis
  have "run_ok e' p (r\<lparr>rPc := Finishing\<rparr>)"
    using sys_okD(3) [OF assms(1,2)] e' by (auto simp: run_ok_def)
  then have "sys_ok (setPc p r Finishing (s\<lparr>sEngine := e'\<rparr>))"
    by (intro setPc_ok sys_ok_frame [OF assms(1) e'(2-4)]) simp
  with e'(1) Some show ?thesis by (simp add: publishSection_def Let_def)
qed

lemma cleanupSection_ok [wf_rules]:
  assumes "sys_ok s" and "sRuns s p = Some r"
  shows "sys_ok (cleanupSection p r s)"
proof -
  let ?e = "Cleanup (iID (rIntent r)) (sEngine s)"
  have own: "eAuctions (sEngine s) (iID (rIntent r)) = Some p"
    using sys_okD(3) [OF assms] by (simp add: run_ok_def)
  have run: "run_ok ?e q r'" if "q \<noteq> p" "run_ok (sEngine s) q r'" for q r'
    using that own by (auto simp: run_ok_def Cleanup_def)
  have sub: "sub_ok ?e b q = sub_ok (sEngine s) b q" for b q
    by (simp add: sub_ok_def Cleanup_def)
  have others: "q \<noteq> p \<and> sRuns s q \<noteq> None" if "eAuctions ?e iid = Some q" for iid q
  proof -
    from that have "eAuctions (sEngine s) iid = Some q" "iid \<noteq> iID (rIntent r)"
      by (auto simp: Cleanup_def split: if_splits)
    then show ?thesis
      using sys_okD(4) [OF assms(1), of iid q] engine_auctions_inj [OF sys_okD(1) [OF assms(1)] _ own]
      by auto
  qed
  have "sys_ok (s\<lparr>sEngine := ?e, sRuns := (sRuns s)(p := None)\<rparr>)"
    unfolding sys_ok_def
    using sys_okD [OF assms(1)] Cleanup_ok [OF sys_okD(1) [OF assms(1)], of "iID (rIntent r)"]
    by (intro conjI allI impI) (auto simp: sub run dest!: others split: if_splits)
  then show ?thesis by (simp add: cleanupSection_def)
qed

lemma takeSection_ok [wf_rules]:
  assumes "sys_ok s"
  shows "sys_ok (takeSection s)"
proof (cases "chBuf (eVoucherCh (sEngine s))")
  case Nil
  with assms show ?thesis by (simp add: takeSection_def chan_recv_def)
next
  case (Cons v vs)
  let ?e = "(sEngine s)\<lparr>eVoucherCh := (eVoucherCh (sEngine s))\<lparr>chBuf := vs\<rparr>\<rparr>"
  have "engine_ok ?e"
    using sys_okD(1) [OF assms] Cons by (auto simp: engine_ok_def)
  from sys_ok_frame [OF assms this] Cons show ?thesis
    by (simp add: takeSection_def chan_recv_def)
qed

lemma engine_step_ok: "engine_step s s' \<Longrightarrow> sys_ok s \<Longrightarrow> sys_ok s'"
  by (induction rule: engine_step.induct) (auto intro: wf_rules)

lemma engine_reach_ok: "engine_reach n timeout s \<Longrightarrow> sys_ok s"
  by (induction rule: engine_reach.induct) (auto intro: engine_step_ok)

subsection \<open>The history of an entry\<close>

text \<open>
  What the history says about the entry at one address: the bids whose submission returned without
  an error, in order, and the outcome of its auction.
\<close>

fun appended :: "nat \<Rightarrow> engine_event list \<Rightarrow> bid list" where
  "appended p [] = []"
| "appended p (ev # log) =
     (case ev of BidAppended q b \<Rightarrow> (if q = p then [b] else []) | _ \<Rightarrow> []) @ appended p log"

fun is_outcome :: "nat \<Rightarrow> engine_event \<Rightarrow> bool" where
  "is_outcome p (Emitted q v) = (q = p)"
| "is_outcome p (Dropped q v) = (q = p)"
| "is_outcome p (NoBids q) = (q = p)"
| "is_outcome p _ = False"

fun event_addr :: "engine_event \<Rightarrow> nat option" where
  "event_addr (Started p i) = Some p"
| "event_addr (BidAppended p b) = Some p"
| "event_addr (Scanned p) = Some p"
| "event_addr (Emitted p v) = Some p"
| "event_addr (Dropped p v) = Some p"
| "event_addr (NoBids p) = Some p"
| "event_addr (Cleaned p) = Some p"
| "event_addr _ = None"

text \<open>The winner \<open>w\<close> is the best of the bids appended before the scan of the entry.\<close>

definition scanned_at :: "nat \<Rightarrow> engine_event list \<Rightarrow> bid option \<Rightarrow> bool" where
  "scanned_at p log w \<longleftrightarrow>
     (\<exists>l1 l2. log = l1 @ Scanned p # l2 \<and> w = best_bid (appended p l1))"

fun outcome_ok :: "intent \<Rightarrow> nat \<Rightarrow> engine_event list \<Rightarrow> engine_event \<Rightarrow> bool" where
  "outcome_ok i p log (Emitted q v) =
     (q = p \<longrightarrow> (\<exists>w now. scanned_at p log (Some w) \<and> v = newVoucher now i w))"
| "outcome_ok i p log (Dropped q v) =
     (q = p \<longrightarrow> (\<exists>w now. scanned_at p log (Some w) \<and> v = newVoucher now i w))"
| "outcome_ok i p log (NoBids q) = (q = p \<longrightarrow> scanned_at p log None)"
| "outcome_ok i p log _ = True"

definition run_hist :: "nat \<Rightarrow> engine_event list \<Rightarrow> auction_run \<Rightarrow> bool" where
  "run_hist p log r \<longleftrightarrow>
     (rPc r \<noteq> Finishing \<longrightarrow> filter (is_outcome p) log = []) \<and>
     (\<forall>w. rPc r = Chosen w \<longrightarrow> scanned_at p log w)"

definition entry_hist :: "nat \<Rightarrow> engine_event list \<Rightarrow> auctionEntry \<Rightarrow> bool" where
  "entry_hist p log en \<longleftrightarrow>
     aeBids en = appended p log \<and> (\<forall>i. Started p i \<in> set log \<longleftrightarrow> i = aeIntent en) \<and>
     length (filter (is_outcome p) log) \<le> 1 \<and> (\<forall>ev \<in> set log. outcome_ok (aeIntent en) p log ev)"

definition hist_at :: "system \<Rightarrow> nat \<Rightarrow> bool" where
  "hist_at s p \<longleftrightarrow>
     (\<forall>ev \<in> set (sLog s). event_addr ev = Some p \<longrightarrow> eHeap (sEngine s) p \<noteq> None) \<and>
     (\<forall>en. eHeap (sEngine s) p = Some en \<longrightarrow> entry_hist p (sLog s) en) \<and>
     (\<forall>r. sRuns s p = Some r \<longrightarrow> run_hist p (sLog s) r)"

lemma appended_append [simp]: "appended p (l1 @ l2) = appended p l1 @ appended p l2"
  by (induction l1) auto

lemma appended_irrelevant: "\<forall>ev \<in> set log. event_addr ev \<noteq> Some p \<Longrightarrow> appended p log = []"
  by (induction log) (auto split: engine_event.splits)

lemma is_outcome_addr: "is_outcome p ev \<Longrightarrow> event_addr ev = Some p"
  by (cases ev) auto

lemma scanned_at_mono: "scanned_at p log w \<Longrightarrow> scanned_at p (log @ l) w"
  unfolding scanned_at_def by (metis append.assoc append_Cons)

lemma scanned_at_now: "w = best_bid (appended p log) \<Longrightarrow> scanned_at p (log @ [Scanned p]) w"
  unfolding scanned_at_def by blast

lemma outcome_ok_mono: "outcome_ok i p log ev \<Longrightarrow> outcome_ok i p (log @ l) ev"
  by (cases ev) (auto intro: scanned_at_mono)

lemma outcome_ok_irrelevant: "event_addr ev \<noteq> Some p \<Longrightarrow> outcome_ok i p log ev"
  by (cases ev) auto

lemma run_hist_extend:
  "run_hist p log r \<Longrightarrow> \<not> is_outcome p ev \<Longrightarrow> run_hist p (log @ [ev]) r"
  by (auto simp: run_hist_def intro: scanned_at_mono)

lemma run_hist_other:
  "run_hist p log r \<Longrightarrow> event_addr ev \<noteq> Some p \<Longrightarrow> run_hist p (log @ [ev]) r"
  by (blast intro: run_hist_extend dest: is_outcome_addr)

lemma entry_hist_extend:
  "entry_hist p log en \<Longrightarrow> event_addr ev \<noteq> Some p \<or> ev = Scanned p \<or> ev = Cleaned p \<Longrightarrow>
     entry_hist p (log @ [ev]) en"
  by (cases ev) (auto simp: entry_hist_def intro: outcome_ok_mono)

text \<open>Steps that concern another address, or only lengthen the history, change nothing for \<open>p\<close>.\<close>

lemma hist_at_other:
  assumes "hist_at s p" and "eHeap (sEngine s') p = eHeap (sEngine s) p" and "sRuns s' p = sRuns s p"
    and "sLog s' = sLog s \<or> (\<exists>ev. sLog s' = sLog s @ [ev] \<and> event_addr ev \<noteq> Some p)"
  shows "hist_at s' p"
  using assms
  by (auto simp: hist_at_def intro: entry_hist_extend run_hist_other)

lemma hist_at_unused:
  assumes "hist_at s p" and "eHeap (sEngine s) p = None"
  shows "\<forall>ev \<in> set (sLog s). event_addr ev \<noteq> Some p" and "appended p (sLog s) = []"
    and "filter (is_outcome p) (sLog s) = []"
proof -
  show none: "\<forall>ev \<in> set (sLog s). event_addr ev \<noteq> Some p"
    using assms by (auto simp: hist_at_def)
  then show "appended p (sLog s) = []" by (rule appended_irrelevant)
  show "filter (is_outcome p) (sLog s) = []"
    using none is_outcome_addr by (auto simp: filter_empty_conv)
qed

named_theorems hist_rules "sections keep the history of every entry"

lemma startSection_hist [hist_rules]:
  assumes "sys_ok s" and hist: "\<And>q. hist_at s q"
  shows "hist_at (startSection now i s) q"
proof (cases "StartAuction now i (sEngine s)")
  case (Inl err)
  then show ?thesis
    by (intro hist_at_other [OF hist]) (auto simp: startSection_def logEvent_def)
next
  case (Inr e)
  let ?p = "eNext (sEngine s)"
  have heap: "eHeap e = (eHeap (sEngine s))(?p \<mapsto> \<lparr>aeBids = [], aeIntent = i, aeStartedAt = now\<rparr>)"
    using Inr by (auto simp: StartAuction_def split: option.splits)
  show ?thesis
  proof (cases "q = ?p")
    case False
    with Inr heap show ?thesis
      by (intro hist_at_other [OF hist]) (auto simp: startSection_def logEvent_def)
  next
    case True
    note un = hist_at_unused [OF hist engine_next_free(1) [OF sys_okD(1) [OF assms(1)]]]
    have "Started ?p j \<notin> set (sLog s)" for j using un(1) by force
    moreover have "\<forall>ev \<in> set (sLog s). outcome_ok i ?p l ev" for l
      using un(1) by (auto intro: outcome_ok_irrelevant)
    ultimately show ?thesis
      using True Inr heap un
      by (auto simp: startSection_def logEvent_def hist_at_def entry_hist_def run_hist_def)
  qed
qed

lemma lookupSection_hist [hist_rules]:
  "(\<And>q. hist_at s q) \<Longrightarrow> hist_at (lookupSection t b s) q"
  by (rule hist_at_other [of s]) (auto simp: lookupSection_def logEvent_def split: option.splits)

lemma appendSection_hist [hist_rules]:
  assumes "sys_ok s" and hist: "\<And>q. hist_at s q" and "sSubs s t = Some (b, p)"
  shows "hist_at (appendSection t b p s) q"
proof -
  from sys_okD(5) [OF assms(1,3)] obtain en where en: "eHeap (sEngine s) p = Some en"
    by (auto simp: sub_ok_def)
  have log: "sLog (appendSection t b p s) = sLog s @ [BidAppended p b]"
    and runs: "sRuns (appendSection t b p s) = sRuns s"
    and heap: "eHeap (sEngine (appendSection t b p s)) =
      (eHeap (sEngine s))(p \<mapsto> en\<lparr>aeBids := aeBids en @ [b]\<rparr>)"
    using en by (auto simp: appendSection_def logEvent_def appendBid_def)
  show ?thesis
  proof (cases "q = p")
    case False
    then show ?thesis by (intro hist_at_other [OF hist]) (auto simp: log runs heap)
  next
    case True
    have "entry_hist p (sLog s) en" using hist [of p] en by (simp add: hist_at_def)
    then have "entry_hist p (sLog s @ [BidAppended p b]) (en\<lparr>aeBids := aeBids en @ [b]\<rparr>)"
      by (auto simp: entry_hist_def intro: outcome_ok_mono)
    moreover have "run_hist p (sLog s @ [BidAppended p b]) r" if "sRuns s p = Some r" for r
      using hist [of p] that by (auto simp: hist_at_def intro: run_hist_extend)
    ultimately show ?thesis by (auto simp: True hist_at_def log runs heap)
  qed
qed

text \<open>A section of the auction at \<open>p\<close> itself: the entry is there, the goroutine moves.\<close>

lemma hist_at_own:
  assumes "sys_ok s" and "sRuns s p = Some r" and "hist_at s p"
    and "eHeap (sEngine s') = eHeap (sEngine s)"
    and "\<And>en. entry_hist p (sLog s) en \<Longrightarrow> aeIntent en = rIntent r \<Longrightarrow> entry_hist p (sLog s') en"
    and "\<And>r'. sRuns s' p = Some r' \<Longrightarrow> run_hist p (sLog s') r'"
  shows "hist_at s' p"
proof -
  from sys_okD(3) [OF assms(1,2)] obtain en where "eHeap (sEngine s) p = Some en"
      "aeIntent en = rIntent r" by (auto simp: run_ok_def)
  with assms(3-6) show ?thesis by (auto simp: hist_at_def)
qed

lemma timerSection_hist [hist_rules]:
  assumes "sys_ok s" and hist: "\<And>q. hist_at s q" and run: "sRuns s p = Some r" "rPc r = Waiting"
  shows "hist_at (timerSection p r s) q"
proof (cases "q = p")
  case False
  then show ?thesis
    by (intro hist_at_other [OF hist]) (auto simp: timerSection_def setPc_def)
next
  case True
  show ?thesis unfolding True
    using hist [of p] run
    by (intro hist_at_own [OF assms(1) run(1) hist])
       (auto simp: timerSection_def setPc_def hist_at_def run_hist_def)
qed

lemma scanSection_hist [hist_rules]:
  assumes "sys_ok s" and hist: "\<And>q. hist_at s q" and run: "sRuns s p = Some r" "rPc r = Holding h"
  shows "hist_at (scanSection p r h s) q"
proof -
  obtain en where en: "h = Some p" "eHeap (sEngine s) p = Some en"
      "scanEntry p (sEngine s) = Inr (best_bid (aeBids en))"
    by (rule run_scan [OF assms(1) run])
  then have s': "scanSection p r h s = logEvent (Scanned p) (setPc p r (Chosen (best_bid (aeBids en))) s)"
    by (simp add: scanSection_def)
  show ?thesis
  proof (cases "q = p")
    case False
    then show ?thesis
      by (intro hist_at_other [OF hist]) (auto simp: s' setPc_def logEvent_def)
  next
    case True
    have "aeBids en = appended p (sLog s)"
      using hist [of p] en(2) by (auto simp: hist_at_def entry_hist_def)
    moreover have "filter (is_outcome p) (sLog s) = []"
      using hist [of p] run by (auto simp: hist_at_def run_hist_def)
    ultimately show ?thesis unfolding True
      by (intro hist_at_own [OF assms(1) run(1) hist])
         (auto simp: s' setPc_def logEvent_def run_hist_def
           intro: entry_hist_extend scanned_at_now)
  qed
qed

lemma entry_hist_outcome:
  assumes "entry_hist p log en" and "filter (is_outcome p) log = []" and "is_outcome p ev"
    and "outcome_ok (aeIntent en) p log ev"
  shows "entry_hist p (log @ [ev]) en"
proof -
  have "outcome_ok (aeIntent en) p (log @ [ev]) ev'" if "ev' \<in> set (log @ [ev])" for ev'
    using that assms(1,4) outcome_ok_mono by (auto simp: entry_hist_def)
  moreover have "appended p [ev] = []" "Started p i \<noteq> ev" for i
    using assms(3) by (cases ev; simp)+
  ultimately show ?thesis using assms(1-3) by (auto simp: entry_hist_def)
qed

lemma publishSection_run:
  assumes "sys_ok s" and run: "sRuns s p = Some r" "rPc r = Chosen w"
  shows "\<exists>e' ev. publishSection now p r w s = logEvent ev (setPc p r Finishing (s\<lparr>sEngine := e'\<rparr>)) \<and>
    eHeap e' = eHeap (sEngine s) \<and> is_outcome p ev \<and>
    (scanned_at p (sLog s) w \<longrightarrow> outcome_ok (rIntent r) p (sLog s) ev)"
proof (cases w)
  case None
  then show ?thesis
    by (intro exI [of _ "sEngine s"] exI [of _ "NoBids p"]) (simp add: publishSection_def)
next
  case (Some b)
  obtain sent e' where e': "emitVoucher (newVoucher now (rIntent r) b) (sEngine s) = Inr (sent, e')"
      "eHeap e' = eHeap (sEngine s)"
    using run_publish [OF assms(1) run(1), of b now] run(2) Some by metis
  let ?v = "newVoucher now (rIntent r) b"
  from e' Some show ?thesis
    by (intro exI [of _ e'] exI [of _ "if sent then Emitted p ?v else Dropped p ?v"])
       (auto simp: publishSection_def Let_def)
qed

lemma publishSection_hist [hist_rules]:
  assumes "sys_ok s" and hist: "\<And>q. hist_at s q" and run: "sRuns s p = Some r" "rPc r = Chosen w"
  shows "hist_at (publishSection now p r w s) q"
proof -
  have scanned: "scanned_at p (sLog s) w" and none: "filter (is_outcome p) (sLog s) = []"
    using hist [of p] run by (auto simp: hist_at_def run_hist_def)
  then obtain e' ev where s': "publishSection now p r w s =
        logEvent ev (setPc p r Finishing (s\<lparr>sEngine := e'\<rparr>))" "eHeap e' = eHeap (sEngine s)"
      and ev: "is_outcome p ev" "outcome_ok (rIntent r) p (sLog s) ev"
    using publishSection_run [OF assms(1) run] by blast
  show ?thesis
  proof (cases "q = p")
    case False
    with is_outcome_addr [OF ev(1)] s' show ?thesis
      by (intro hist_at_other [OF hist]) (auto simp: setPc_def logEvent_def)
  next
    case True
    show ?thesis unfolding True
      using s' ev none
      by (intro hist_at_own [OF assms(1) run(1) hist])
         (auto simp: setPc_def logEvent_def run_hist_def intro: entry_hist_outcome)
  qed
qed

lemma cleanupSection_hist [hist_rules]:
  assumes "sys_ok s" and hist: "\<And>q. hist_at s q" and run: "sRuns s p = Some r"
  shows "hist_at (cleanupSection p r s) q"
proof (cases "q = p")
  case False
  then show ?thesis
    by (intro hist_at_other [OF hist]) (auto simp: cleanupSection_def logEvent_def Cleanup_def)
next
  case True
  show ?thesis unfolding True
    by (intro hist_at_own [OF assms(1) run hist])
       (auto simp: cleanupSection_def logEvent_def Cleanup_def intro: entry_hist_extend)
qed

lemma takeSection_hist [hist_rules]: "(\<And>q. hist_at s q) \<Longrightarrow> hist_at (takeSection s) q"
  by (rule hist_at_other [of s])
     (auto simp: takeSection_def logEvent_def chan_recv_def split: list.splits)

lemma engine_step_hist:
  "engine_step s s' \<Longrightarrow> sys_ok s \<Longrightarrow> (\<And>q. hist_at s q) \<Longrightarrow> hist_at s' q"
  by (induction rule: engine_step.induct) (blast intro: hist_rules)+

lemma engine_reach_hist: "engine_reach n timeout s \<Longrightarrow> hist_at s q"
proof (induction arbitrary: q rule: engine_reach.induct)
  case init
  show ?case by (simp add: hist_at_def initSystem_def NewEngine_def)
next
  case (step s s')
  show ?case by (rule engine_step_hist [OF step.hyps(2) engine_reach_ok [OF step.hyps(1)] step.IH])
qed

subsection \<open>The stages of an auction\<close>

text \<open>
  How often the entry at \<open>p\<close> was scanned and its auction decided is determined by where its goroutine is,
  and once it is gone by whether it has cleaned up: then both happened exactly once.
\<close>

definition scans :: "nat \<Rightarrow> engine_event list \<Rightarrow> nat" where
  "scans p log = length (filter (\<lambda>ev. ev = Scanned p) log)"

definition outcomes :: "nat \<Rightarrow> engine_event list \<Rightarrow> nat" where
  "outcomes p log = length (filter (is_outcome p) log)"

definition stage :: "auction_run option \<Rightarrow> bool \<Rightarrow> nat \<times> nat" where
  "stage run cleaned =
     (case run of
        None \<Rightarrow> if cleaned then (1, 1) else (0, 0)
      | Some r \<Rightarrow> (case rPc r of Waiting \<Rightarrow> (0, 0) | Holding _ \<Rightarrow> (0, 0) | Chosen _ \<Rightarrow> (1, 0) | Finishing \<Rightarrow> (1, 1)))"

definition stage_at :: "system \<Rightarrow> nat \<Rightarrow> bool" where
  "stage_at s p \<longleftrightarrow>
     (scans p (sLog s), outcomes p (sLog s)) = stage (sRuns s p) (Cleaned p \<in> set (sLog s)) \<and>
     (Cleaned p \<in> set (sLog s) \<longrightarrow> sRuns s p = None)"

lemma counts_append [simp]:
  "scans p (l1 @ l2) = scans p l1 + scans p l2" "outcomes p (l1 @ l2) = outcomes p l1 + outcomes p l2"
  by (simp_all add: scans_def outcomes_def)

lemma counts_simps [simp]:
  "scans p [] = 0" "outcomes p [] = 0"
  "scans p (ev # l) = (if ev = Scanned p then 1 else 0) + scans p l"
  "outcomes p (ev # l) = (if is_outcome p ev then 1 else 0) + outcomes p l"
  by (simp_all add: scans_def outcomes_def)

lemma counts_irrelevant:
  "\<forall>ev \<in> set log. event_addr ev \<noteq> Some p \<Longrightarrow> scans p log = 0 \<and> outcomes p log = 0 \<and> Cleaned p \<notin> set log"
  by (induction log) (auto dest: is_outcome_addr)

fun quiet :: "nat \<Rightarrow> engine_event \<Rightarrow> bool" where
  "quiet p (Scanned q) \<longleftrightarrow> q \<noteq> p"
| "quiet p (Cleaned q) \<longleftrightarrow> q \<noteq> p"
| "quiet p ev \<longleftrightarrow> \<not> is_outcome p ev"

lemma quietD: "quiet p ev \<Longrightarrow> ev \<noteq> Scanned p \<and> ev \<noteq> Cleaned p \<and> \<not> is_outcome p ev"
  by (cases ev) auto

lemma stage_at_quiet:
  assumes "stage_at s p" and "sRuns s' p = sRuns s p"
    and "sLog s' = sLog s \<or> (\<exists>ev. sLog s' = sLog s @ [ev] \<and> quiet p ev)"
  shows "stage_at s' p"
  using assms by (auto simp: stage_at_def dest: quietD)

named_theorems stage_rules "sections keep the stage of every auction"

lemma startSection_stage [stage_rules]:
  assumes "sys_ok s" and hist: "\<And>q. hist_at s q" and st: "\<And>q. stage_at s q"
  shows "stage_at (startSection now i s) q"
proof (cases "StartAuction now i (sEngine s)")
  case (Inl err)
  then show ?thesis by (intro stage_at_quiet [OF st]) (auto simp: startSection_def logEvent_def)
next
  case (Inr e)
  show ?thesis
  proof (cases "q = eNext (sEngine s)")
    case False
    with Inr show ?thesis by (intro stage_at_quiet [OF st]) (auto simp: startSection_def logEvent_def)
  next
    case True
    note un = hist_at_unused(1) [OF hist engine_next_free(1) [OF sys_okD(1) [OF assms(1)]]]
    from counts_irrelevant [OF un] True Inr show ?thesis
      by (simp add: stage_at_def stage_def startSection_def logEvent_def)
  qed
qed

lemma lookupSection_stage [stage_rules]: "(\<And>q. stage_at s q) \<Longrightarrow> stage_at (lookupSection t b s) q"
  by (rule stage_at_quiet [of s]) (auto simp: lookupSection_def logEvent_def split: option.splits)

lemma appendSection_stage [stage_rules]: "(\<And>q. stage_at s q) \<Longrightarrow> stage_at (appendSection t b p s) q"
  by (rule stage_at_quiet [of s]) (auto simp: appendSection_def logEvent_def)

lemma takeSection_stage [stage_rules]: "(\<And>q. stage_at s q) \<Longrightarrow> stage_at (takeSection s) q"
  by (rule stage_at_quiet [of s]) (auto simp: takeSection_def logEvent_def chan_recv_def split: list.splits)

lemma timerSection_stage [stage_rules]:
  assumes st: "\<And>q. stage_at s q" and run: "sRuns s p = Some r" "rPc r = Waiting"
  shows "stage_at (timerSection p r s) q"
  using st [of q] run by (cases "q = p") (auto simp: stage_at_def stage_def timerSection_def setPc_def)

lemma scanSection_stage [stage_rules]:
  assumes "sys_ok s" and st: "\<And>q. stage_at s q" and run: "sRuns s p = Some r" "rPc r = Holding h"
  shows "stage_at (scanSection p r h s) q"
proof -
  obtain w where "scanSection p r h s = logEvent (Scanned p) (setPc p r (Chosen w) s)"
    by (rule run_scan [OF assms(1) run]) (simp add: scanSection_def)
  with st [of q] run show ?thesis by (cases "q = p") (auto simp: stage_at_def stage_def logEvent_def setPc_def)
qed

lemma publishSection_stage [stage_rules]:
  assumes "sys_ok s" and st: "\<And>q. stage_at s q" and run: "sRuns s p = Some r" "rPc r = Chosen w"
  shows "stage_at (publishSection now p r w s) q"
proof -
  obtain e' ev where s': "publishSection now p r w s = logEvent ev (setPc p r Finishing (s\<lparr>sEngine := e'\<rparr>))"
      and ev: "is_outcome p ev"
    using publishSection_run [OF assms(1) run] by blast
  have "ev \<noteq> Scanned x" "ev \<noteq> Cleaned x" "is_outcome x ev \<longleftrightarrow> x = p" for x using ev by (cases ev; auto)+
  with s' st [of q] run show ?thesis by (cases "q = p") (auto simp: stage_at_def stage_def logEvent_def setPc_def)
qed

lemma cleanupSection_stage [stage_rules]:
  assumes st: "\<And>q. stage_at s q" and run: "sRuns s p = Some r" "rPc r = Finishing"
  shows "stage_at (cleanupSection p r s) q"
  using st [of q] run by (cases "q = p") (auto simp: stage_at_def stage_def cleanupSection_def logEvent_def)

lemma engine_step_stage:
  "engine_step s s' \<Longrightarrow> sys_ok s \<Longrightarrow> (\<And>q. hist_at s q) \<Longrightarrow> (\<And>q. stage_at s q) \<Longrightarrow> stage_at s' q"
  by (induction rule: engine_step.induct) (blast intro: stage_rules)+

lemma engine_reach_stage: "engine_reach n timeout s \<Longrightarrow> stage_at s q"
proof (induction arbitrary: q rule: engine_reach.induct)
  case init
  show ?case by (simp add: stage_at_def stage_def initSystem_def NewEngine_def)
next
  case (step s s')
  show ?case
    by (rule engine_step_stage [OF step.hyps(2) engine_reach_ok [OF step.hyps(1)] engine_reach_hist [OF step.hyps(1)] step.IH])
qed

lemma scans_le_one: "stage_at s p \<Longrightarrow> scans p (sLog s) \<le> 1"
  by (auto simp: stage_at_def stage_def split: option.splits run_pc.splits if_splits)

text \<open>So the scan of an entry splits the history in one way only.\<close>

lemma scan_unique:
  assumes "stage_at s p" and "sLog s = l1 @ Scanned p # l2" and "sLog s = k1 @ Scanned p # k2"
  shows "k1 = l1"
proof -
  have "scans p l1 = 0 \<and> scans p l2 = 0" using scans_le_one [OF assms(1)] assms(2) by simp
  then have "Scanned p \<notin> set l1" "Scanned p \<notin> set l2" by (auto simp: scans_def filter_empty_conv)
  from append_Cons_eq_iff [OF this, of k1 k2] show ?thesis using assms(2,3) by simp
qed

subsection \<open>Schedules\<close>

text \<open>
  A schedule names, step by step, which goroutine moves. The steps a schedule can make are exactly
  the steps of the relation, so a schedule is an executable run of the system.
\<close>

datatype engine_action =
    DoStart go_time intent
  | DoLookup nat bid
  | DoAppend nat
  | DoRun go_time nat
  | DoTake

definition runSection :: "go_time \<Rightarrow> nat \<Rightarrow> auction_run \<Rightarrow> system \<Rightarrow> system" where
  "runSection now p r s =
     (case rPc r of
        Waiting \<Rightarrow> timerSection p r s
      | Holding h \<Rightarrow> scanSection p r h s
      | Chosen w \<Rightarrow> publishSection now p r w s
      | Finishing \<Rightarrow> cleanupSection p r s)"

fun perform :: "engine_action \<Rightarrow> system \<Rightarrow> system option" where
  "perform (DoStart now i) s = Some (startSection now i s)"
| "perform (DoLookup t b) s = (if sSubs s t = None then Some (lookupSection t b s) else None)"
| "perform (DoAppend t) s = map_option (\<lambda>(b, p). appendSection t b p s) (sSubs s t)"
| "perform (DoRun now p) s = map_option (\<lambda>r. runSection now p r s) (sRuns s p)"
| "perform DoTake s = Some (takeSection s)"

fun performs :: "engine_action list \<Rightarrow> system \<Rightarrow> system option" where
  "performs [] s = Some s"
| "performs (a # as) s = (case perform a s of None \<Rightarrow> None | Some s' \<Rightarrow> performs as s')"

lemma runSection_step: "sRuns s p = Some r \<Longrightarrow> engine_step s (runSection now p r s)"
  by (cases "rPc r") (simp_all add: runSection_def engine_step.intros)

lemma perform_step: "perform a s = Some s' \<Longrightarrow> engine_step s s'"
  by (cases a) (auto intro: engine_step.intros runSection_step split: if_splits)

lemma step_perform: "engine_step s s' \<Longrightarrow> \<exists>a. perform a s = Some s'"
proof (induction rule: engine_step.induct)
  case (start s now i)
  show ?case by (rule exI [of _ "DoStart now i"]) simp
next
  case (lookup s t b)
  then show ?case by (intro exI [of _ "DoLookup t b"]) simp
next
  case (append s t b p)
  then show ?case by (intro exI [of _ "DoAppend t"]) simp
next
  case (timer s p r)
  then show ?case by (intro exI [of _ "DoRun undefined p"]) (simp add: runSection_def)
next
  case (scan s p r q)
  then show ?case by (intro exI [of _ "DoRun undefined p"]) (simp add: runSection_def)
next
  case (publish s p r w now)
  then show ?case by (intro exI [of _ "DoRun now p"]) (simp add: runSection_def)
next
  case (cleanup s p r)
  then show ?case by (intro exI [of _ "DoRun undefined p"]) (simp add: runSection_def)
next
  case (take s)
  show ?case by (rule exI [of _ DoTake]) simp
qed

lemma performs_reach:
  "engine_reach n timeout s \<Longrightarrow> performs as s = Some s' \<Longrightarrow> engine_reach n timeout s'"
  by (induction as arbitrary: s)
     (auto split: option.splits dest: perform_step intro: engine_reach.step)

lemma performs_append:
  "performs (as @ bs) s = (case performs as s of None \<Rightarrow> None | Some s' \<Rightarrow> performs bs s')"
  by (induction as arbitrary: s) (auto split: option.splits)

text \<open>The sections left to a goroutine; each one it runs takes it one further.\<close>

fun sections_left :: "run_pc \<Rightarrow> nat" where
  "sections_left Waiting = 4"
| "sections_left (Holding h) = 3"
| "sections_left (Chosen w) = 2"
| "sections_left Finishing = 1"

lemma runSection_advance:
  assumes "sys_ok s" and "sRuns s p = Some r"
  shows "(rPc r = Finishing \<longrightarrow> sRuns (runSection now p r s) p = None \<and>
           eAuctions (sEngine (runSection now p r s)) (iID (rIntent r)) = None) \<and>
    (rPc r \<noteq> Finishing \<longrightarrow> (\<exists>pc. sRuns (runSection now p r s) p = Some (r\<lparr>rPc := pc\<rparr>) \<and>
           Suc (sections_left pc) = sections_left (rPc r)))"
proof (cases "rPc r")
  case Waiting
  then show ?thesis by (auto simp: runSection_def timerSection_def setPc_def)
next
  case (Holding h)
  show ?thesis
    by (rule run_scan [OF assms Holding])
       (auto simp: Holding runSection_def scanSection_def setPc_def logEvent_def
         intro!: exI [of _ "Chosen _"])
next
  case (Chosen w)
  show ?thesis
  proof (cases w)
    case None
    with Chosen show ?thesis by (auto simp: runSection_def publishSection_def setPc_def logEvent_def)
  next
    case (Some b)
    with Chosen have "rPc r = Chosen (Some b)" by simp
    then show ?thesis
      by (rule run_publish [OF assms, of b now])
         (auto simp: Chosen Some runSection_def publishSection_def setPc_def logEvent_def Let_def
           intro!: exI [of _ Finishing])
  qed
next
  case Finishing
  then show ?thesis by (simp add: runSection_def cleanupSection_def logEvent_def Cleanup_def)
qed

lemma auction_finishes:
  "sys_ok s \<Longrightarrow> sRuns s p = Some r \<Longrightarrow>
     \<exists>s'. performs (replicate (sections_left (rPc r)) (DoRun now p)) s = Some s' \<and>
       sRuns s' p = None \<and> eAuctions (sEngine s') (iID (rIntent r)) = None"
proof (induction "sections_left (rPc r)" arbitrary: s r rule: less_induct)
  case less
  have ok: "sys_ok (runSection now p r s)"
    by (rule engine_step_ok [OF runSection_step [OF less.prems(2)] less.prems(1)])
  note adv = runSection_advance [OF less.prems, of now]
  show ?case
  proof (cases "rPc r = Finishing")
    case True
    with adv less.prems(2) show ?thesis by simp
  next
    case False
    with adv obtain pc where pc: "sRuns (runSection now p r s) p = Some (r\<lparr>rPc := pc\<rparr>)"
        "sections_left (rPc r) = Suc (sections_left pc)" by auto
    have "sections_left (rPc (r\<lparr>rPc := pc\<rparr>)) < sections_left (rPc r)" by (simp add: pc(2))
    from less.hyps [OF this ok pc(1)] less.prems(2) pc(2) show ?thesis by simp
  qed
qed

subsection \<open>Vouchers in transit\<close>

fun emitted :: "engine_event list \<Rightarrow> voucher list" where
  "emitted [] = []"
| "emitted (ev # log) = (case ev of Emitted p v \<Rightarrow> [v] | _ \<Rightarrow> []) @ emitted log"

fun taken :: "engine_event list \<Rightarrow> voucher list" where
  "taken [] = []"
| "taken (ev # log) = (case ev of Taken v \<Rightarrow> [v] | _ \<Rightarrow> []) @ taken log"

lemma emitted_append [simp]: "emitted (l1 @ l2) = emitted l1 @ emitted l2"
  by (induction l1) auto

lemma taken_append [simp]: "taken (l1 @ l2) = taken l1 @ taken l2"
  by (induction l1) auto

definition in_transit :: "system \<Rightarrow> bool" where
  "in_transit s \<longleftrightarrow> emitted (sLog s) = taken (sLog s) @ chBuf (eVoucherCh (sEngine s))"

lemma in_transit_frame:
  "in_transit s \<Longrightarrow> eVoucherCh (sEngine s') = eVoucherCh (sEngine s) \<Longrightarrow>
     emitted (sLog s') = emitted (sLog s) \<Longrightarrow> taken (sLog s') = taken (sLog s) \<Longrightarrow> in_transit s'"
  by (simp add: in_transit_def)

lemma emitVoucher_buffer:
  "emitVoucher v e = Inr (sent, e') \<Longrightarrow>
     chBuf (eVoucherCh e') = chBuf (eVoucherCh e) @ (if sent then [v] else [])"
  by (auto simp: emitVoucher_def try_send_def split: sum.splits if_splits)

lemma publishSection_transit:
  "in_transit s \<Longrightarrow> in_transit (publishSection now p r w s)"
  by (auto simp: publishSection_def in_transit_def setPc_def logEvent_def Let_def
      split: option.splits sum.splits dest: emitVoucher_buffer)

lemma takeSection_transit: "in_transit s \<Longrightarrow> in_transit (takeSection s)"
  by (auto simp: takeSection_def in_transit_def logEvent_def chan_recv_def split: list.splits)

lemma engine_step_transit: "engine_step s s' \<Longrightarrow> in_transit s \<Longrightarrow> in_transit s'"
proof (induction rule: engine_step.induct)
  case (start s now i)
  then show ?case
    by (intro in_transit_frame [OF start])
       (auto simp: startSection_def StartAuction_def logEvent_def split: option.splits sum.splits)
next
  case (lookup s t b)
  then show ?case
    by (intro in_transit_frame [OF lookup(2)])
       (auto simp: lookupSection_def logEvent_def split: option.splits)
next
  case (append s t b p)
  then show ?case
    by (intro in_transit_frame [OF append(2)])
       (auto simp: appendSection_def logEvent_def appendBid_def split: option.splits)
next
  case (timer s p r)
  then show ?case
    by (intro in_transit_frame [OF timer(3)]) (auto simp: timerSection_def setPc_def)
next
  case (scan s p r q)
  then show ?case
    by (intro in_transit_frame [OF scan(3)])
       (auto simp: scanSection_def setPc_def logEvent_def split: option.splits sum.splits)
next
  case (cleanup s p r)
  then show ?case
    by (intro in_transit_frame [OF cleanup(3)]) (auto simp: cleanupSection_def logEvent_def)
qed (auto intro: publishSection_transit takeSection_transit)

lemma engine_reach_transit: "engine_reach n timeout s \<Longrightarrow> in_transit s"
proof (induction rule: engine_reach.induct)
  case init
  show ?case by (simp add: in_transit_def initSystem_def NewEngine_def)
next
  case (step s s')
  then show ?case by (blast intro: engine_step_transit)
qed

text \<open>
  The send is not blocking, and a voucher is dropped only when the channel is full: at that point as many
  vouchers have been emitted and not yet taken as the channel holds.
\<close>

definition drops_full :: "nat \<Rightarrow> engine_event list \<Rightarrow> bool" where
  "drops_full n log \<longleftrightarrow>
     (\<forall>l1 p v l2. log = l1 @ Dropped p v # l2 \<longrightarrow> length (emitted l1) = length (taken l1) + n)"

lemma drops_full_snoc:
  assumes "drops_full n log" and "\<And>p v. ev = Dropped p v \<Longrightarrow> length (emitted log) = length (taken log) + n"
  shows "drops_full n (log @ [ev])"
  unfolding drops_full_def
proof (intro allI impI)
  fix l1 p v l2
  assume "log @ [ev] = l1 @ Dropped p v # l2"
  then show "length (emitted l1) = length (taken l1) + n"
    using assms by (cases l2 rule: rev_cases) (auto simp: drops_full_def)
qed

definition transit_ok :: "nat \<Rightarrow> system \<Rightarrow> bool" where
  "transit_ok n s \<longleftrightarrow> chCap (eVoucherCh (sEngine s)) = n \<and> drops_full n (sLog s)"

lemma transit_ok_frame:
  assumes "transit_ok n s" and "chCap (eVoucherCh (sEngine s')) = chCap (eVoucherCh (sEngine s))"
    and "sLog s' = sLog s \<or> (\<exists>ev. sLog s' = sLog s @ [ev] \<and> (\<forall>p v. ev \<noteq> Dropped p v))"
  shows "transit_ok n s'"
  using assms by (fastforce simp: transit_ok_def intro: drops_full_snoc)

lemma emitVoucher_full:
  assumes "engine_ok e" and "emitVoucher v e = Inr (sent, e')"
  shows "chCap (eVoucherCh e') = chCap (eVoucherCh e)"
    and "\<not> sent \<Longrightarrow> length (chBuf (eVoucherCh e)) = chCap (eVoucherCh e)"
  using assms engine_okD(1) [OF assms(1)]
  by (auto simp: emitVoucher_def try_send_def chan_ok_def split: if_splits)

lemma publishSection_full:
  assumes "sys_ok s" and "in_transit s" and "transit_ok n s" and run: "sRuns s p = Some r" "rPc r = Chosen w"
  shows "transit_ok n (publishSection now p r w s)"
proof (cases w)
  case None
  then show ?thesis
    by (intro transit_ok_frame [OF assms(3)]) (auto simp: publishSection_def logEvent_def setPc_def)
next
  case (Some b)
  let ?v = "newVoucher now (rIntent r) b"
  obtain sent e' where e': "emitVoucher ?v (sEngine s) = Inr (sent, e')"
    using run_publish [OF assms(1) run(1), of b now] run(2) Some by metis
  note full = emitVoucher_full [OF sys_okD(1) [OF assms(1)] e']
  have s': "publishSection now p r w s =
      logEvent (if sent then Emitted p ?v else Dropped p ?v) (setPc p r Finishing (s\<lparr>sEngine := e'\<rparr>))"
    using Some e' by (simp add: publishSection_def Let_def)
  have "length (emitted (sLog s)) = length (taken (sLog s)) + n" if "\<not> sent"
    using full(2) [OF that] assms(2,3) by (simp add: in_transit_def transit_ok_def)
  then have "drops_full n (sLog s @ [if sent then Emitted p ?v else Dropped p ?v])"
    using assms(3) by (intro drops_full_snoc) (auto simp: transit_ok_def split: if_splits)
  then show ?thesis using full(1) assms(3) by (simp add: s' transit_ok_def logEvent_def setPc_def)
qed

lemma engine_step_full: "engine_step s s' \<Longrightarrow> sys_ok s \<Longrightarrow> in_transit s \<Longrightarrow> transit_ok n s \<Longrightarrow> transit_ok n s'"
proof (induction rule: engine_step.induct)
  case (start s now i)
  then show ?case
    by (intro transit_ok_frame [OF start(3)])
       (auto simp: startSection_def StartAuction_def logEvent_def split: option.splits sum.splits)
next
  case (lookup s t b)
  then show ?case
    by (intro transit_ok_frame [OF lookup(4)]) (auto simp: lookupSection_def logEvent_def split: option.splits)
next
  case (append s t b p)
  then show ?case
    by (intro transit_ok_frame [OF append(4)]) (auto simp: appendSection_def logEvent_def appendBid_def split: option.splits)
next
  case (timer s p r)
  then show ?case by (intro transit_ok_frame [OF timer(5)]) (auto simp: timerSection_def setPc_def)
next
  case (scan s p r q)
  then show ?case
    by (intro transit_ok_frame [OF scan(5)])
       (auto simp: scanSection_def setPc_def logEvent_def split: option.splits sum.splits)
next
  case (publish s p r w now)
  then show ?case by (intro publishSection_full)
next
  case (cleanup s p r)
  then show ?case
    by (intro transit_ok_frame [OF cleanup(5)]) (auto simp: cleanupSection_def logEvent_def Cleanup_def)
next
  case (take s)
  then show ?case
    by (intro transit_ok_frame [OF take(3)]) (auto simp: takeSection_def logEvent_def chan_recv_def split: list.splits)
qed

lemma engine_reach_full: "engine_reach n timeout s \<Longrightarrow> transit_ok n s"
proof (induction rule: engine_reach.induct)
  case init
  show ?case by (simp add: transit_ok_def drops_full_def initSystem_def NewEngine_def make_chan_def)
next
  case (step s s')
  show ?case
    by (rule engine_step_full [OF step.hyps(2) engine_reach_ok [OF step.hyps(1)] engine_reach_transit [OF step.hyps(1)] step.IH])
qed

text \<open>What the history of an engine says about its vouchers and auctions, for the parts above.\<close>

lemma engine_accounts:
  assumes "engine_reach n timeout s"
  shows "sLog s = l1 @ Dropped p v # l2 \<Longrightarrow> length (emitted l1) = length (taken l1) + n"
    and "Cleaned p \<in> set (sLog s) \<Longrightarrow> length (filter (is_outcome p) (sLog s)) = 1"
proof -
  show "length (emitted l1) = length (taken l1) + n" if "sLog s = l1 @ Dropped p v # l2"
    using engine_reach_full [OF assms] that by (auto simp: transit_ok_def drops_full_def)
  assume cleaned: "Cleaned p \<in> set (sLog s)"
  with engine_reach_stage [OF assms, of p]
  show "length (filter (is_outcome p) (sLog s)) = 1" by (auto simp: stage_at_def stage_def outcomes_def)
qed

subsection \<open>Atomic steps of the book\<close>

inductive book_step :: "book \<Rightarrow> book \<Rightarrow> bool" where
  opens: "bk (iID i) = None \<Longrightarrow> book_step bk (book_start i bk)"
| bids: "bk (bIntentID b) \<noteq> None \<Longrightarrow> bid_priced b \<Longrightarrow> book_step bk (book_submit b bk)"
| closes: "bk iid \<noteq> None \<Longrightarrow> book_step bk (book_close iid bk)"
| idle: "book_step bk bk"

lemma book_frame:
  "eAuctions e' = eAuctions e \<Longrightarrow> eHeap e' = eHeap e \<Longrightarrow> engine_book e' = engine_book e"
  by (rule ext) (simp add: engine_book_def split: option.split)

lemma startSection_book:
  assumes "sys_ok s"
  shows "book_step (engine_book (sEngine s)) (engine_book (sEngine (startSection now i s)))"
proof (cases "StartAuction now i (sEngine s)")
  case (Inl err)
  then show ?thesis by (simp add: startSection_def logEvent_def book_step.idle)
next
  case (Inr e)
  note ok = sys_okD(1) [OF assms]
  have "engine_book (sEngine s) (iID i) = None"
    using Inr StartAuction_duplicate [OF ok, of i now] by (cases "engine_book (sEngine s) (iID i)") auto
  with Inr StartAuction_book [OF ok Inr] show ?thesis
    by (simp add: startSection_def logEvent_def book_step.opens)
qed

lemma appendSection_book:
  assumes "sys_ok s" and "sSubs s t = Some (b, p)"
  shows "book_step (engine_book (sEngine s)) (engine_book (sEngine (appendSection t b p s)))"
proof -
  note ok = sys_okD(1) [OF assms(1)]
  from sys_okD(5) [OF assms] obtain en where en: "eHeap (sEngine s) p = Some en"
      "bIntentID b = iID (aeIntent en)" and priced: "bid_priced b" by (auto simp: sub_ok_def)
  have "engine_book (sEngine s) (bIntentID b) \<noteq> None" if "eAuctions (sEngine s) (bIntentID b) = Some p"
    using that engine_book_None_iff [OF ok] by simp
  with appendBid_book [OF ok en] priced show ?thesis
    by (auto simp: appendSection_def logEvent_def intro: book_step.bids book_step.idle)
qed

lemma engine_step_book:
  "engine_step s s' \<Longrightarrow> sys_ok s \<Longrightarrow> book_step (engine_book (sEngine s)) (engine_book (sEngine s'))"
proof (induction rule: engine_step.induct)
  case (start s now i)
  then show ?case by (rule startSection_book)
next
  case (lookup s t b)
  then show ?case
    by (auto simp: lookupSection_def logEvent_def split: option.splits intro: book_step.idle)
next
  case (append s t b p)
  then show ?case by (intro appendSection_book)
next
  case (timer s p r)
  then show ?case by (simp add: timerSection_def setPc_def book_step.idle)
next
  case (scan s p r q)
  then show ?case
    by (auto simp: scanSection_def setPc_def logEvent_def split: option.splits sum.splits
        intro: book_step.idle)
next
  case (publish s p r w now)
  have "engine_book e' = engine_book (sEngine s)" if "emitVoucher v (sEngine s) = Inr (sent, e')" for v sent e'
    using emitVoucher_frame [OF that] by (intro book_frame) simp_all
  then show ?case
    by (auto simp: publishSection_def setPc_def logEvent_def Let_def split: option.splits sum.splits
        intro: book_step.idle)
next
  case (cleanup s p r)
  then have "engine_book (sEngine s) (iID (rIntent r)) \<noteq> None"
    using sys_okD(3) [of s p r] engine_book_None_iff [OF sys_okD(1)] by (auto simp: run_ok_def)
  then show ?case by (simp add: cleanupSection_def logEvent_def book_step.closes)
next
  case (take s)
  have "engine_book (sEngine (takeSection s)) = engine_book (sEngine s)"
    by (rule book_frame)
       (auto simp: takeSection_def logEvent_def chan_recv_def split: list.splits)
  then show ?case by (simp add: book_step.idle)
qed

subsection \<open>A schedule with a late bid\<close>

text \<open>
  One auction and two submissions. The second bid is looked up before the timer fires and appended
  after the voucher has been emitted, while \<open>Cleanup\<close> has not run yet.
\<close>

definition late_schedule :: "engine_action list" where
  "late_schedule =
     [DoStart (time_Unix 0) (sample_intent ''a'' 900),
      DoLookup 0 (sample_bid ''a'' 7 950 1), DoAppend 0,
      DoLookup 0 (sample_bid ''a'' 8 990 1),
      DoRun (time_Unix 1) 0, DoRun (time_Unix 1) 0, DoRun (time_Unix 1) 0,
      DoAppend 0]"

definition late_voucher :: voucher where
  "late_voucher = newVoucher (time_Unix 1) (sample_intent ''a'' 900) (sample_bid ''a'' 7 950 1)"

lemma late_schedule_run:
  "\<exists>s. performs late_schedule (initSystem 1 200) = Some s \<and>
     sLog s = [Started 0 (sample_intent ''a'' 900), BidAppended 0 (sample_bid ''a'' 7 950 1),
        Scanned 0, Emitted 0 late_voucher, BidAppended 0 (sample_bid ''a'' 8 990 1)] \<and>
     sRuns s 0 = Some \<lparr>rIntent = sample_intent ''a'' 900, rPc = Finishing\<rparr>"
  by (simp add: late_schedule_def initSystem_def NewEngine_def section_defs runSection_def
      StartAuction_def lookupEntry_def appendBid_def scanEntry_def emitVoucher_def try_send_def
      make_chan_def sample_defs late_voucher_def Let_def)

lemma late_system:
  obtains s where "engine_reach 1 200 s"
    and "sLog s = [Started 0 (sample_intent ''a'' 900), BidAppended 0 (sample_bid ''a'' 7 950 1),
        Scanned 0, Emitted 0 late_voucher, BidAppended 0 (sample_bid ''a'' 8 990 1)]"
    and "sRuns s 0 = Some \<lparr>rIntent = sample_intent ''a'' 900, rPc = Finishing\<rparr>"
  using late_schedule_run performs_reach [OF engine_reach.init] by blast

subsection \<open>The history of a voucher\<close>

lemma voucher_history:
  assumes "engine_reach n timeout s" and "Emitted p v \<in> set (sLog s) \<or> Dropped p v \<in> set (sLog s)"
  shows "\<exists>l1 l2 i w now. sLog s = l1 @ Scanned p # l2 \<and> Started p i \<in> set (sLog s) \<and>
    best_bid (appended p l1) = Some w \<and> v = newVoucher now i w \<and>
    length (filter (is_outcome p) (sLog s)) = 1"
proof -
  obtain ev where ev: "ev \<in> set (sLog s)" "ev = Emitted p v \<or> ev = Dropped p v"
    using assms(2) by blast
  then have out: "is_outcome p ev" by auto
  have hist: "hist_at s p" by (rule engine_reach_hist [OF assms(1)])
  have "eHeap (sEngine s) p \<noteq> None"
    using hist ev is_outcome_addr [OF out] unfolding hist_at_def by blast
  then obtain en where en: "entry_hist p (sLog s) en" using hist by (auto simp: hist_at_def)
  then have "outcome_ok (aeIntent en) p (sLog s) ev" using ev(1) by (simp add: entry_hist_def)
  then obtain w now where w: "scanned_at p (sLog s) (Some w)" "v = newVoucher now (aeIntent en) w"
    using ev(2) by auto
  have "filter (is_outcome p) (sLog s) \<noteq> []" using ev(1) out by (auto simp: filter_empty_conv)
  then have "length (filter (is_outcome p) (sLog s)) = 1"
    using en by (cases "filter (is_outcome p) (sLog s)") (auto simp: entry_hist_def)
  moreover have "Started p (aeIntent en) \<in> set (sLog s)" using en by (simp add: entry_hist_def)
  moreover from w(1) obtain l1 l2 where "sLog s = l1 @ Scanned p # l2"
      "best_bid (appended p l1) = Some w" by (auto simp: scanned_at_def)
  ultimately show ?thesis using w(2) by blast
qed

subsection \<open>Properties\<close>

text \<open>
  C8. Concurrency safety. In every interleaving of starts, submissions, auction goroutines and the
  voucher consumer, no goroutine panics (no nil amount is ever compared, no send hits a closed
  channel), the engine stays well formed, and a key is in the auctions map exactly while the goroutine
  of its auction is running, with that goroutine's own entry: no entry leaks and no auction is lost.
\<close>

theorem engine_concurrent_safety:
  assumes "engine_reach n timeout s"
  shows "\<not> sCrashed s \<and> engine_ok (sEngine s) \<and>
    (eAuctions (sEngine s) iid = Some p \<longleftrightarrow> (\<exists>r. sRuns s p = Some r \<and> iID (rIntent r) = iid))"
proof -
  note ok = engine_reach_ok [OF assms]
  have "\<exists>r. sRuns s p = Some r \<and> iID (rIntent r) = iid" if "eAuctions (sEngine s) iid = Some p"
  proof -
    from sys_okD(4) [OF ok that] obtain r where r: "sRuns s p = Some r" by blast
    then have "eAuctions (sEngine s) (iID (rIntent r)) = Some p"
      using sys_okD(3) [OF ok r] by (simp add: run_ok_def)
    with that r engine_auctions_inj [OF sys_okD(1) [OF ok]] show ?thesis by blast
  qed
  moreover have "eAuctions (sEngine s) iid = Some p" if "sRuns s p = Some r" "iID (rIntent r) = iid" for r
    using sys_okD(3) [OF ok that(1)] that(2) by (simp add: run_ok_def)
  ultimately show ?thesis using sys_okD(1,2) [OF ok] by blast
qed

theorem engine_concurrent_safety_witness:
  "\<exists>s. engine_reach 1 200 s \<and> sLog s \<noteq> [] \<and> \<not> sCrashed s \<and> engine_ok (sEngine s) \<and>
     eAuctions (sEngine s) ''a'' = Some 0"
proof (rule late_system)
  fix s
  assume s: "engine_reach 1 200 s"
    and log: "sLog s = [Started 0 (sample_intent ''a'' 900), BidAppended 0 (sample_bid ''a'' 7 950 1),
        Scanned 0, Emitted 0 late_voucher, BidAppended 0 (sample_bid ''a'' 8 990 1)]"
    and run: "sRuns s 0 = Some \<lparr>rIntent = sample_intent ''a'' 900, rPc = Finishing\<rparr>"
  from engine_concurrent_safety [OF s, of "''a''" 0] run s log show ?thesis
    by (intro exI [of _ s]) (simp add: sample_intent_def)
qed

text \<open>
  C2. What an emitted or dropped voucher stands for. In every interleaving an auction has at most one
  outcome, and the voucher of an auction names the intent it was started with and the best of exactly
  the bids whose submission had completed when \<open>selectWinner\<close> scanned the entry.
\<close>

theorem emitted_voucher_is_best:
  assumes "engine_reach n timeout s" and "Emitted p v \<in> set (sLog s) \<or> Dropped p v \<in> set (sLog s)"
  shows "\<exists>l1 l2 i w now. sLog s = l1 @ Scanned p # l2 \<and> Started p i \<in> set (sLog s) \<and>
    best_bid (appended p l1) = Some w \<and> v = newVoucher now i w \<and>
    length (filter (is_outcome p) (sLog s)) = 1"
  using assms by (rule voucher_history)

theorem emitted_voucher_is_best_witness:
  "\<exists>s l1 l2 i w now. engine_reach 1 200 s \<and> sLog s = l1 @ Scanned 0 # l2 \<and>
     Started 0 i \<in> set (sLog s) \<and> best_bid (appended 0 l1) = Some w \<and>
     late_voucher = newVoucher now i w \<and> length (filter (is_outcome 0) (sLog s)) = 1"
proof (rule late_system)
  fix s
  assume s: "engine_reach 1 200 s"
    and log: "sLog s = [Started 0 (sample_intent ''a'' 900), BidAppended 0 (sample_bid ''a'' 7 950 1),
        Scanned 0, Emitted 0 late_voucher, BidAppended 0 (sample_bid ''a'' 8 990 1)]"
  have "Emitted 0 late_voucher \<in> set (sLog s) \<or> Dropped 0 late_voucher \<in> set (sLog s)"
    by (simp add: log)
  from emitted_voucher_is_best [OF s this] s show ?thesis by blast
qed

lemma bid_appended: "BidAppended p b \<in> set log \<Longrightarrow> b \<in> set (appended p log)"
  by (induction log) (auto split: engine_event.splits)

text \<open>
  C39. A bid that is recorded after its auction was scanned is lost. Its submission returned without an
  error and the bid is in the entry, but in no state reached from then on, or ever, does it count: the voucher of
  the auction, emitted or dropped, names the best of the bids recorded before the scan, so not this
  one unless it had been submitted before as well, and an auction without a voucher had no bid before the scan.
\<close>

theorem late_bid_never_counts:
  assumes "engine_reach n timeout s" and "sLog s = l1 @ Scanned p # l2" and "BidAppended p b \<in> set l2"
  shows "(\<exists>en. eHeap (sEngine s) p = Some en \<and> b \<in> set (aeBids en)) \<and>
    (\<forall>v. Emitted p v \<in> set (sLog s) \<or> Dropped p v \<in> set (sLog s) \<longrightarrow>
       vWinningBid v = best_bid (appended p l1) \<and> (b \<notin> set (appended p l1) \<longrightarrow> vWinningBid v \<noteq> Some b)) \<and>
    (NoBids p \<in> set (sLog s) \<longrightarrow> appended p l1 = [])"
proof (intro conjI allI impI)
  note hist = engine_reach_hist [OF assms(1), of p] and st = engine_reach_stage [OF assms(1), of p]
  have "Scanned p \<in> set (sLog s)" by (simp add: assms(2))
  then obtain en where en: "eHeap (sEngine s) p = Some en" "entry_hist p (sLog s) en"
    using hist unfolding hist_at_def by fastforce
  have "b \<in> set (appended p l2)" using assms(3) by (rule bid_appended)
  with en assms(2) show "\<exists>en. eHeap (sEngine s) p = Some en \<and> b \<in> set (aeBids en)" by (auto simp: entry_hist_def)
  fix v
  assume v: "Emitted p v \<in> set (sLog s) \<or> Dropped p v \<in> set (sLog s)"
  from voucher_history [OF assms(1) v] obtain k1 k2 i w now where k: "sLog s = k1 @ Scanned p # k2"
      "best_bid (appended p k1) = Some w" "v = newVoucher now i w" by blast
  have "k1 = l1" by (rule scan_unique [OF st assms(2) k(1)])
  with k show win: "vWinningBid v = best_bid (appended p l1)" by (simp add: newVoucher_def)
  show "vWinningBid v \<noteq> Some b" if "b \<notin> set (appended p l1)" using that best_bid_mem win by metis
next
  note hist = engine_reach_hist [OF assms(1), of p] and st = engine_reach_stage [OF assms(1), of p]
  assume none: "NoBids p \<in> set (sLog s)"
  then obtain en where "entry_hist p (sLog s) en" using hist unfolding hist_at_def by fastforce
  with none have "scanned_at p (sLog s) None" by (fastforce simp: entry_hist_def)
  then obtain k1 k2 where k: "sLog s = k1 @ Scanned p # k2" "best_bid (appended p k1) = None"
    by (auto simp: scanned_at_def)
  have "k1 = l1" by (rule scan_unique [OF st assms(2) k(1)])
  with k(2) show "appended p l1 = []" by (cases "appended p l1") (simp_all add: best_bid_def)
qed

theorem late_bid_never_counts_witness:
  "\<exists>s. engine_reach 1 200 s \<and> eAuctions (sEngine s) ''a'' = Some 0 \<and> BidAppended 0 (sample_bid ''a'' 8 990 1) \<in> set (sLog s) \<and>
     Emitted 0 late_voucher \<in> set (sLog s) \<and> vWinningBid late_voucher = Some (sample_bid ''a'' 7 950 1) \<and>
     bid_price (sample_bid ''a'' 7 950 1) < bid_price (sample_bid ''a'' 8 990 1)"
proof (rule late_system)
  fix s
  assume s: "engine_reach 1 200 s"
    and log: "sLog s = [Started 0 (sample_intent ''a'' 900), BidAppended 0 (sample_bid ''a'' 7 950 1),
        Scanned 0, Emitted 0 late_voucher, BidAppended 0 (sample_bid ''a'' 8 990 1)]"
    and run: "sRuns s 0 = Some \<lparr>rIntent = sample_intent ''a'' 900, rPc = Finishing\<rparr>"
  let ?l1 = "[Started 0 (sample_intent ''a'' 900), BidAppended 0 (sample_bid ''a'' 7 950 1)]"
  let ?l2 = "[Emitted 0 late_voucher, BidAppended 0 (sample_bid ''a'' 8 990 1)]"
  have "sLog s = ?l1 @ Scanned 0 # ?l2" "BidAppended 0 (sample_bid ''a'' 8 990 1) \<in> set ?l2" by (simp_all add: log)
  from late_bid_never_counts [OF s this] have "vWinningBid late_voucher = best_bid (appended 0 ?l1)" by (simp add: log)
  moreover have "best_bid (appended 0 ?l1) = Some (sample_bid ''a'' 7 950 1)" by (simp add: best_bid_def)
  moreover have "bid_price (sample_bid ''a'' 7 950 1) < bid_price (sample_bid ''a'' 8 990 1)"
    by (simp add: bid_price_def sample_bid_def)
  moreover have "eAuctions (sEngine s) ''a'' = Some 0"
    using sys_okD(3) [OF engine_reach_ok [OF s] run] by (simp add: run_ok_def sample_intent_def)
  ultimately show ?thesis using s log by (intro exI [of _ s]) simp
qed

text \<open>
  C11. Every auction can finish on its own. From any reachable state the goroutine of an open auction,
  running alone, gets through its at most four remaining critical sections without blocking or
  panicking, after which it is gone and its key has been removed from the map.
\<close>

theorem auction_always_finishes:
  assumes "engine_reach n timeout s" and "sRuns s p = Some r"
  shows "sections_left (rPc r) \<le> 4 \<and>
    (\<exists>s'. performs (replicate (sections_left (rPc r)) (DoRun now p)) s = Some s' \<and>
       engine_reach n timeout s' \<and> sRuns s' p = None \<and>
       eAuctions (sEngine s') (iID (rIntent r)) = None)"
proof -
  have "sections_left (rPc r) \<le> 4" by (cases "rPc r") auto
  moreover obtain s' where "performs (replicate (sections_left (rPc r)) (DoRun now p)) s = Some s'"
      "sRuns s' p = None" "eAuctions (sEngine s') (iID (rIntent r)) = None"
    using auction_finishes [OF engine_reach_ok [OF assms(1)] assms(2)] by blast
  ultimately show ?thesis using performs_reach [OF assms(1)] by blast
qed

theorem auction_always_finishes_witness:
  "\<exists>s s'. engine_reach 1 200 s \<and> sRuns s 0 \<noteq> None \<and>
     performs (replicate 1 (DoRun (time_Unix 2) 0)) s = Some s' \<and> engine_reach 1 200 s' \<and>
     sRuns s' 0 = None \<and> eAuctions (sEngine s') ''a'' = None"
proof (rule late_system)
  fix s
  assume s: "engine_reach 1 200 s"
    and run: "sRuns s 0 = Some \<lparr>rIntent = sample_intent ''a'' 900, rPc = Finishing\<rparr>"
  from auction_always_finishes [OF s run, of "time_Unix 2"] s run show ?thesis
    by (auto simp: sample_intent_def)
qed

text \<open>
  C9. The locking is enough. Every step of every interleaving of the engine's critical sections is one
  atomic operation on the book of open auctions (an opening of a new id, a priced bid added at the end
  of an open auction, a closing) or leaves the book as it is.
\<close>

theorem engine_refines_book:
  assumes "engine_reach n timeout s" and "engine_step s s'"
  shows "book_step (engine_book (sEngine s)) (engine_book (sEngine s'))"
  by (rule engine_step_book [OF assms(2) engine_reach_ok [OF assms(1)]])

theorem engine_refines_book_witness:
  "\<exists>s'. engine_step (initSystem 1 200) s' \<and> engine_book (sEngine s') ''a'' \<noteq> None \<and>
     book_step (engine_book (sEngine (initSystem 1 200))) (engine_book (sEngine s'))"
proof -
  let ?s' = "startSection (time_Unix 0) (sample_intent ''a'' 900) (initSystem 1 200)"
  have step: "engine_step (initSystem 1 200) ?s'" by (rule engine_step.start)
  moreover have "engine_book (sEngine ?s') ''a'' \<noteq> None"
    by (simp add: startSection_def logEvent_def initSystem_def StartAuction_def NewEngine_def
        engine_book_def sample_intent_def)
  ultimately show ?thesis
    using engine_refines_book [OF engine_reach.init step] by blast
qed

text \<open>
  Vouchers are delivered once and in order. In every interleaving the vouchers emitted so far are
  the vouchers the consumer has received followed by those still in the channel.
\<close>

lemma vouchers_delivered_in_order:
  assumes "engine_reach n timeout s"
  shows "emitted (sLog s) = taken (sLog s) @ chBuf (eVoucherCh (sEngine s))"
  using engine_reach_transit [OF assms] by (simp add: in_transit_def)

end
