(* ===== verification/Signer.thy ===== *)
theory Signer
  imports Core_Types Go_Text
begin

section \<open>The signer (\<open>internal/signer\<close>)\<close>

text \<open>
  The key vault, the EIP-191 claim digest and the EIP-712 intent digest.

  The functions of go-ethereum's \<open>crypto\<close> and \<open>accounts/abi\<close> packages are parameters, grouped in the
  records \<open>crypto\<close> and \<open>abi_coder\<close>. What the theorems need of them is named: \<open>sign_format\<close> and
  \<open>sign_recovers\<close> (the documentation of \<open>crypto.Sign\<close>) and \<open>abi_static\<close> (the ABI encoding of the
  three static types used). No hypothesis says that Keccak-256 is injective, which no function to 32
  bytes is: the theorems on digests conclude that the inputs agree or exhibit the two byte strings,
  among those the code hashed, that collide.
\<close>

subsection \<open>Library parameters\<close>

record ('k, 'p) crypto =
  Keccak256Hash :: "bytes \<Rightarrow> hash32"
  ToECDSA :: "bytes \<Rightarrow> string + 'k"
  PublicKey :: "'k \<Rightarrow> 'p"
  PubkeyToAddress :: "'p \<Rightarrow> address"
  CryptoSign :: "bytes \<Rightarrow> 'k \<Rightarrow> string + bytes"
  SigToPub :: "bytes \<Rightarrow> bytes \<Rightarrow> string + 'p"

text \<open>\<open>crypto.Sign\<close> produces \<open>[R || S || V]\<close> with V equal to 0 or 1, from which the key recovers.\<close>

definition sign_format :: "('k, 'p) crypto \<Rightarrow> bool" where
  "sign_format cr \<longleftrightarrow>
     (\<forall>d k sig. CryptoSign cr d k = Inr sig \<longrightarrow> length sig = 65 \<and> (sig ! 64 = 0 \<or> sig ! 64 = 1))"

definition sign_recovers :: "('k, 'p) crypto \<Rightarrow> bool" where
  "sign_recovers cr \<longleftrightarrow>
     (\<forall>d k sig. CryptoSign cr d k = Inr sig \<longrightarrow> SigToPub cr d sig = Inr (PublicKey cr k))"

datatype abi_value = AbiBytes32 hash32 | AbiAddress address | AbiUint256 bigptr

record 't abi_coder =
  NewType :: "string \<Rightarrow> string + 't"
  Pack :: "'t list \<Rightarrow> abi_value list \<Rightarrow> string + bytes"

fun abi_word :: "abi_value \<Rightarrow> bytes" where
  "abi_word (AbiBytes32 h) = hash_bytes h"
| "abi_word (AbiAddress a) = be_bytes 32 (ucast a :: 256 word)"
| "abi_word (AbiUint256 x) = be_bytes 32 (word_of_int (case x of None \<Rightarrow> 0 | Some n \<Rightarrow> n) :: 256 word)"

fun abi_in_range :: "abi_value \<Rightarrow> bool" where
  "abi_in_range (AbiUint256 x) \<longleftrightarrow> (case x of None \<Rightarrow> False | Some n \<Rightarrow> 0 \<le> n \<and> n < 2 ^ 256)"
| "abi_in_range _ \<longleftrightarrow> True"

fun abi_type :: "'t \<Rightarrow> 't \<Rightarrow> 't \<Rightarrow> abi_value \<Rightarrow> 't" where
  "abi_type b u a (AbiBytes32 _) = b"
| "abi_type b u a (AbiUint256 _) = u"
| "abi_type b u a (AbiAddress _) = a"

text \<open>
  The contract ABI: the three elementary types exist, and arguments of these types are packed one
  32-byte big-endian word each, an address padded on the left.
\<close>

definition abi_static :: "'t abi_coder \<Rightarrow> bool" where
  "abi_static ab \<longleftrightarrow>
     (\<exists>b u a. NewType ab ''bytes32'' = Inr b \<and> NewType ab ''uint256'' = Inr u \<and>
        NewType ab ''address'' = Inr a \<and>
        (\<forall>vs. list_all abi_in_range vs \<longrightarrow>
           Pack ab (map (abi_type b u a) vs) vs = Inr (concat (map abi_word vs))))"

subsection \<open>\<open>KeyVault\<close>\<close>

record 'k key_vault =
  kvPriv :: 'k
  kvAddr :: address

datatype vault_error = BadKeyHex hex_error | BadKey string | SignDigest string

text \<open>
  \<open>NewKeyVaultFromHex\<close>, with the contents of the decoded buffer \<open>b\<close> when the function returns. The
  call \<open>clear(b)\<close> runs before the error of \<open>ToECDSA\<close> is looked at.
\<close>

definition NewKeyVaultFromHex ::
    "('k, 'p) crypto \<Rightarrow> string \<Rightarrow> (vault_error + 'k key_vault) \<times> bytes" where
  "NewKeyVaultFromHex cr hexKey =
     (case hex_DecodeString hexKey of
        (b, Some e) \<Rightarrow> (Inl (BadKeyHex e), b)
      | (b, None) \<Rightarrow>
          (let priv = ToECDSA cr b; b' = map (\<lambda>_. 0) b in
           case priv of
             Inl e \<Rightarrow> (Inl (BadKey e), b')
           | Inr k \<Rightarrow> (Inr \<lparr>kvPriv = k, kvAddr = PubkeyToAddress cr (PublicKey cr k)\<rparr>, b')))"

definition VaultAddress :: "'k key_vault \<Rightarrow> address" where
  "VaultAddress v = kvAddr v"

definition VaultSign :: "('k, 'p) crypto \<Rightarrow> 'k key_vault \<Rightarrow> hash32 \<Rightarrow> vault_error + bytes" where
  "VaultSign cr v digest =
     (case CryptoSign cr (hash_bytes digest) (kvPriv v) of
        Inl e \<Rightarrow> Inl (SignDigest e)
      | Inr sig \<Rightarrow> Inr sig)"

text \<open>A vault as its constructor builds it.\<close>

definition vault_ok :: "('k, 'p) crypto \<Rightarrow> 'k key_vault \<Rightarrow> bool" where
  "vault_ok cr v \<longleftrightarrow> kvAddr v = PubkeyToAddress cr (PublicKey cr (kvPriv v))"

subsection \<open>\<open>ClaimDigest\<close>\<close>

definition claimPacked :: "bytes \<Rightarrow> address \<Rightarrow> bytes" where
  "claimPacked intentID solver = intentID @ address_bytes solver"

definition ethSignedPrefix :: bytes where
  "ethSignedPrefix = 0x19 # string_bytes ''Ethereum Signed Message:'' @ [0x0A] @ string_bytes ''32''"

definition claimPrefixed :: "hash32 \<Rightarrow> bytes" where
  "claimPrefixed messageHash = ethSignedPrefix @ hash_bytes messageHash"

definition ClaimDigest :: "('k, 'p) crypto \<Rightarrow> bytes \<Rightarrow> address \<Rightarrow> hash32" where
  "ClaimDigest cr intentID solver =
     Keccak256Hash cr (claimPrefixed (Keccak256Hash cr (claimPacked intentID solver)))"

subsection \<open>EIP-712\<close>

definition domainTypeString :: string where
  "domainTypeString =
     ''EIP712Domain(string name,string version,uint256 chainId,address verifyingContract)''"

definition intentTypeString :: string where
  "intentTypeString = ''Intent(address sender,address tokenIn,address tokenOut,'' @
     ''uint256 amountIn,uint256 minAmountOut,uint256 deadline,uint256 nonce)''"

definition domainTypeHash :: "('k, 'p) crypto \<Rightarrow> hash32" where
  "domainTypeHash cr = Keccak256Hash cr (string_bytes domainTypeString)"

definition intentTypeHash :: "('k, 'p) crypto \<Rightarrow> hash32" where
  "intentTypeHash cr = Keccak256Hash cr (string_bytes intentTypeString)"

record eip712_domain =
  dName :: string
  dVersion :: string
  dChainID :: "64 word"
  dVerifyingContract :: address

datatype eip712_error =
    NewTypeFailed string string
  | PackFailed string
  | DomainFailed intent_id eip712_error
  | StructFailed intent_id eip712_error

text \<open>The type objects are built first, in the order of the code, and any failure is returned.\<close>

fun newTypes :: "'t abi_coder \<Rightarrow> string list \<Rightarrow> eip712_error + 't list" where
  "newTypes ab [] = Inr []"
| "newTypes ab (n # ns) =
     (case NewType ab n of
        Inl e \<Rightarrow> Inl (NewTypeFailed n e)
      | Inr t \<Rightarrow> (case newTypes ab ns of Inl e \<Rightarrow> Inl e | Inr ts \<Rightarrow> Inr (t # ts)))"

definition packHash ::
    "('k, 'p) crypto \<Rightarrow> 't abi_coder \<Rightarrow> 't list \<Rightarrow> abi_value list \<Rightarrow> eip712_error + hash32" where
  "packHash cr ab args vs =
     (case Pack ab args vs of
        Inl e \<Rightarrow> Inl (PackFailed e)
      | Inr encoded \<Rightarrow> Inr (Keccak256Hash cr encoded))"

definition domainValues :: "('k, 'p) crypto \<Rightarrow> eip712_domain \<Rightarrow> abi_value list" where
  "domainValues cr d =
     [AbiBytes32 (domainTypeHash cr),
      AbiBytes32 (Keccak256Hash cr (string_bytes (dName d))),
      AbiBytes32 (Keccak256Hash cr (string_bytes (dVersion d))),
      AbiUint256 (Some (uint (dChainID d))),
      AbiAddress (dVerifyingContract d)]"

definition DomainSeparator ::
    "('k, 'p) crypto \<Rightarrow> 't abi_coder \<Rightarrow> eip712_domain \<Rightarrow> eip712_error + hash32" where
  "DomainSeparator cr ab d =
     (case newTypes ab [''bytes32'', ''uint256'', ''address''] of
        Inl e \<Rightarrow> Inl e
      | Inr ts \<Rightarrow>
          (let bytes32Type = ts ! 0; uint256Type = ts ! 1; addressType = ts ! 2 in
           packHash cr ab [bytes32Type, bytes32Type, bytes32Type, uint256Type, addressType]
             (domainValues cr d)))"

definition intentValues :: "('k, 'p) crypto \<Rightarrow> intent \<Rightarrow> abi_value list" where
  "intentValues cr i =
     [AbiBytes32 (intentTypeHash cr), AbiAddress (iSender i), AbiAddress (iTokenIn i),
      AbiAddress (iTokenOut i), AbiUint256 (iAmountIn i), AbiUint256 (iMinAmountOut i),
      AbiUint256 (Some (sint (Time_Unix (iDeadline i)))), AbiUint256 (Some (uint (iNonce i)))]"

definition intentStructHash ::
    "('k, 'p) crypto \<Rightarrow> 't abi_coder \<Rightarrow> intent \<Rightarrow> eip712_error + hash32" where
  "intentStructHash cr ab i =
     (case newTypes ab [''bytes32'', ''address'', ''uint256''] of
        Inl e \<Rightarrow> Inl e
      | Inr ts \<Rightarrow>
          (let bytes32Type = ts ! 0; addressType = ts ! 1; uint256Type = ts ! 2 in
           packHash cr ab
             [bytes32Type, addressType, addressType, addressType,
              uint256Type, uint256Type, uint256Type, uint256Type]
             (intentValues cr i)))"

definition eip712Preimage :: "hash32 \<Rightarrow> hash32 \<Rightarrow> bytes" where
  "eip712Preimage domSep structHash = [0x19, 0x01] @ hash_bytes domSep @ hash_bytes structHash"

definition HashIntent ::
    "('k, 'p) crypto \<Rightarrow> 't abi_coder \<Rightarrow> eip712_domain \<Rightarrow> intent \<Rightarrow> eip712_error + hash32" where
  "HashIntent cr ab d i =
     (case DomainSeparator cr ab d of
        Inl e \<Rightarrow> Inl (DomainFailed (iID i) e)
      | Inr domSep \<Rightarrow>
          (case intentStructHash cr ab i of
             Inl e \<Rightarrow> Inl (StructFailed (iID i) e)
           | Inr structHash \<Rightarrow> Inr (Keccak256Hash cr (eip712Preimage domSep structHash))))"

datatype recover_error = BadSignatureLength nat | RecoverFailed string

definition RecoverSigner ::
    "('k, 'p) crypto \<Rightarrow> hash32 \<Rightarrow> bytes \<Rightarrow> recover_error + address" where
  "RecoverSigner cr h sig =
     (if length sig \<noteq> 65 then Inl (BadSignatureLength (length sig))
      else (case SigToPub cr (hash_bytes h) sig of
              Inl e \<Rightarrow> Inl (RecoverFailed e)
            | Inr pubKey \<Rightarrow> Inr (PubkeyToAddress cr pubKey)))"

subsection \<open>What the digests bind\<close>

text \<open>Two of the listed byte strings are different and have the same hash.\<close>

definition collides :: "('k, 'p) crypto \<Rightarrow> bytes list \<Rightarrow> bool" where
  "collides cr xs \<longleftrightarrow> (\<exists>x \<in> set xs. \<exists>y \<in> set xs. x \<noteq> y \<and> Keccak256Hash cr x = Keccak256Hash cr y)"

lemma no_collision:
  "\<not> collides cr xs \<Longrightarrow> x \<in> set xs \<Longrightarrow> y \<in> set xs \<Longrightarrow>
     Keccak256Hash cr x = Keccak256Hash cr y \<longleftrightarrow> x = y"
  by (auto simp: collides_def)

abbreviation abi_concat :: "abi_value list \<Rightarrow> bytes" where
  "abi_concat vs \<equiv> concat (map abi_word vs)"

text \<open>The byte strings hashed on the way to a digest.\<close>

definition claimInputs :: "('k, 'p) crypto \<Rightarrow> bytes \<Rightarrow> address \<Rightarrow> bytes list" where
  "claimInputs cr x s = [claimPacked x s, claimPrefixed (Keccak256Hash cr (claimPacked x s))]"

definition intentInputs :: "('k, 'p) crypto \<Rightarrow> eip712_domain \<Rightarrow> intent \<Rightarrow> bytes list" where
  "intentInputs cr d i =
     [string_bytes (dName d), string_bytes (dVersion d),
      abi_concat (domainValues cr d), abi_concat (intentValues cr i),
      eip712Preimage (Keccak256Hash cr (abi_concat (domainValues cr d)))
        (Keccak256Hash cr (abi_concat (intentValues cr i)))]"

text \<open>The fields of an intent that its digest covers, and amounts that are \<open>uint256\<close> values.\<close>

definition signed_fields where
  "signed_fields i = (iSender i, iTokenIn i, iTokenOut i, iAmountIn i, iMinAmountOut i,
     Time_Unix (iDeadline i), iNonce i)"

definition intent_in_range :: "intent \<Rightarrow> bool" where
  "intent_in_range i \<longleftrightarrow> abi_in_range (AbiUint256 (iAmountIn i)) \<and>
     abi_in_range (AbiUint256 (iMinAmountOut i)) \<and> 0 \<le> sint (Time_Unix (iDeadline i))"

lemma length_abi_word [simp]: "length (abi_word v) = 32"
  by (cases v) simp_all

lemma ucast_address_eq_iff [simp]: "(ucast (a :: address) :: 256 word) = ucast b \<longleftrightarrow> a = b"
proof
  assume eq: "(ucast a :: 256 word) = ucast b"
  show "a = b"
  proof (rule bit_word_eqI)
    fix n assume n: "n < LENGTH(160)"
    then show "bit a n = bit b n"
      using arg_cong [OF eq, of "\<lambda>w. bit w n"] by (simp add: bit_ucast_iff)
  qed
qed simp

lemma abi_word_inj:
  assumes "abi_in_range v" "abi_in_range w" "abi_type 0 1 (2 :: nat) v = abi_type 0 1 2 w"
    and "abi_word v = abi_word w"
  shows "v = w"
proof (cases v)
  case (AbiBytes32 h)
  with assms show ?thesis by (cases w) simp_all
next
  case (AbiAddress a)
  with assms(3) obtain a' where w: "w = AbiAddress a'" by (cases w) simp_all
  with AbiAddress assms(4) have "(ucast a :: 256 word) = ucast a'" by simp
  with AbiAddress w show ?thesis by simp
next
  case (AbiUint256 x)
  with assms obtain m n where x: "x = Some m" and w: "w = AbiUint256 (Some n)"
    and "0 \<le> m" "m < 2 ^ 256" "0 \<le> n" "n < 2 ^ 256"
    by (cases w) (auto split: option.splits)
  moreover from AbiUint256 x w assms(4) have "(word_of_int m :: 256 word) = word_of_int n" by simp
  ultimately have "m = n" by (simp add: word_of_int_eq_iff take_bit_int_eq_self)
  with AbiUint256 x w show ?thesis by simp
qed

lemma abi_concat_inj:
  assumes "list_all abi_in_range vs" "list_all abi_in_range ws"
    and "map (abi_type 0 1 (2 :: nat)) vs = map (abi_type 0 1 2) ws"
    and "abi_concat vs = abi_concat ws"
  shows "vs = ws"
proof -
  have len: "length vs = length ws" using assms(3) by (rule map_eq_imp_length_eq)
  then have "map abi_word vs = map abi_word ws"
    using assms(4) by (subst (asm) concat_eq_concat_iff) (auto simp: set_zip)
  with len assms(1-3) show ?thesis
    by (induction vs ws rule: list_induct2) (auto dest: abi_word_inj)
qed

lemma Time_deadline_range: "sint (Time_Unix t) < 2 ^ 256"
proof -
  have "sint (Time_Unix t) < 2 ^ 63" using sint_lt [of "Time_Unix t"] by simp
  then show ?thesis by simp
qed

lemma uint64_range: "uint (w :: 64 word) < 2 ^ 256"
proof -
  have "uint w < 2 ^ 64" using uint_lt2p [of w] by simp
  then show ?thesis by simp
qed

lemma domainValues_range: "list_all abi_in_range (domainValues cr d)"
  using uint64_range by (simp add: domainValues_def)

lemma intentValues_range: "intent_in_range i \<Longrightarrow> list_all abi_in_range (intentValues cr i)"
  using uint64_range Time_deadline_range by (simp add: intentValues_def intent_in_range_def)

text \<open>Under the ABI encoding the digests are the nested hashes of EIP-712.\<close>

lemma DomainSeparator_static:
  assumes "abi_static ab"
  shows "DomainSeparator cr ab d = Inr (Keccak256Hash cr (abi_concat (domainValues cr d)))"
proof -
  from assms obtain b u a where t: "NewType ab ''bytes32'' = Inr b" "NewType ab ''uint256'' = Inr u"
      "NewType ab ''address'' = Inr a"
    and pack: "\<And>vs. list_all abi_in_range vs \<Longrightarrow>
      Pack ab (map (abi_type b u a) vs) vs = Inr (abi_concat vs)"
    unfolding abi_static_def by blast
  have "Pack ab [b, b, b, u, a] (domainValues cr d) = Inr (abi_concat (domainValues cr d))"
    using pack [OF domainValues_range [of cr d]] by (simp add: domainValues_def)
  then show ?thesis by (simp add: DomainSeparator_def t packHash_def)
qed

lemma intentStructHash_static:
  assumes "abi_static ab" and "intent_in_range i"
  shows "intentStructHash cr ab i = Inr (Keccak256Hash cr (abi_concat (intentValues cr i)))"
proof -
  from assms obtain b u a where t: "NewType ab ''bytes32'' = Inr b" "NewType ab ''uint256'' = Inr u"
      "NewType ab ''address'' = Inr a"
    and pack: "\<And>vs. list_all abi_in_range vs \<Longrightarrow>
      Pack ab (map (abi_type b u a) vs) vs = Inr (abi_concat vs)"
    unfolding abi_static_def by blast
  have "Pack ab [b, a, a, a, u, u, u, u] (intentValues cr i) = Inr (abi_concat (intentValues cr i))"
    using pack [OF intentValues_range [OF assms(2), of cr]] by (simp add: intentValues_def)
  then show ?thesis by (simp add: intentStructHash_def t packHash_def)
qed

lemma HashIntent_static:
  assumes "abi_static ab" and "intent_in_range i"
  shows "HashIntent cr ab d i = Inr (Keccak256Hash cr (intentInputs cr d i ! 4))"
  by (simp add: HashIntent_def DomainSeparator_static intentStructHash_static assms intentInputs_def)

lemma eip712Preimage_inj: "eip712Preimage a b = eip712Preimage c d \<longleftrightarrow> a = c \<and> b = d"
  by (simp add: eip712Preimage_def)

lemma claimPacked_inj:
  "length x = length y \<Longrightarrow> claimPacked x s = claimPacked y t \<longleftrightarrow> x = y \<and> s = t"
  by (simp add: claimPacked_def)

lemma claimPrefixed_inj: "claimPrefixed h = claimPrefixed g \<longleftrightarrow> h = g"
  by (simp add: claimPrefixed_def)

lemma domainValues_inj:
  assumes "\<not> collides cr (intentInputs cr d i @ intentInputs cr d' i')"
    and "domainValues cr d = domainValues cr d'"
  shows "d = d'"
proof -
  note eq = no_collision [OF assms(1)]
  from assms(2) have "string_bytes (dName d) = string_bytes (dName d')"
      "string_bytes (dVersion d) = string_bytes (dVersion d')"
    by (simp_all add: domainValues_def eq intentInputs_def)
  moreover from assms(2) have "dChainID d = dChainID d'" "dVerifyingContract d = dVerifyingContract d'"
    by (simp_all add: domainValues_def word_uint_eq_iff)
  ultimately show ?thesis by simp
qed

lemma sint_eq_iff: "sint v = sint w \<longleftrightarrow> v = w"
  by (auto intro: signed_word_eqI)

lemma intentValues_eq_iff:
  "intentValues cr i = intentValues cr i' \<longleftrightarrow> signed_fields i = signed_fields i'"
  by (auto simp: intentValues_def signed_fields_def sint_eq_iff dest: word_uint_eqI)

lemma value_kinds:
  "map (abi_type b u a) (domainValues cr d) = map (abi_type b u a) (domainValues cr d')"
  "map (abi_type b u a) (intentValues cr i) = map (abi_type b u a) (intentValues cr i')"
  by (simp_all add: domainValues_def intentValues_def)

lemma abi_concat_values_eq_iff:
  "abi_concat (domainValues cr d) = abi_concat (domainValues cr d') \<longleftrightarrow>
     domainValues cr d = domainValues cr d'"
  "intent_in_range i \<Longrightarrow> intent_in_range i' \<Longrightarrow>
     abi_concat (intentValues cr i) = abi_concat (intentValues cr i') \<longleftrightarrow>
     intentValues cr i = intentValues cr i'"
  by (metis abi_concat_inj domainValues_range value_kinds(1))
     (metis abi_concat_inj intentValues_range value_kinds(2))

text \<open>
  A stand-in for the library with the documented properties: a key is one byte, a signature repeats
  it, and the hash is made of the length and the last byte.
\<close>

definition sample_crypto :: "(byte, byte) crypto" where
  "sample_crypto =
     \<lparr>Keccak256Hash = \<lambda>bs. if bs = [] then 0 else 256 * of_nat (length bs) + ucast (last bs),
      ToECDSA = \<lambda>bs. if length bs = 32 then Inr (hd bs) else Inl ''invalid length, need 256 bits'',
      PublicKey = \<lambda>k. k, PubkeyToAddress = \<lambda>p. ucast p,
      CryptoSign = \<lambda>d k. Inr (replicate 64 k @ [0]), SigToPub = \<lambda>d sig. Inr (hd sig)\<rparr>"

lemma sample_hash_claim:
  "length x = 32 \<Longrightarrow> Keccak256Hash sample_crypto (claimPacked x s) = 13312 + ucast (ucast s :: byte)"
  "Keccak256Hash sample_crypto (claimPrefixed h) = 15360 + ucast (ucast h :: byte)"
  by (simp_all add: sample_crypto_def claimPacked_def claimPrefixed_def ethSignedPrefix_def)

lemma sample_hash_intent:
  "Keccak256Hash sample_crypto (abi_concat (domainValues cr d)) =
     40960 + ucast (ucast (ucast (dVerifyingContract d) :: 256 word) :: byte)"
  "Keccak256Hash sample_crypto (abi_concat (intentValues cr i)) =
     65536 + ucast (ucast (ucast (iNonce i) :: 256 word) :: byte)"
  "Keccak256Hash sample_crypto (eip712Preimage g h) = 16896 + ucast (ucast h :: byte)"
  by (simp_all add: sample_crypto_def domainValues_def intentValues_def eip712Preimage_def)

lemma sample_crypto_laws: "sign_format sample_crypto" "sign_recovers sample_crypto"
  by (simp_all add: sign_format_def sign_recovers_def sample_crypto_def nth_append)

definition sample_abi :: "nat abi_coder" where
  "sample_abi =
     \<lparr>NewType = \<lambda>n. Inr (length n), Pack = \<lambda>ts vs. Inr (abi_concat vs)\<rparr>"

lemma sample_abi_static: "abi_static sample_abi"
  by (simp add: abi_static_def sample_abi_def)

definition sample_domain :: eip712_domain where
  "sample_domain = \<lparr>dName = ''VynX'', dVersion = ''1'', dChainID = 31337, dVerifyingContract = 5\<rparr>"

lemma sample_intent_in_range: "intent_in_range (sample_intent iid 900)"
  by (simp add: intent_in_range_def sample_intent_def)

subsection \<open>Properties\<close>

text \<open>
  C19. The claim digest binds the escrow id and the solver: two claims have the same digest exactly when
  they name the same 32-byte id and the same solver, unless two of the four byte strings hashed for
  them are a Keccak-256 collision.
\<close>

theorem ClaimDigest_binds:
  assumes "length x = 32" and "length y = 32"
  shows "(ClaimDigest cr x s = ClaimDigest cr y t \<longleftrightarrow> x = y \<and> s = t) \<or>
    collides cr (claimInputs cr x s @ claimInputs cr y t)"
proof (cases "collides cr (claimInputs cr x s @ claimInputs cr y t)")
  case False
  note eq = no_collision [OF False]
  have "ClaimDigest cr x s = ClaimDigest cr y t \<longleftrightarrow>
      Keccak256Hash cr (claimPacked x s) = Keccak256Hash cr (claimPacked y t)"
    by (simp add: ClaimDigest_def eq claimInputs_def claimPrefixed_inj)
  also have "\<dots> \<longleftrightarrow> x = y \<and> s = t"
    by (simp add: eq claimInputs_def claimPacked_inj assms)
  finally show ?thesis ..
qed simp

theorem ClaimDigest_binds_witness:
  "ClaimDigest sample_crypto (replicate 32 1) 7 \<noteq> ClaimDigest sample_crypto (replicate 32 1) 8"
proof -
  have "\<not> collides sample_crypto (claimInputs sample_crypto (replicate 32 1) 7 @
      claimInputs sample_crypto (replicate 32 1) 8)"
    by (simp add: collides_def claimInputs_def sample_hash_claim)
  then show ?thesis
    using ClaimDigest_binds [of "replicate 32 1" "replicate 32 1" sample_crypto 7 8] by auto
qed

text \<open>
  C18. The intent digest binds the domain and every signed field: for amounts that are \<open>uint256\<close> values
  and a deadline after 1970 the digest exists, and two digests agree exactly when name, version, chain
  id, contract, sender, tokens, amounts, deadline second and nonce all agree, unless two of the byte
  strings hashed on the way collide. The id, the signature and the arrival time are not covered.
\<close>

theorem HashIntent_binds:
  assumes "abi_static ab" and "intent_in_range i" and "intent_in_range i'"
  shows "(\<exists>h. HashIntent cr ab d i = Inr h) \<and>
    ((HashIntent cr ab d i = HashIntent cr ab d' i' \<longleftrightarrow>
        d = d' \<and> signed_fields i = signed_fields i') \<or>
     collides cr (intentInputs cr d i @ intentInputs cr d' i'))"
proof (cases "collides cr (intentInputs cr d i @ intentInputs cr d' i')")
  case True
  then show ?thesis by (simp add: HashIntent_static assms)
next
  case False
  note eq = no_collision [OF False]
  have "HashIntent cr ab d i = HashIntent cr ab d' i' \<longleftrightarrow>
      intentInputs cr d i ! 4 = intentInputs cr d' i' ! 4"
    by (simp add: HashIntent_static assms) (rule eq; simp add: intentInputs_def)
  also have "\<dots> \<longleftrightarrow> abi_concat (domainValues cr d) = abi_concat (domainValues cr d') \<and>
      abi_concat (intentValues cr i) = abi_concat (intentValues cr i')"
    by (simp add: intentInputs_def eip712Preimage_inj eq)
  also have "\<dots> \<longleftrightarrow> domainValues cr d = domainValues cr d' \<and> intentValues cr i = intentValues cr i'"
    by (simp only: abi_concat_values_eq_iff(1) abi_concat_values_eq_iff(2) [OF assms(2,3)])
  also have "\<dots> \<longleftrightarrow> d = d' \<and> signed_fields i = signed_fields i'"
    using domainValues_inj [OF False] by (auto simp: intentValues_eq_iff)
  finally show ?thesis by (simp add: HashIntent_static assms)
qed

theorem HashIntent_binds_witness:
  "HashIntent sample_crypto sample_abi sample_domain (sample_intent ''a'' 900) \<noteq>
   HashIntent sample_crypto sample_abi sample_domain ((sample_intent ''a'' 900)\<lparr>iNonce := 2\<rparr>)"
proof -
  let ?i = "sample_intent ''a'' 900"
  let ?j = "?i\<lparr>iNonce := 2\<rparr>"
  have j: "intent_in_range ?j" by (simp add: intent_in_range_def sample_intent_def)
  have "\<not> collides sample_crypto
      (intentInputs sample_crypto sample_domain ?i @ intentInputs sample_crypto sample_domain ?j)"
    by (simp add: collides_def intentInputs_def sample_hash_intent sample_domain_def)
       (simp add: sample_crypto_def sample_intent_def)
  moreover have "signed_fields ?i \<noteq> signed_fields ?j"
    by (simp add: signed_fields_def sample_intent_def)
  ultimately show ?thesis
    using HashIntent_binds [OF sample_abi_static sample_intent_in_range [of "''a''"] j,
        of sample_crypto sample_domain sample_domain] by blast
qed

text \<open>
  Loading a key: for every string that is the hexadecimal form of bytes, in either case, the vault is
  built from exactly these bytes, its address is the one of its key, a key \<open>ToECDSA\<close> refuses gives an
  error, and in both cases the decoded buffer holds only zeros when the function returns.
\<close>

lemma NewKeyVaultFromHex_decoded:
  assumes "hex_decoded s = Some b"
  shows "snd (NewKeyVaultFromHex cr s) = replicate (length b) 0 \<and>
    (case fst (NewKeyVaultFromHex cr s) of
       Inl e \<Rightarrow> (\<exists>m. ToECDSA cr b = Inl m \<and> e = BadKey m)
     | Inr v \<Rightarrow> ToECDSA cr b = Inr (kvPriv v) \<and> vault_ok cr v)"
proof -
  from assms have "hex_DecodeString s = (b, None)"
    by (auto simp: hex_decoded_def split: prod.splits option.splits)
  then show ?thesis
    by (simp add: NewKeyVaultFromHex_def Let_def vault_ok_def map_replicate_const split: sum.split)
qed

text \<open>
  What the vault signs, anyone can check: for a vault built by its constructor, \<open>RecoverSigner\<close> on a
  digest and the vault's signature of it returns the vault's address.
\<close>

lemma RecoverSigner_VaultSign:
  assumes "sign_format cr" and "sign_recovers cr" and "vault_ok cr v" and "VaultSign cr v h = Inr sig"
  shows "RecoverSigner cr h sig = Inr (VaultAddress v)"
proof -
  from assms(4) have "CryptoSign cr (hash_bytes h) (kvPriv v) = Inr sig"
    by (simp add: VaultSign_def split: sum.splits)
  with assms(1-3) show ?thesis
    by (auto simp: sign_format_def sign_recovers_def RecoverSigner_def vault_ok_def VaultAddress_def)
qed

end
