(* ===== verification/Nonce_Queue.thy ===== *)
theory Nonce_Queue
  imports Relayer_Prelude
begin

section \<open>The nonce queue (\<open>internal/txmanager/nonce_queue.go\<close>)\<close>

text \<open>
  The counter behind the relayer's transaction nonces. \<open>Next\<close> is one atomic add and \<open>Resync\<close> one
  atomic store, so a concurrent use of the queue is a sequence of these operations in some order: the
  theorems are about every sequence. The reply of the node to \<open>PendingNonceAt\<close> is an argument.

  The interface \<open>nonce_source\<close> states what a client relies on (a counter that is handed out and then
  incremented, and that can be set) and derives from it, once, which nonces a sequence of operations
  hands out; the queue interprets it.
\<close>

subsection \<open>Operations\<close>

record nonce_queue =
  nqCurrent :: "64 word"

datatype nonce_error = SeedFailed address string | ResyncFailed address string

definition NewNonceQueue ::
    "(address \<Rightarrow> string + 64 word) \<Rightarrow> address \<Rightarrow> nonce_error + nonce_queue" where
  "NewNonceQueue pendingNonceAt addr =
     (case pendingNonceAt addr of
        Inl e \<Rightarrow> Inl (SeedFailed addr e)
      | Inr n \<Rightarrow> Inr \<lparr>nqCurrent = n\<rparr>)"

definition Next :: "nonce_queue \<Rightarrow> 64 word \<times> nonce_queue" where
  "Next q = (let c = nqCurrent q + 1 in (c - 1, q\<lparr>nqCurrent := c\<rparr>))"

definition Resync ::
    "(address \<Rightarrow> string + 64 word) \<Rightarrow> address \<Rightarrow> nonce_queue \<Rightarrow> nonce_error option \<times> nonce_queue" where
  "Resync pendingNonceAt addr q =
     (case pendingNonceAt addr of
        Inl e \<Rightarrow> (Some (ResyncFailed addr e), q)
      | Inr n \<Rightarrow> (None, q\<lparr>nqCurrent := n\<rparr>))"

subsection \<open>The interface\<close>

text \<open>One operation of a client: take a nonce, or resynchronise with the given reply of the node.\<close>

datatype nonce_op = TakeNonce | ResyncWith "string + 64 word"

fun nonce_run ::
    "('s \<Rightarrow> 64 word \<times> 's) \<Rightarrow> (string + 64 word \<Rightarrow> 's \<Rightarrow> 's) \<Rightarrow> nonce_op list \<Rightarrow> 's \<Rightarrow>
       64 word list \<times> 's" where
  "nonce_run nxt syn [] s = ([], s)"
| "nonce_run nxt syn (TakeNonce # ops) s =
     (let (n, s') = nxt s; (ns, s'') = nonce_run nxt syn ops s' in (n # ns, s''))"
| "nonce_run nxt syn (ResyncWith r # ops) s = nonce_run nxt syn ops (syn r s)"

text \<open>
  A run from counter \<open>c\<close> in which no reply of the node is behind the counter and the counter does not
  wrap around.
\<close>

fun steady :: "64 word \<Rightarrow> nonce_op list \<Rightarrow> bool" where
  "steady c [] \<longleftrightarrow> True"
| "steady c (TakeNonce # ops) \<longleftrightarrow> c < c + 1 \<and> steady (c + 1) ops"
| "steady c (ResyncWith (Inl e) # ops) \<longleftrightarrow> steady c ops"
| "steady c (ResyncWith (Inr n) # ops) \<longleftrightarrow> c \<le> n \<and> steady n ops"

locale nonce_source =
  fixes nxt :: "'s \<Rightarrow> 64 word \<times> 's" and syn :: "string + 64 word \<Rightarrow> 's \<Rightarrow> 's"
    and counter :: "'s \<Rightarrow> 64 word"
  assumes take_value: "fst (nxt s) = counter s"
    and take_counter: "counter (snd (nxt s)) = counter s + 1"
    and failed_resync: "counter (syn (Inl e) s) = counter s"
    and resync_counter: "counter (syn (Inr n) s) = n"
begin

lemma take_many:
  "fst (nonce_run nxt syn (replicate k TakeNonce) s) = map (\<lambda>i. counter s + of_nat i) [0..<k] \<and>
   counter (snd (nonce_run nxt syn (replicate k TakeNonce) s)) = counter s + of_nat k"
proof (induction k arbitrary: s)
  case (Suc k)
  obtain n s' where n: "nxt s = (n, s')" by fastforce
  then have "n = counter s" "counter s' = counter s + 1"
    using take_value [of s] take_counter [of s] by simp_all
  with n Suc.IH [of s'] show ?case
    by (simp add: case_prod_beta upt_conv_Cons map_Suc_upt [symmetric] add.assoc [symmetric] del: upt_Suc)
qed simp

lemma run_steady:
  "steady (counter s) ops \<Longrightarrow>
     sorted_wrt (<) (fst (nonce_run nxt syn ops s)) \<and>
     (\<forall>n \<in> set (fst (nonce_run nxt syn ops s)). counter s \<le> n)"
proof (induction ops arbitrary: s)
  case (Cons op ops)
  show ?case
  proof (cases op)
    case TakeNonce
    obtain n s' where n: "nxt s = (n, s')" by fastforce
    then have v: "n = counter s" "counter s' = counter s + 1"
      using take_value [of s] take_counter [of s] by simp_all
    with Cons.prems TakeNonce Cons.IH [of s'] n show ?thesis
      by (auto simp: case_prod_beta intro: less_le_trans le_less_trans less_imp_le)
  next
    case (ResyncWith r)
    show ?thesis
    proof (cases r)
      case (Inl e)
      with ResyncWith Cons.prems Cons.IH [of "syn r s"] show ?thesis by (simp add: failed_resync)
    next
      case (Inr m)
      with ResyncWith Cons.prems Cons.IH [of "syn r s"] show ?thesis
        by (auto simp: resync_counter intro: order_trans)
    qed
  qed
qed simp

end

interpretation nq: nonce_source Next "\<lambda>r q. snd (Resync (\<lambda>_. r) addr q)" nqCurrent
  by unfold_locales (simp_all add: Next_def Resync_def Let_def)

lemma of_nat_word_inj_on: "k \<le> 2 ^ 64 \<Longrightarrow> distinct (map (\<lambda>i. (c :: 64 word) + of_nat i) [0..<k])"
  by (auto simp: distinct_map inj_on_def of_nat_inverse unat_of_nat
      intro: arg_cong [where f = unat, THEN trans [rotated]] dest: arg_cong [where f = unat])

text \<open>A use of the queue: any sequence of calls of \<open>Next\<close> and \<open>Resync\<close>, with the nonces handed out.\<close>

abbreviation queue_uses :: "address \<Rightarrow> nonce_op list \<Rightarrow> nonce_queue \<Rightarrow> 64 word list \<times> nonce_queue" where
  "queue_uses addr \<equiv> nonce_run Next (\<lambda>r q. snd (Resync (\<lambda>_. r) addr q))"

subsection \<open>Properties\<close>

text \<open>
  C28. Concurrent calls of \<open>Next\<close> never share a nonce: up to \<open>2^64\<close> calls, in whatever order the callers
  reach the atomic add, receive consecutive and pairwise distinct values starting at the counter, with
  the wrap-around of a 64-bit integer.
\<close>

theorem Next_distinct:
  assumes "k \<le> 2 ^ 64"
  shows "fst (queue_uses addr (replicate k TakeNonce) q) = map (\<lambda>i. nqCurrent q + of_nat i) [0..<k] \<and>
    distinct (fst (queue_uses addr (replicate k TakeNonce) q))"
  using nq.take_many [of addr k q] of_nat_word_inj_on [OF assms] by simp

theorem Next_distinct_witness:
  "fst (queue_uses 1 (replicate 3 TakeNonce) \<lparr>nqCurrent = 18446744073709551614\<rparr>) =
     [18446744073709551614, 18446744073709551615, 0]"
  using Next_distinct [of 3 1 "\<lparr>nqCurrent = 18446744073709551614\<rparr>"]
  by (simp add: upt_rec)

text \<open>
  Nonces only grow across resynchronisations that do not go back: if no reply of the node is below
  the counter and the counter does not wrap, the nonces handed out are strictly increasing, through any
  number of successful and failed calls of \<open>Resync\<close>.
\<close>

lemma nonces_increase:
  assumes "steady (nqCurrent q) ops"
  shows "sorted_wrt (<) (fst (queue_uses addr ops q)) \<and>
    (\<forall>n \<in> set (fst (queue_uses addr ops q)). nqCurrent q \<le> n)"
  by (rule nq.run_steady [OF assms])

end
