(* ===== verification/Executor.thy ===== *)
theory Executor
  imports Signer Nonce_Queue Go_Chan
begin

section \<open>The settlement executor (\<open>internal/txmanager/executor.go\<close>)\<close>

text \<open>
  \<open>execute\<close> turns one voucher into one \<open>claimFunds\<close> transaction, \<open>Run\<close> is the loop that feeds it. The
  node and the contract are outside: their answers during one call of \<open>execute\<close> are the argument
  \<open>node_replies\<close> (the tip, the error of \<open>ClaimFunds\<close> if any, the pending nonce), so that every theorem
  holds for all behaviours of the node. What leaves the executor is recorded: \<open>erCalls\<close> lists the
  calls of \<open>ClaimFunds\<close> with all their arguments.
\<close>

subsection \<open>Data\<close>

text \<open>
  \<open>types.LatestSignerForChainID(chainID)\<close> and \<open>tx.WithSignature\<close>, on an abstract type of transactions.
\<close>

record 'tx eth_signer =
  TxHash :: "int \<Rightarrow> 'tx \<Rightarrow> hash32"
  WithSignature :: "int \<Rightarrow> 'tx \<Rightarrow> bytes \<Rightarrow> string + 'tx"

datatype signer_error =
    AddressMismatch address address
  | TxSignFailed intent_id vault_error
  | WithSignatureFailed string

record 'tx transact_opts =
  toFrom :: address
  toNonce :: int
  toGasTipCap :: bigptr
  toSigner :: "address \<Rightarrow> 'tx \<Rightarrow> signer_error + 'tx"

text \<open>The arguments of one call of \<open>settlementCaller.ClaimFunds\<close>.\<close>

record 'tx claim_call =
  ccOpts :: "'tx transact_opts"
  ccIntentId :: bytes
  ccSolver :: address
  ccSignature :: bytes

record 'tx node_replies =
  rpTip :: "string + bigptr"
  rpClaim :: "'tx claim_call \<Rightarrow> string option"
  rpPending :: "address \<Rightarrow> string + 64 word"

record 'k executor =
  exVault :: "'k key_vault"
  exNonceQueue :: nonce_queue
  exChainID :: int

definition NewExecutor :: "'k key_vault \<Rightarrow> nonce_queue \<Rightarrow> int \<Rightarrow> 'k executor" where
  "NewExecutor vault nonceQueue chainID =
     \<lparr>exVault = vault, exNonceQueue = nonceQueue, exChainID = chainID\<rparr>"

datatype exec_error =
    SignFailed intent_id vault_error
  | TipFailed intent_id string
  | ClaimFailed intent_id string

record ('k, 'tx) exec_result =
  erErr :: "exec_error option"
  erExec :: "'k executor"
  erCalls :: "'tx claim_call list"

subsection \<open>\<open>execute\<close>\<close>

text \<open>\<open>copy(intentIDBytes[:], []byte(id))\<close> into a zeroed 32-byte array.\<close>

definition idBytes :: "intent_id \<Rightarrow> bytes" where
  "idBytes s = take 32 (string_bytes s @ replicate 32 0)"

text \<open>\<open>if sig[64] < 27 { sig[64] += 27 }\<close>\<close>

definition normalizeV :: "bytes \<Rightarrow> go_panic + bytes" where
  "normalizeV sig =
     (if length sig \<le> 64 then Inl IndexOutOfRange
      else Inr (if sig ! 64 < 27 then sig[64 := sig ! 64 + 27] else sig))"

text \<open>\<open>isNonceError\<close>, on the message of the error.\<close>

definition isNonceError :: "(string \<Rightarrow> string) \<Rightarrow> string \<Rightarrow> bool" where
  "isNonceError unicodeLower err =
     (let msg = ToLower unicodeLower err in
      Contains msg ''nonce too low'' \<or>
      Contains msg ''replacement transaction underpriced'' \<or>
      Contains msg ''already known'')"

text \<open>The \<open>Signer\<close> closure of the transaction options.\<close>

definition claimSigner ::
    "('k, 'p) crypto \<Rightarrow> 'tx eth_signer \<Rightarrow> 'k key_vault \<Rightarrow> int \<Rightarrow> intent_id \<Rightarrow>
       address \<Rightarrow> 'tx \<Rightarrow> signer_error + 'tx" where
  "claimSigner cr eth vault chainID iid addr tx =
     (if addr \<noteq> VaultAddress vault then Inl (AddressMismatch addr (VaultAddress vault))
      else
        (case VaultSign cr vault (TxHash eth chainID tx) of
           Inl e \<Rightarrow> Inl (TxSignFailed iid e)
         | Inr txSig \<Rightarrow>
             (case WithSignature eth chainID tx txSig of
                Inl e \<Rightarrow> Inl (WithSignatureFailed e)
              | Inr tx' \<Rightarrow> Inr tx')))"

text \<open>The transaction options and the call of \<open>ClaimFunds\<close>.\<close>

definition claimCall ::
    "('k, 'p) crypto \<Rightarrow> 'tx eth_signer \<Rightarrow> 'k executor \<Rightarrow> voucher \<Rightarrow> bytes \<Rightarrow> bytes \<Rightarrow> bigptr \<Rightarrow>
       64 word \<Rightarrow> 'tx claim_call" where
  "claimCall cr eth ex v intentIDBytes sig tip nonce =
     \<lparr>ccOpts =
        \<lparr>toFrom = VaultAddress (exVault ex), toNonce = uint nonce, toGasTipCap = tip,
         toSigner = claimSigner cr eth (exVault ex) (exChainID ex) (vIntentID v)\<rparr>,
      ccIntentId = intentIDBytes, ccSolver = vWinningSolver v, ccSignature = sig\<rparr>"

definition execute ::
    "('k, 'p) crypto \<Rightarrow> 'tx eth_signer \<Rightarrow> (string \<Rightarrow> string) \<Rightarrow> 'tx node_replies \<Rightarrow>
       'k executor \<Rightarrow> voucher \<Rightarrow> go_panic + ('k, 'tx) exec_result" where
  "execute cr eth unicodeLower rp ex v =
     (case vIntent v of
        None \<Rightarrow> Inl NilDereference
      | Some i \<Rightarrow>
          (let intentIDBytes = idBytes (iID i);
               digest = ClaimDigest cr intentIDBytes (vWinningSolver v)
           in case VaultSign cr (exVault ex) digest of
                Inl e \<Rightarrow>
                  Inr \<lparr>erErr = Some (SignFailed (vIntentID v) e), erExec = ex, erCalls = []\<rparr>
              | Inr sig0 \<Rightarrow>
                  (case normalizeV sig0 of
                     Inl p \<Rightarrow> Inl p
                   | Inr sig \<Rightarrow>
                       (case rpTip rp of
                          Inl e \<Rightarrow>
                            Inr \<lparr>erErr = Some (TipFailed (vIntentID v) e), erExec = ex, erCalls = []\<rparr>
                        | Inr tip \<Rightarrow>
                            (let (nonce, nq) = Next (exNonceQueue ex);
                                 call = claimCall cr eth ex v intentIDBytes sig tip nonce
                             in case rpClaim rp call of
                                  Some txErr \<Rightarrow>
                                    Inr \<lparr>erErr = Some (ClaimFailed (vIntentID v) txErr),
                                         erExec = ex\<lparr>exNonceQueue :=
                                           if isNonceError unicodeLower txErr
                                           then snd (Resync (rpPending rp) (VaultAddress (exVault ex)) nq)
                                           else nq\<rparr>,
                                         erCalls = [call]\<rparr>
                                | None \<Rightarrow>
                                    Inr \<lparr>erErr = None, erExec = ex\<lparr>exNonceQueue := nq\<rparr>,
                                         erCalls = [call]\<rparr>)))))"

subsection \<open>\<open>Run\<close>\<close>

text \<open>
  One iteration of the loop after a voucher has been received: \<open>execute\<close>, then on an error the
  non-blocking push of the id to \<open>txFailedCh\<close>. The state of the loop records what it did with every
  voucher: the replies of the node, the result, whether a failure was reported, and how many ids were
  waiting in \<open>txFailedCh\<close> when it was handled.
\<close>

record ('k, 'tx) handled =
  hVoucher :: voucher
  hReplies :: "'tx node_replies"
  hResult :: "('k, 'tx) exec_result"
  hReported :: bool
  hBacklog :: nat

record ('k, 'tx) exec_loop =
  xlExec :: "'k executor"
  xlVouchers :: "voucher gochan"
  xlFailed :: "intent_id gochan"
  xlCancelled :: bool
  xlReturned :: bool
  xlPanic :: "go_panic option"
  xlHandled :: "('k, 'tx) handled list"
  xlSent :: "voucher list"
  xlDrained :: "intent_id list"

definition reportFailure ::
    "exec_error option \<Rightarrow> intent_id \<Rightarrow> intent_id gochan \<Rightarrow> go_panic + bool \<times> intent_id gochan" where
  "reportFailure err iid ch = (case err of None \<Rightarrow> Inr (False, ch) | Some e \<Rightarrow> try_send iid ch)"

definition handleVoucher ::
    "('k, 'p) crypto \<Rightarrow> 'tx eth_signer \<Rightarrow> (string \<Rightarrow> string) \<Rightarrow> 'tx node_replies \<Rightarrow> voucher \<Rightarrow>
       ('k, 'tx) exec_loop \<Rightarrow> ('k, 'tx) exec_loop" where
  "handleVoucher cr eth unicodeLower rp v st =
     (case execute cr eth unicodeLower rp (xlExec st) v of
        Inl p \<Rightarrow> st\<lparr>xlPanic := Some p\<rparr>
      | Inr r \<Rightarrow>
          (case reportFailure (erErr r) (vIntentID v) (xlFailed st) of
             Inl p \<Rightarrow> st\<lparr>xlPanic := Some p\<rparr>
           | Inr (reported, ch) \<Rightarrow>
               st\<lparr>xlExec := erExec r, xlFailed := ch,
                  xlHandled := xlHandled st @
                    [\<lparr>hVoucher = v, hReplies = rp, hResult = r, hReported = reported,
                      hBacklog = length (chBuf (xlFailed st))\<rparr>]\<rparr>))"

definition executor_active :: "('k, 'tx) exec_loop \<Rightarrow> bool" where
  "executor_active st \<longleftrightarrow> \<not> xlReturned st \<and> xlPanic st = None"

text \<open>
  The loop among its environment: the engine sends vouchers, \<open>drainTxFailed\<close> receives ids, the
  context is cancelled. When the context is done and a voucher is waiting, \<open>select\<close> may take either.
\<close>

inductive executor_step ::
    "('k, 'p) crypto \<Rightarrow> 'tx eth_signer \<Rightarrow> (string \<Rightarrow> string) \<Rightarrow>
       ('k, 'tx) exec_loop \<Rightarrow> ('k, 'tx) exec_loop \<Rightarrow> bool" for cr eth unicodeLower where
  shutdown: "executor_active st \<Longrightarrow> xlCancelled st \<Longrightarrow>
     executor_step cr eth unicodeLower st (st\<lparr>xlReturned := True\<rparr>)"
| closed: "executor_active st \<Longrightarrow> chan_recv (xlVouchers st) = (ChanClosed, ch) \<Longrightarrow>
     executor_step cr eth unicodeLower st (st\<lparr>xlReturned := True\<rparr>)"
| handle: "executor_active st \<Longrightarrow> chan_recv (xlVouchers st) = (Received v, ch) \<Longrightarrow>
     executor_step cr eth unicodeLower st (handleVoucher cr eth unicodeLower rp v (st\<lparr>xlVouchers := ch\<rparr>))"
| send: "voucher_ok v \<Longrightarrow> try_send v (xlVouchers st) = Inr (True, ch) \<Longrightarrow>
     executor_step cr eth unicodeLower st (st\<lparr>xlVouchers := ch, xlSent := xlSent st @ [v]\<rparr>)"
| drain: "chan_recv (xlFailed st) = (Received iid, ch) \<Longrightarrow>
     executor_step cr eth unicodeLower st (st\<lparr>xlFailed := ch, xlDrained := xlDrained st @ [iid]\<rparr>)"
| cancel: "executor_step cr eth unicodeLower st (st\<lparr>xlCancelled := True\<rparr>)"

definition initLoop :: "'k executor \<Rightarrow> nat \<Rightarrow> nat \<Rightarrow> ('k, 'tx) exec_loop" where
  "initLoop ex voucherBuf txFailBuf =
     \<lparr>xlExec = ex, xlVouchers = make_chan voucherBuf, xlFailed = make_chan txFailBuf,
      xlCancelled = False, xlReturned = False, xlPanic = None, xlHandled = [], xlSent = [],
      xlDrained = []\<rparr>"

inductive executor_reach ::
    "('k, 'p) crypto \<Rightarrow> 'tx eth_signer \<Rightarrow> (string \<Rightarrow> string) \<Rightarrow> 'k executor \<Rightarrow> nat \<Rightarrow> nat \<Rightarrow>
       ('k, 'tx) exec_loop \<Rightarrow> bool" for cr eth unicodeLower ex voucherBuf txFailBuf where
  init: "executor_reach cr eth unicodeLower ex voucherBuf txFailBuf (initLoop ex voucherBuf txFailBuf)"
| step: "executor_reach cr eth unicodeLower ex voucherBuf txFailBuf st \<Longrightarrow>
     executor_step cr eth unicodeLower st st' \<Longrightarrow>
     executor_reach cr eth unicodeLower ex voucherBuf txFailBuf st'"

subsection \<open>One voucher\<close>

lemma length_idBytes [simp]: "length (idBytes s) = 32"
  by (simp add: idBytes_def)

text \<open>A signature in the form \<open>ecrecover\<close> expects, made by the holder of \<open>addr\<close> on \<open>digest\<close>.\<close>

definition evm_signed :: "('k, 'p) crypto \<Rightarrow> address \<Rightarrow> hash32 \<Rightarrow> bytes \<Rightarrow> bool" where
  "evm_signed cr addr digest sig \<longleftrightarrow>
     length sig = 65 \<and> (sig ! 64 = 27 \<or> sig ! 64 = 28) \<and>
     RecoverSigner cr digest (sig[64 := sig ! 64 - 27]) = Inr addr"

lemma normalizeV_signature:
  assumes "sign_format cr" and "VaultSign cr vault digest = Inr sig0"
  obtains sig where "normalizeV sig0 = Inr sig" and "length sig = 65"
    and "sig ! 64 = 27 \<or> sig ! 64 = 28" and "sig[64 := sig ! 64 - 27] = sig0"
proof -
  from assms have "length sig0 = 65" and v: "sig0 ! 64 = 0 \<or> sig0 ! 64 = 1"
    by (auto simp: VaultSign_def sign_format_def split: sum.splits)
  then show thesis
    by (intro that [of "sig0[64 := sig0 ! 64 + 27]"]) (auto simp: normalizeV_def)
qed

text \<open>The call a voucher must lead to.\<close>

definition claim_matches :: "('k, 'p) crypto \<Rightarrow> 'k executor \<Rightarrow> voucher \<Rightarrow> 'tx claim_call \<Rightarrow> bool" where
  "claim_matches cr ex v c \<longleftrightarrow>
     ccIntentId c = idBytes (vIntentID v) \<and> ccSolver c = vWinningSolver v \<and>
     toFrom (ccOpts c) = VaultAddress (exVault ex) \<and>
     toNonce (ccOpts c) = uint (nqCurrent (exNonceQueue ex)) \<and>
     length (ccSignature c) = 65 \<and>
     (sign_recovers cr \<longrightarrow> vault_ok cr (exVault ex) \<longrightarrow>
        evm_signed cr (VaultAddress (exVault ex)) (ClaimDigest cr (ccIntentId c) (ccSolver c)) (ccSignature c))"

lemma Next_eq: "Next q = (nqCurrent q, q\<lparr>nqCurrent := nqCurrent q + 1\<rparr>)"
  by (simp add: Next_def)

text \<open>The queue after a call of \<open>ClaimFunds\<close> has been answered.\<close>

definition queue_after ::
    "(string \<Rightarrow> string) \<Rightarrow> 'tx node_replies \<Rightarrow> 'k executor \<Rightarrow> string option \<Rightarrow> 64 word" where
  "queue_after unicodeLower rp ex err =
     (case err of
        Some m \<Rightarrow>
          (if isNonceError unicodeLower m
           then (case rpPending rp (VaultAddress (exVault ex)) of
                   Inl e \<Rightarrow> nqCurrent (exNonceQueue ex) + 1
                 | Inr n \<Rightarrow> n)
           else nqCurrent (exNonceQueue ex) + 1)
      | None \<Rightarrow> nqCurrent (exNonceQueue ex) + 1)"

lemma execute_cases:
  assumes format: "sign_format cr" and v: "voucher_ok v"
  obtains
    (unsigned) e where "execute cr eth ul rp ex v =
        Inr \<lparr>erErr = Some (SignFailed (vIntentID v) e), erExec = ex, erCalls = []\<rparr>"
  | (no_tip) e where "rpTip rp = Inl e" and "execute cr eth ul rp ex v =
        Inr \<lparr>erErr = Some (TipFailed (vIntentID v) e), erExec = ex, erCalls = []\<rparr>"
  | (called) c where "claim_matches cr ex v c" and "execute cr eth ul rp ex v =
        Inr \<lparr>erErr = map_option (ClaimFailed (vIntentID v)) (rpClaim rp c),
            erExec = ex\<lparr>exNonceQueue := \<lparr>nqCurrent = queue_after ul rp ex (rpClaim rp c)\<rparr>\<rparr>,
            erCalls = [c]\<rparr>"
proof -
  from v obtain i where i: "vIntent v = Some i" "vIntentID v = iID i" by (auto simp: voucher_ok_def)
  let ?digest = "ClaimDigest cr (idBytes (iID i)) (vWinningSolver v)"
  show thesis
  proof (cases "VaultSign cr (exVault ex) ?digest")
    case (Inl e)
    with i show thesis by (intro unsigned) (simp add: execute_def)
  next
    case (Inr sig0)
    obtain sig where sig: "normalizeV sig0 = Inr sig" "length sig = 65"
        "sig ! 64 = 27 \<or> sig ! 64 = 28" "sig[64 := sig ! 64 - 27] = sig0"
      using normalizeV_signature [OF format Inr] by blast
    show thesis
    proof (cases "rpTip rp")
      case tip: (Inl e)
      with i Inr sig show thesis by (intro no_tip) (simp_all add: execute_def)
    next
      case tip: (Inr t)
      define c where "c = claimCall cr eth ex v (idBytes (iID i)) sig t (nqCurrent (exNonceQueue ex))"
      have "RecoverSigner cr ?digest sig0 = Inr (VaultAddress (exVault ex))"
        if "sign_recovers cr" "vault_ok cr (exVault ex)"
        using Inr that format
        by (auto simp: VaultSign_def sign_format_def sign_recovers_def RecoverSigner_def vault_ok_def
            VaultAddress_def split: sum.splits)
      then have "claim_matches cr ex v c"
        using sig i by (simp add: claim_matches_def c_def claimCall_def evm_signed_def)
      moreover have "execute cr eth ul rp ex v =
          Inr \<lparr>erErr = map_option (ClaimFailed (vIntentID v)) (rpClaim rp c),
            erExec = ex\<lparr>exNonceQueue := \<lparr>nqCurrent = queue_after ul rp ex (rpClaim rp c)\<rparr>\<rparr>,
            erCalls = [c]\<rparr>"
        using i Inr sig tip
        by (simp add: execute_def Next_eq c_def [symmetric] queue_after_def Resync_def
            split: option.split sum.split)
      ultimately show thesis by (rule called)
    qed
  qed
qed

lemma execute_total:
  assumes "sign_format cr" and "voucher_ok v"
  obtains r where "execute cr eth ul rp ex v = Inr r" and "exVault (erExec r) = exVault ex"
    and "exChainID (erExec r) = exChainID ex"
  by (rule execute_cases [OF assms, of eth ul rp ex]) (use that in simp_all)

subsection \<open>The loop\<close>

text \<open>The executor that has gone through the given vouchers, one after the other.\<close>

fun replays ::
    "('k, 'p) crypto \<Rightarrow> 'tx eth_signer \<Rightarrow> (string \<Rightarrow> string) \<Rightarrow> 'k executor \<Rightarrow> ('k, 'tx) handled list \<Rightarrow>
       'k executor \<Rightarrow> bool" where
  "replays cr eth ul ex [] ex' \<longleftrightarrow> ex' = ex"
| "replays cr eth ul ex (h # hs) ex' \<longleftrightarrow>
     execute cr eth ul (hReplies h) ex (hVoucher h) = Inr (hResult h) \<and>
     replays cr eth ul (erExec (hResult h)) hs ex'"

lemma replays_snoc:
  "replays cr eth ul ex (hs @ [h]) ex'' \<longleftrightarrow>
     (\<exists>ex'. replays cr eth ul ex hs ex' \<and>
        execute cr eth ul (hReplies h) ex' (hVoucher h) = Inr (hResult h) \<and> ex'' = erExec (hResult h))"
  by (induction hs arbitrary: ex) auto

lemma replays_mem:
  "replays cr eth ul ex hs ex' \<Longrightarrow> h \<in> set hs \<Longrightarrow> sign_format cr \<Longrightarrow> \<forall>h \<in> set hs. voucher_ok (hVoucher h) \<Longrightarrow>
     \<exists>ex1. exVault ex1 = exVault ex \<and> execute cr eth ul (hReplies h) ex1 (hVoucher h) = Inr (hResult h)"
proof (induction hs arbitrary: ex)
  case (Cons g hs)
  from Cons.prems have ok: "voucher_ok (hVoucher g)" by simp
  from Cons.prems have run: "execute cr eth ul (hReplies g) ex (hVoucher g) = Inr (hResult g)" by simp
  obtain r where "execute cr eth ul (hReplies g) ex (hVoucher g) = Inr r"
      "exVault (erExec r) = exVault ex"
    by (rule execute_total [OF Cons.prems(3) ok])
  with run have same: "exVault (erExec (hResult g)) = exVault ex" by simp
  from Cons.prems Cons.IH [of "erExec (hResult g)"] same run show ?case by auto
qed simp

definition reported_ids :: "('k, 'tx) handled list \<Rightarrow> intent_id list" where
  "reported_ids hs = map (\<lambda>h. vIntentID (hVoucher h)) (filter hReported hs)"

definition report_ok :: "nat \<Rightarrow> ('k, 'tx) handled \<Rightarrow> bool" where
  "report_ok cap h \<longleftrightarrow> (hReported h \<longleftrightarrow> erErr (hResult h) \<noteq> None \<and> hBacklog h < cap)"

definition loop_ok ::
    "('k, 'p) crypto \<Rightarrow> 'tx eth_signer \<Rightarrow> (string \<Rightarrow> string) \<Rightarrow> 'k executor \<Rightarrow> nat \<Rightarrow>
       ('k, 'tx) exec_loop \<Rightarrow> bool" where
  "loop_ok cr eth ul ex cap st \<longleftrightarrow>
     xlPanic st = None \<and> chan_ok (xlVouchers st) \<and> chan_ok (xlFailed st) \<and> chCap (xlFailed st) = cap \<and>
     (\<forall>v \<in> set (xlSent st). voucher_ok v) \<and>
     xlSent st = map hVoucher (xlHandled st) @ chBuf (xlVouchers st) \<and>
     replays cr eth ul ex (xlHandled st) (xlExec st) \<and>
     reported_ids (xlHandled st) = xlDrained st @ chBuf (xlFailed st) \<and>
     (\<forall>h \<in> set (xlHandled st). report_ok cap h)"

lemma loop_okD:
  assumes "loop_ok cr eth ul ex cap st"
  shows "xlPanic st = None" "chan_ok (xlVouchers st)" "chan_ok (xlFailed st)"
    "chCap (xlFailed st) = cap" "v \<in> set (xlSent st) \<Longrightarrow> voucher_ok v"
    "xlSent st = map hVoucher (xlHandled st) @ chBuf (xlVouchers st)"
    "replays cr eth ul ex (xlHandled st) (xlExec st)"
    "reported_ids (xlHandled st) = xlDrained st @ chBuf (xlFailed st)"
    "h \<in> set (xlHandled st) \<Longrightarrow> report_ok cap h"
  using assms by (auto simp: loop_ok_def)

text \<open>One voucher handled: every part of the invariant is extended by one entry.\<close>

lemma reportFailure_run:
  assumes "chan_ok ch"
  obtains b ch' where "reportFailure err iid ch = Inr (b, ch')" and "chan_ok ch'"
    and "chCap ch' = chCap ch" and "chBuf ch' = chBuf ch @ (if b then [iid] else [])"
    and "b \<longleftrightarrow> err \<noteq> None \<and> length (chBuf ch) < chCap ch"
proof (cases err)
  case None
  with assms show thesis by (intro that [of False ch]) (simp_all add: reportFailure_def)
next
  case (Some e)
  obtain b ch' where "try_send iid ch = Inr (b, ch')" "chan_ok ch'" "chCap ch' = chCap ch"
      "chBuf ch' = chBuf ch @ (if b then [iid] else [])" "b \<longleftrightarrow> length (chBuf ch) < chCap ch"
    by (rule gochan.offer_total [OF assms])
  with Some show thesis by (intro that [of b ch']) (simp_all add: reportFailure_def)
qed

lemma handleVoucher_ok:
  assumes format: "sign_format cr" and ok: "loop_ok cr eth ul ex cap st"
    and recv: "chan_recv (xlVouchers st) = (Received v, ch)"
  shows "loop_ok cr eth ul ex cap (handleVoucher cr eth ul rp v (st\<lparr>xlVouchers := ch\<rparr>))"
proof -
  note inv = loop_okD [OF ok]
  note buf = chan_recv_ReceivedD [OF recv]
  have chok: "chan_ok ch" by (rule buf(4) [OF inv(2)])
  have vok: "voucher_ok v" by (rule inv(5)) (simp add: inv(6) buf)
  obtain r where r: "execute cr eth ul rp (xlExec st) v = Inr r"
    by (rule execute_total [OF format vok])
  obtain b fch where f: "reportFailure (erErr r) (vIntentID v) (xlFailed st) = Inr (b, fch)"
      "chan_ok fch" "chCap fch = chCap (xlFailed st)"
      "chBuf fch = chBuf (xlFailed st) @ (if b then [vIntentID v] else [])"
      "b \<longleftrightarrow> erErr r \<noteq> None \<and> length (chBuf (xlFailed st)) < chCap (xlFailed st)"
    by (rule reportFailure_run [OF inv(3)])
  show ?thesis
    using inv chok f buf(1) r
    by (auto simp: handleVoucher_def loop_ok_def replays_snoc reported_ids_def report_ok_def)
qed

lemma executor_step_ok:
  assumes "executor_step cr eth ul st st'" and "sign_format cr" and "loop_ok cr eth ul ex cap st"
  shows "loop_ok cr eth ul ex cap st'"
  using assms
proof (induction rule: executor_step.induct)
  case (handle st v ch rp)
  then show ?case by (blast intro: handleVoucher_ok)
next
  case (send v st ch)
  then show ?case by (auto simp: loop_ok_def try_send_def split: if_splits)
next
  case (drain st iid ch)
  with chan_recv_ReceivedD [OF drain(1)] show ?case by (simp add: loop_ok_def)
qed (simp_all add: loop_ok_def)

lemma executor_reach_ok:
  assumes "executor_reach cr eth ul ex n cap st" and "sign_format cr"
  shows "loop_ok cr eth ul ex cap st"
  using assms
proof (induction rule: executor_reach.induct)
  case init
  show ?case by (simp add: loop_ok_def initLoop_def reported_ids_def)
next
  case (step st st')
  then show ?case by (blast intro: executor_step_ok)
qed

subsection \<open>The nonces of a run\<close>

text \<open>The operations on the nonce queue that handling a voucher performed, and the nonces it used.\<close>

definition handled_ops :: "(string \<Rightarrow> string) \<Rightarrow> address \<Rightarrow> ('k, 'tx) handled \<Rightarrow> nonce_op list" where
  "handled_ops ul addr h =
     concat (map (\<lambda>c. TakeNonce #
       (case rpClaim (hReplies h) c of
          None \<Rightarrow> []
        | Some m \<Rightarrow> if isNonceError ul m then [ResyncWith (rpPending (hReplies h) addr)] else []))
       (erCalls (hResult h)))"

definition call_nonces :: "('k, 'tx) handled \<Rightarrow> int list" where
  "call_nonces h = map (\<lambda>c. toNonce (ccOpts c)) (erCalls (hResult h))"

lemma execute_nonces:
  fixes addr :: address
  assumes "sign_format cr" and "voucher_ok (hVoucher h)"
    and "execute cr eth ul (hReplies h) ex (hVoucher h) = Inr (hResult h)"
  defines "uses \<equiv> queue_uses addr (handled_ops ul (VaultAddress (exVault ex)) h) (exNonceQueue ex)"
  shows "call_nonces h = map uint (fst uses)" "exNonceQueue (erExec (hResult h)) = snd uses"
    "exVault (erExec (hResult h)) = exVault ex"
proof -
  have "call_nonces h = map uint (fst uses) \<and> exNonceQueue (erExec (hResult h)) = snd uses \<and>
      exVault (erExec (hResult h)) = exVault ex"
  proof (rule execute_cases [OF assms(1,2), of eth ul "hReplies h" ex])
    fix c
    assume c: "claim_matches cr ex (hVoucher h) c"
      and run: "execute cr eth ul (hReplies h) ex (hVoucher h) =
        Inr \<lparr>erErr = map_option (ClaimFailed (vIntentID (hVoucher h))) (rpClaim (hReplies h) c),
          erExec = ex\<lparr>exNonceQueue := \<lparr>nqCurrent = queue_after ul (hReplies h) ex (rpClaim (hReplies h) c)\<rparr>\<rparr>,
          erCalls = [c]\<rparr>"
    show ?thesis
      using c run assms(3)
      by (auto simp: uses_def call_nonces_def handled_ops_def queue_after_def Next_eq Resync_def
          claim_matches_def split: option.split sum.split)
  qed (use assms(3) in \<open>simp_all add: uses_def call_nonces_def handled_ops_def\<close>)
  then show "call_nonces h = map uint (fst uses)" "exNonceQueue (erExec (hResult h)) = snd uses"
    "exVault (erExec (hResult h)) = exVault ex" by simp_all
qed

lemma nonce_run_append:
  "nonce_run nxt syn (as @ bs) s =
     (let (ns, s') = nonce_run nxt syn as s; (ms, s'') = nonce_run nxt syn bs s' in (ns @ ms, s''))"
proof (induction as arbitrary: s)
  case (Cons a as)
  then show ?case by (cases a) (simp_all add: case_prod_beta Let_def)
qed simp

lemma replays_nonces:
  assumes "sign_format cr"
  shows "replays cr eth ul ex hs ex' \<Longrightarrow> \<forall>h \<in> set hs. voucher_ok (hVoucher h) \<Longrightarrow>
    concat (map call_nonces hs) =
      map uint (fst (queue_uses addr (concat (map (handled_ops ul (VaultAddress (exVault ex))) hs)) (exNonceQueue ex)))"
proof (induction hs arbitrary: ex)
  case (Cons h hs)
  from Cons.prems have run: "execute cr eth ul (hReplies h) ex (hVoucher h) = Inr (hResult h)"
    and ok: "voucher_ok (hVoucher h)" by simp_all
  note one = execute_nonces(1,2) [OF assms ok run, where addr = addr] execute_nonces(3) [OF assms ok run]
  from Cons.prems one Cons.IH [of "erExec (hResult h)"] show ?case
    by (simp add: nonce_run_append case_prod_beta)
qed simp

subsection \<open>Two concrete vouchers\<close>

definition sample_voucher :: "intent_id \<Rightarrow> address \<Rightarrow> voucher" where
  "sample_voucher iid solver =
     \<lparr>vIntentID = iid, vWinningSolver = solver, vAmountOut = Some 950,
      vIntent = Some (sample_intent iid 900), vWinningBid = Some (sample_bid iid solver 950 1),
      vCreatedAt = time_Unix 1700000002\<rparr>"

lemma sample_voucher_ok: "voucher_ok (sample_voucher iid solver)"
  by (simp add: voucher_ok_def sample_voucher_def sample_defs bid_priced_def)

definition sample_executor :: "byte executor" where
  "sample_executor = NewExecutor \<lparr>kvPriv = 9, kvAddr = 9\<rparr> \<lparr>nqCurrent = 4\<rparr> 31337"

definition sample_replies :: "string option \<Rightarrow> nat node_replies" where
  "sample_replies err =
     \<lparr>rpTip = Inr (Some 1), rpClaim = (\<lambda>c. err), rpPending = (\<lambda>a. Inr 6)\<rparr>"

definition sample_eth :: "nat eth_signer" where
  "sample_eth = \<lparr>TxHash = (\<lambda>chain tx. of_nat tx), WithSignature = (\<lambda>chain tx sig. Inr tx)\<rparr>"

lemma sample_vault_ok: "vault_ok sample_crypto (exVault sample_executor)"
  by (simp add: vault_ok_def sample_executor_def NewExecutor_def sample_crypto_def)

text \<open>A voucher sent to an idle loop and handled by it.\<close>

lemma reach_sent_and_handled:
  assumes reach: "executor_reach cr eth ul ex n cap st" and act: "executor_active st"
    and ch: "xlVouchers st = make_chan k" "0 < k" and v: "voucher_ok v"
  shows "executor_reach cr eth ul ex n cap (handleVoucher cr eth ul rp v (st\<lparr>xlSent := xlSent st @ [v]\<rparr>))"
proof -
  let ?ch = "(make_chan k)\<lparr>chBuf := [v]\<rparr>"
  let ?st = "st\<lparr>xlVouchers := ?ch, xlSent := xlSent st @ [v]\<rparr>"
  have "executor_step cr eth ul st ?st"
    by (rule executor_step.send [OF v]) (use ch in \<open>simp add: try_send_def\<close>)
  then have reach1: "executor_reach cr eth ul ex n cap ?st" by (rule executor_reach.step [OF reach])
  have "executor_step cr eth ul ?st (handleVoucher cr eth ul rp v (?st\<lparr>xlVouchers := make_chan k\<rparr>))"
    by (rule executor_step.handle) (use act in \<open>simp_all add: executor_active_def chan_recv_def make_chan_def\<close>)
  then have "executor_reach cr eth ul ex n cap
      (handleVoucher cr eth ul rp v (?st\<lparr>xlVouchers := make_chan k\<rparr>))"
    by (rule executor_reach.step [OF reach1])
  moreover have "?st\<lparr>xlVouchers := make_chan k\<rparr> = st\<lparr>xlSent := xlSent st @ [v]\<rparr>"
    using ch by simp
  ultimately show ?thesis by simp
qed

text \<open>The first claim is refused for its nonce, the second one is accepted.\<close>

definition sample_state :: "(byte, nat) exec_loop" where
  "sample_state =
     (let run = handleVoucher sample_crypto sample_eth (\<lambda>s. s);
          v = sample_voucher ''a'' 7; w = sample_voucher ''b'' 8;
          s0 = initLoop sample_executor 256 128;
          s1 = run (sample_replies (Some ''Nonce too low'')) v (s0\<lparr>xlSent := [v]\<rparr>)
      in run (sample_replies None) w (s1\<lparr>xlSent := [v, w]\<rparr>))"

lemma sample_nonce_error: "isNonceError (\<lambda>s. s) ''Nonce too low''"
  by code_simp

lemmas sample_run_defs = handleVoucher_def execute_def reportFailure_def initLoop_def sample_executor_def
  NewExecutor_def sample_replies_def sample_voucher_def sample_intent_def VaultSign_def normalizeV_def
  Next_eq Resync_def sample_nonce_error VaultAddress_def try_send_def claimCall_def

lemma sample_first:
  fixes s0 :: "(byte, nat) exec_loop"
  assumes "s0 = initLoop sample_executor 256 128"
    and "s1 = handleVoucher sample_crypto sample_eth (\<lambda>s. s) (sample_replies (Some ''Nonce too low''))
      (sample_voucher ''a'' 7) (s0\<lparr>xlSent := [sample_voucher ''a'' 7]\<rparr>)"
  shows "executor_active s1" "xlVouchers s1 = make_chan 256" "xlSent s1 = [sample_voucher ''a'' 7]"
    "xlExec s1 = sample_executor\<lparr>exNonceQueue := \<lparr>nqCurrent = 6\<rparr>\<rparr>" "xlPanic s1 = None"
    "chan_ok (xlFailed s1)"
    "\<exists>h. xlHandled s1 = [h] \<and> hVoucher h = sample_voucher ''a'' 7 \<and>
       hReplies h = sample_replies (Some ''Nonce too low'') \<and>
       erErr (hResult h) = Some (ClaimFailed ''a'' ''Nonce too low'') \<and> call_nonces h = [4]"
  by (simp_all add: assms sample_run_defs executor_active_def sample_crypto_def nth_append
      call_nonces_def chan_ok_def)

lemma sample_state_run:
  shows "executor_reach sample_crypto sample_eth (\<lambda>s. s) sample_executor 256 128 sample_state"
    and "\<exists>h1 h2. xlHandled sample_state = [h1, h2] \<and> hVoucher h1 = sample_voucher ''a'' 7 \<and>
       hVoucher h2 = sample_voucher ''b'' 8 \<and> hReplies h1 = sample_replies (Some ''Nonce too low'') \<and>
       hReplies h2 = sample_replies None \<and>
       erErr (hResult h1) = Some (ClaimFailed ''a'' ''Nonce too low'') \<and> erErr (hResult h2) = None \<and>
       call_nonces h1 = [4] \<and> call_nonces h2 = [6]"
proof -
  define s0 :: "(byte, nat) exec_loop" where "s0 = initLoop sample_executor 256 128"
  define s1 where "s1 = handleVoucher sample_crypto sample_eth (\<lambda>s. s)
    (sample_replies (Some ''Nonce too low'')) (sample_voucher ''a'' 7) (s0\<lparr>xlSent := [sample_voucher ''a'' 7]\<rparr>)"
  note one = sample_first [OF s0_def s1_def]
  have st: "sample_state = handleVoucher sample_crypto sample_eth (\<lambda>s. s) (sample_replies None)
      (sample_voucher ''b'' 8) (s1\<lparr>xlSent := [sample_voucher ''a'' 7, sample_voucher ''b'' 8]\<rparr>)"
    by (simp add: sample_state_def s0_def s1_def Let_def)
  have "executor_reach sample_crypto sample_eth (\<lambda>s. s) sample_executor 256 128 s1"
    using reach_sent_and_handled [OF executor_reach.init _ _ _ sample_voucher_ok,
        of sample_executor 256 128 256 sample_crypto sample_eth "\<lambda>s. s" _ "''a''" 7]
    by (simp add: s1_def s0_def executor_active_def initLoop_def)
  from reach_sent_and_handled [OF this one(1,2) _ sample_voucher_ok, of "sample_replies None" "''b''" 8]
  show "executor_reach sample_crypto sample_eth (\<lambda>s. s) sample_executor 256 128 sample_state"
    by (simp add: st one(3))
  from one(7) obtain h where h: "xlHandled s1 = [h]" "hVoucher h = sample_voucher ''a'' 7"
      "hReplies h = sample_replies (Some ''Nonce too low'')"
      "erErr (hResult h) = Some (ClaimFailed ''a'' ''Nonce too low'')" "call_nonces h = [4]" by blast
  show "\<exists>h1 h2. xlHandled sample_state = [h1, h2] \<and> hVoucher h1 = sample_voucher ''a'' 7 \<and>
       hVoucher h2 = sample_voucher ''b'' 8 \<and> hReplies h1 = sample_replies (Some ''Nonce too low'') \<and>
       hReplies h2 = sample_replies None \<and>
       erErr (hResult h1) = Some (ClaimFailed ''a'' ''Nonce too low'') \<and> erErr (hResult h2) = None \<and>
       call_nonces h1 = [4] \<and> call_nonces h2 = [6]"
    using h one(4)
    by (simp add: st handleVoucher_def execute_def reportFailure_def sample_executor_def NewExecutor_def
        sample_voucher_def [of "''b''"] sample_intent_def VaultSign_def normalizeV_def Next_eq claimCall_def
        sample_crypto_def nth_append call_nonces_def [of "handled.make _ _ _ _ _"] sample_replies_def [of None])
       (simp add: call_nonces_def sample_replies_def)
qed

text \<open>Removing the padding gives the id back.\<close>

definition unpad :: "bytes \<Rightarrow> bytes" where
  "unpad bs = rev (dropWhile (\<lambda>b. b = 0) (rev bs))"

lemma of_char_byte_0 [simp]: "(of_char c :: byte) = 0 \<longleftrightarrow> c = CHR 0x00"
  using of_char_byte_eq_iff [of c "CHR 0x00"] by (simp del: of_char_byte_eq_iff)

lemma unpad_idBytes:
  assumes "length s \<le> 32" and "s \<noteq> [] \<Longrightarrow> last s \<noteq> CHR 0x00"
  shows "unpad (idBytes s) = string_bytes s"
proof -
  have "rev (idBytes s) = replicate (32 - length s) 0 @ rev (string_bytes s)"
    using assms(1) by (simp add: idBytes_def)
  then have "dropWhile (\<lambda>b. b = 0) (rev (idBytes s)) = dropWhile (\<lambda>b. b = 0) (rev (string_bytes s))"
    by (simp add: dropWhile_append)
  also have "\<dots> = rev (string_bytes s)"
  proof (cases s rule: rev_cases)
    case (snoc t c)
    with assms(2) show ?thesis by simp
  qed simp
  finally show ?thesis by (simp add: unpad_def)
qed

subsection \<open>Properties\<close>

text \<open>
  What leaves the executor for a voucher. On a well-formed voucher \<open>execute\<close> does not panic; it
  makes at most one call of \<open>ClaimFunds\<close>, for the first 32 bytes of the voucher's id (padded with zero
  bytes) and the winning solver, from the vault's address, with the next nonce, and with a 65-byte
  signature whose V is 27 or 28 and from which the vault's address recovers on the digest of exactly
  that id and solver. It returns no error exactly when the call was made and accepted.
\<close>

lemma execute_claims:
  assumes "sign_format cr" and "sign_recovers cr" and "vault_ok cr (exVault ex)" and "voucher_ok v"
  shows "\<exists>r. execute cr eth ul rp ex v = Inr r \<and>
    (erErr r = None \<longleftrightarrow> (\<exists>c. erCalls r = [c] \<and> rpClaim rp c = None)) \<and>
    (\<forall>c \<in> set (erCalls r). erCalls r = [c] \<and>
       ccIntentId c = idBytes (vIntentID v) \<and> ccSolver c = vWinningSolver v \<and>
       toFrom (ccOpts c) = VaultAddress (exVault ex) \<and>
       toNonce (ccOpts c) = uint (nqCurrent (exNonceQueue ex)) \<and>
       evm_signed cr (VaultAddress (exVault ex))
         (ClaimDigest cr (idBytes (vIntentID v)) (vWinningSolver v)) (ccSignature c))"
proof (rule execute_cases [OF assms(1,4), of eth ul rp ex])
  fix c
  assume "claim_matches cr ex v c" and "execute cr eth ul rp ex v =
        Inr \<lparr>erErr = map_option (ClaimFailed (vIntentID v)) (rpClaim rp c),
            erExec = ex\<lparr>exNonceQueue := \<lparr>nqCurrent = queue_after ul rp ex (rpClaim rp c)\<rparr>\<rparr>,
            erCalls = [c]\<rparr>"
  with assms show ?thesis by (simp add: claim_matches_def) metis
qed simp_all

text \<open>
  C25. What \<open>execute\<close> does to the nonce. A failure before the submission (signing, tip) leaves the queue
  as it is. After a submission the next nonce is one higher, whether the node accepted the transaction
  or refused it for a reason that is not its nonce (the gap the code logs) or the resynchronisation
  failed; only a nonce error answered by the node sets it, to the node's pending nonce.
\<close>

theorem execute_nonce_effect:
  assumes "sign_format cr" and "voucher_ok v"
  shows "\<exists>r. execute cr eth ul rp ex v = Inr r \<and> exVault (erExec r) = exVault ex \<and>
    nqCurrent (exNonceQueue (erExec r)) =
      (case erCalls r of
         [] \<Rightarrow> nqCurrent (exNonceQueue ex)
       | c # _ \<Rightarrow>
           (case (rpClaim rp c, rpPending rp (VaultAddress (exVault ex))) of
              (Some m, Inr n) \<Rightarrow> if isNonceError ul m then n else nqCurrent (exNonceQueue ex) + 1
            | _ \<Rightarrow> nqCurrent (exNonceQueue ex) + 1))"
  by (rule execute_cases [OF assms, of eth ul rp ex])
     (simp_all add: queue_after_def split: option.split sum.split)

theorem execute_nonce_effect_witness:
  "\<exists>r. execute sample_crypto sample_eth (\<lambda>s. s) (sample_replies (Some ''Nonce too low'')) sample_executor
       (sample_voucher ''a'' 7) = Inr r \<and> nqCurrent (exNonceQueue (erExec r)) = 6"
proof -
  let ?rp = "sample_replies (Some ''Nonce too low'')"
  obtain r where r: "execute sample_crypto sample_eth (\<lambda>s. s) ?rp sample_executor (sample_voucher ''a'' 7) = Inr r"
    "nqCurrent (exNonceQueue (erExec r)) =
      (case erCalls r of [] \<Rightarrow> nqCurrent (exNonceQueue sample_executor)
       | c # _ \<Rightarrow> (case (rpClaim ?rp c, rpPending ?rp (VaultAddress (exVault sample_executor))) of
            (Some m, Inr n) \<Rightarrow> if isNonceError (\<lambda>s. s) m then n else nqCurrent (exNonceQueue sample_executor) + 1
          | _ \<Rightarrow> nqCurrent (exNonceQueue sample_executor) + 1))"
    using execute_nonce_effect [OF sample_crypto_laws(1) sample_voucher_ok,
        of sample_eth "\<lambda>s. s" ?rp sample_executor "''a''" 7] by auto
  have "erCalls r \<noteq> []"
    using r(1) by (simp add: sample_run_defs sample_crypto_def nth_append) auto
  with r have "nqCurrent (exNonceQueue (erExec r)) = 6"
    by (simp add: sample_replies_def sample_nonce_error split: list.splits)
  with r(1) show ?thesis by blast
qed

text \<open>
  The loop handles every voucher once and in order, and does not panic: in every run, with every
  behaviour of the node, the vouchers sent to it are those it has handled, in that order, followed by
  those still in the channel; every handled voucher was given to \<open>execute\<close> under the same vault; and
  no send or receive of the loop panics.
\<close>

lemma executor_handles_in_order:
  assumes "executor_reach cr eth ul ex voucherBuf txFailBuf st" and "sign_format cr"
  shows "xlPanic st = None \<and> xlSent st = map hVoucher (xlHandled st) @ chBuf (xlVouchers st) \<and>
    (\<forall>h \<in> set (xlHandled st). \<exists>ex1. exVault ex1 = exVault ex \<and>
       execute cr eth ul (hReplies h) ex1 (hVoucher h) = Inr (hResult h))"
proof -
  note ok = loop_okD [OF executor_reach_ok [OF assms]]
  have "voucher_ok (hVoucher h)" if "h \<in> set (xlHandled st)" for h
    by (rule ok(5)) (use that in \<open>simp add: ok(6)\<close>)
  then show ?thesis using ok(1,6) replays_mem [OF ok(7) _ assms(2)] by blast
qed

lemma executor_handles_in_order_instance:
  "xlPanic sample_state = None \<and>
   xlSent sample_state = [sample_voucher ''a'' 7, sample_voucher ''b'' 8] @ chBuf (xlVouchers sample_state)"
  using executor_handles_in_order [OF sample_state_run(1) sample_crypto_laws(1)] sample_state_run(2)
  by auto

text \<open>
  C10. No two claims share a nonce. The nonces of the calls of \<open>ClaimFunds\<close> of a run, in the order of
  the calls, are strictly increasing, provided the node never answered a resynchronisation with a
  pending nonce below the counter and the counter did not wrap around.
\<close>

theorem executor_nonces_increase:
  assumes "executor_reach cr eth ul ex voucherBuf txFailBuf st" and "sign_format cr"
    and "steady (nqCurrent (exNonceQueue ex))
      (concat (map (handled_ops ul (VaultAddress (exVault ex))) (xlHandled st)))"
  shows "sorted_wrt (<) (concat (map call_nonces (xlHandled st)))"
proof -
  note ok = loop_okD [OF executor_reach_ok [OF assms(1,2)]]
  have "\<forall>h \<in> set (xlHandled st). voucher_ok (hVoucher h)"
    using ok(5) by (simp add: ok(6))
  note nonces = replays_nonces [OF assms(2) ok(7) this, of 0]
  from nq.run_steady [OF assms(3), of 0] show ?thesis
    by (auto simp: nonces sorted_wrt_map word_less_def elim: sorted_wrt_mono_rel [rotated])
qed

theorem executor_nonces_increase_witness:
  "sorted_wrt (<) (concat (map call_nonces (xlHandled sample_state))) \<and>
   concat (map call_nonces (xlHandled sample_state)) = [4, 6]"
proof -
  from sample_state_run(2) obtain h1 h2 where h: "xlHandled sample_state = [h1, h2]"
      "hReplies h1 = sample_replies (Some ''Nonce too low'')" "hReplies h2 = sample_replies None"
      "call_nonces h1 = [4]" "call_nonces h2 = [6]" by blast
  then have "length (erCalls (hResult h1)) = 1" "length (erCalls (hResult h2)) = 1"
    by (metis call_nonces_def length_map length_Cons list.size(3) One_nat_def)+
  then obtain c1 c2 where "erCalls (hResult h1) = [c1]" "erCalls (hResult h2) = [c2]"
    by (auto simp: length_Suc_conv)
  with h have "steady (nqCurrent (exNonceQueue sample_executor)) (concat (map (handled_ops (\<lambda>s. s)
      (VaultAddress (exVault sample_executor))) (xlHandled sample_state)))"
    by (simp add: handled_ops_def sample_replies_def sample_nonce_error sample_executor_def NewExecutor_def)
  from executor_nonces_increase [OF sample_state_run(1) sample_crypto_laws(1) this] h
  show ?thesis by simp
qed

text \<open>
  C26. Failures are reported. The ids drained from \<open>txFailedCh\<close> and those waiting in it are the ids of the
  vouchers reported, in the order they were handled; a voucher is reported exactly when \<open>execute\<close>
  returned an error and the channel had room at that moment.
\<close>

theorem executor_reports_failures:
  assumes "executor_reach cr eth ul ex voucherBuf txFailBuf st" and "sign_format cr"
  shows "xlDrained st @ chBuf (xlFailed st) = map (\<lambda>h. vIntentID (hVoucher h)) (filter hReported (xlHandled st)) \<and>
    (\<forall>h \<in> set (xlHandled st). hReported h \<longleftrightarrow> erErr (hResult h) \<noteq> None \<and> hBacklog h < txFailBuf)"
  using loop_okD(8,9) [OF executor_reach_ok [OF assms]] by (auto simp: reported_ids_def report_ok_def)

theorem executor_reports_failures_witness:
  "\<exists>h1 h2. xlHandled sample_state = [h1, h2] \<and> (hReported h1 \<longleftrightarrow> hBacklog h1 < 128) \<and> \<not> hReported h2"
  using executor_reports_failures [OF sample_state_run(1) sample_crypto_laws(1)] sample_state_run(2)
  by auto

text \<open>
  Short ids stay apart on chain: for ids of at most 32 bytes that do not end in a zero byte the
  \<open>bytes32\<close> key of the escrow determines the id.
\<close>

lemma idBytes_injective:
  assumes "length s \<le> 32" and "length t \<le> 32"
    and "s \<noteq> [] \<Longrightarrow> last s \<noteq> CHR 0x00" and "t \<noteq> [] \<Longrightarrow> last t \<noteq> CHR 0x00"
  shows "idBytes s = idBytes t \<longleftrightarrow> s = t"
  using unpad_idBytes [OF assms(1,3)] unpad_idBytes [OF assms(2,4)] by (metis string_bytes_eq_iff)

lemma idBytes_eq_iff:
  assumes "CHR 0x00 \<notin> set s" and "CHR 0x00 \<notin> set t"
  shows "idBytes s = idBytes t \<longleftrightarrow> take 32 s = take 32 t"
proof -
  have cut: "idBytes u = idBytes (take 32 u)" for u by (simp add: idBytes_def string_bytes_def take_map min_def)
  have ends: "take 32 u \<noteq> [] \<Longrightarrow> last (take 32 u) \<noteq> CHR 0x00" if "CHR 0x00 \<notin> set u" for u
    using that by (metis last_in_set in_set_takeD)
  have "idBytes (take 32 s) = idBytes (take 32 t) \<longleftrightarrow> take 32 s = take 32 t"
    by (rule idBytes_injective [OF _ _ ends [OF assms(1)] ends [OF assms(2)]]) simp_all
  with cut show ?thesis by metis
qed

text \<open>
  C40. Which intents share an escrow. Two runs of \<open>execute\<close> that reach the contract, on any node and
  in any state of the executor, name the same escrow exactly when the first 32 bytes of the two intent ids agree
  (ids without NUL bytes, which would be taken for padding). So ids of up to 32 bytes are told apart, and
  UUIDs, which have 36, are not when only the last four differ.
\<close>

theorem claims_share_escrow_iff:
  assumes "sign_format cr" and "voucher_ok v" and "voucher_ok w"
    and "execute cr eth ul rp ex v = Inr res" and "c \<in> set (erCalls res)"
    and "execute cr eth ul rp' ex' w = Inr res'" and "c' \<in> set (erCalls res')"
    and "CHR 0x00 \<notin> set (vIntentID v)" and "CHR 0x00 \<notin> set (vIntentID w)"
  shows "ccIntentId c = ccIntentId c' \<longleftrightarrow> take 32 (vIntentID v) = take 32 (vIntentID w)"
proof -
  have named: "ccIntentId c = idBytes (vIntentID v)"
    if "voucher_ok v" "execute cr eth ul rp ex v = Inr res" "c \<in> set (erCalls res)" for v rp ex res c
    by (cases rule: execute_cases [OF assms(1) that(1), of eth ul rp ex]) (use that in \<open>auto simp: claim_matches_def\<close>)
  from named [OF assms(2,4,5)] named [OF assms(3,6,7)] show ?thesis
    by (simp add: idBytes_eq_iff [OF assms(8,9)])
qed

theorem claims_share_escrow_iff_witness:
  "\<exists>res c res' c'.
     execute sample_crypto sample_eth (\<lambda>s. s) (sample_replies None) sample_executor
       (sample_voucher ''f47ac10b-58cc-4372-a567-0e02b2c3d479'' 7) = Inr res \<and> erCalls res = [c] \<and>
     execute sample_crypto sample_eth (\<lambda>s. s) (sample_replies None) sample_executor
       (sample_voucher ''f47ac10b-58cc-4372-a567-0e02b2c3e8a1'' 8) = Inr res' \<and> erCalls res' = [c'] \<and>
     ccIntentId c = ccIntentId c'"
proof -
  let ?run = "\<lambda>iid solver. execute sample_crypto sample_eth (\<lambda>s. s) (sample_replies None) sample_executor (sample_voucher iid solver)"
  let ?u = "''f47ac10b-58cc-4372-a567-0e02b2c3d479''" and ?w = "''f47ac10b-58cc-4372-a567-0e02b2c3e8a1''"
  have run: "\<exists>res c. ?run iid solver = Inr res \<and> erCalls res = [c]" for iid solver
    by (simp add: sample_run_defs sample_crypto_def nth_append)
  then obtain res c res' c' where r: "?run ?u 7 = Inr res" "erCalls res = [c]" "?run ?w 8 = Inr res'" "erCalls res' = [c']"
    by meson
  have sets: "c \<in> set (erCalls res)" "c' \<in> set (erCalls res')" using r by simp_all
  have ids: "vIntentID (sample_voucher iid solver) = iid" for iid solver by (simp add: sample_voucher_def)
  have "CHR 0x00 \<notin> set ?u" "CHR 0x00 \<notin> set ?w" "take 32 ?u = take 32 ?w" by simp_all
  with claims_share_escrow_iff [OF sample_crypto_laws(1) sample_voucher_ok sample_voucher_ok r(1) sets(1) r(3) sets(2)]
  have "ccIntentId c = ccIntentId c'" by (simp only: ids simp_thms)
  with r show ?thesis by blast
qed

text \<open>
  \<open>isNonceError\<close> on a message of ASCII characters, whatever the Unicode tables say: it is true exactly
  when the message contains one of the three phrases, in upper, lower or mixed case.
\<close>

lemma isNonceError_phrases:
  assumes "is_ascii m"
  shows "isNonceError ul m \<longleftrightarrow>
    (\<exists>u q v. m = u @ q @ v \<and>
       map ascii_lower q \<in> {''nonce too low'', ''replacement transaction underpriced'', ''already known''})"
proof -
  have "isNonceError ul m \<longleftrightarrow> (\<exists>u q v. m = u @ q @ v \<and> map ascii_lower q = ''nonce too low'') \<or>
      (\<exists>u q v. m = u @ q @ v \<and> map ascii_lower q = ''replacement transaction underpriced'') \<or>
      (\<exists>u q v. m = u @ q @ v \<and> map ascii_lower q = ''already known'')"
    using assms by (simp only: isNonceError_def ToLower_def Let_def if_True Contains_map)
  then show ?thesis
    by (simp only: insert_iff empty_iff simp_thms conj_disj_distribL ex_disj_distrib)
qed

end
