(* ===== verification/Settlement_Bindings.thy ===== *)
theory Settlement_Bindings
  imports Executor
begin

section \<open>The contract bindings (\<open>bindings/vynx_settlement.go\<close>): calls and transactions\<close>

text \<open>
  The generated binding puts typed Go methods in front of \<open>bind.BoundContract\<close>, which takes the name of
  a method and untyped arguments, checks them against the ABI at run time and returns untyped values.
  \<open>BoundContract\<close>, \<open>GetAbi\<close> and \<open>ConvertType\<close> belong to go-ethereum: the first is a record of functions,
  the others are parameters. The methods are modelled one by one, with the panics of indexing \<open>out\<close> and
  of the type assertions.
\<close>

subsection \<open>Values, types and the ABI\<close>

text \<open>The dynamic values that pass through \<open>interface{}\<close>, and their Go types.\<close>

datatype go_type = TBigInt | TAddress | TBytes32 | TBytes | TBool

datatype go_value =
    VBigInt bigptr
  | VAddress address
  | VBytes32 bytes
  | VBytes bytes
  | VBool bool

fun type_of :: "go_value \<Rightarrow> go_type" where
  "type_of (VBigInt x) = TBigInt"
| "type_of (VAddress a) = TAddress"
| "type_of (VBytes32 b) = TBytes32"
| "type_of (VBytes b) = TBytes"
| "type_of (VBool b) = TBool"

text \<open>A \<open>[32]byte\<close> has 32 bytes.\<close>

fun array_ok :: "go_value \<Rightarrow> bool" where
  "array_ok (VBytes32 b) \<longleftrightarrow> length b = 32"
| "array_ok v \<longleftrightarrow> True"

datatype abi_type = Uint256 | Address | Bytes32 | Bytes | Bool

datatype mutability = View | Nonpayable

record abi_function =
  afName :: string
  afInputs :: "(string \<times> abi_type) list"
  afOutputs :: "(string \<times> abi_type) list"
  afMutability :: mutability

text \<open>An event's inputs, with the flag of the indexed ones.\<close>

record abi_event =
  aeName :: string
  aeInputs :: "(string \<times> abi_type \<times> bool) list"

record contract_abi =
  caConstructor :: "(string \<times> abi_type) list"
  caFunctions :: "abi_function list"
  caEvents :: "abi_event list"
  caErrors :: "(string \<times> (string \<times> abi_type) list) list"

definition VynxSettlementABI :: contract_abi where
  "VynxSettlementABI =
     \<lparr>caConstructor = [(''_relayerSigner'', Address)],
      caFunctions =
        [\<lparr>afName = ''REFUND_TIMEOUT'', afInputs = [], afOutputs = [([], Uint256)], afMutability = View\<rparr>,
         \<lparr>afName = ''claimFunds'', afInputs = [(''intentId'', Bytes32), (''solver'', Address), (''relayerSignature'', Bytes)],
          afOutputs = [], afMutability = Nonpayable\<rparr>,
         \<lparr>afName = ''escrows'', afInputs = [([], Bytes32)],
          afOutputs = [(''agent'', Address), (''token'', Address), (''amount'', Uint256), (''lockedAt'', Uint256),
            (''isResolved'', Bool)],
          afMutability = View\<rparr>,
         \<lparr>afName = ''lockIntent'', afInputs = [(''intentId'', Bytes32), (''token'', Address), (''amount'', Uint256)],
          afOutputs = [], afMutability = Nonpayable\<rparr>,
         \<lparr>afName = ''refundIntent'', afInputs = [(''intentId'', Bytes32)], afOutputs = [], afMutability = Nonpayable\<rparr>,
         \<lparr>afName = ''relayerSigner'', afInputs = [], afOutputs = [([], Address)], afMutability = View\<rparr>],
      caEvents =
        [\<lparr>aeName = ''FundsClaimed'',
          aeInputs = [(''intentId'', Bytes32, True), (''solver'', Address, True), (''token'', Address, False),
            (''amount'', Uint256, False)]\<rparr>,
         \<lparr>aeName = ''IntentLocked'',
          aeInputs = [(''intentId'', Bytes32, True), (''agent'', Address, True), (''token'', Address, True),
            (''amount'', Uint256, False)]\<rparr>,
         \<lparr>aeName = ''IntentRefunded'',
          aeInputs = [(''intentId'', Bytes32, True), (''agent'', Address, True), (''token'', Address, False),
            (''amount'', Uint256, False)]\<rparr>],
      caErrors =
        [(''AddressEmptyCode'', [(''target'', Address)]), (''AddressInsufficientBalance'', [(''account'', Address)]),
         (''AmountMustBeGreaterThanZero'', []), (''ECDSAInvalidSignature'', []),
         (''ECDSAInvalidSignatureLength'', [(''length'', Uint256)]), (''ECDSAInvalidSignatureS'', [(''s'', Bytes32)]),
         (''EscrowAlreadyResolved'', []), (''EscrowNotFound'', []), (''FailedInnerCall'', []), (''IntentAlreadyExists'', []),
         (''InvalidSignature'', []), (''ReentrancyGuardReentrantCall'', []), (''RefundNotReadyYet'', []),
         (''SafeERC20FailedOperation'', [(''token'', Address)])]\<rparr>"

subsection \<open>The library below\<close>

text \<open>The options of a call, a filter and a subscription, and a log of the chain.\<close>

record call_opts =
  coPending :: bool
  coFrom :: address
  coBlockNumber :: bigptr
  coBlockHash :: hash32

record filter_opts =
  foStart :: "64 word"
  foEnd :: "64 word option"

record watch_opts =
  woStart :: "64 word option"

record eth_log =
  lgAddress :: address
  lgTopics :: "hash32 list"
  lgData :: bytes
  lgBlockNumber :: "64 word"
  lgTxHash :: hash32
  lgTxIndex :: "64 word"
  lgBlockHash :: hash32
  lgIndex :: "64 word"
  lgRemoved :: bool

text \<open>
  What \<open>FilterLogs\<close> and \<open>WatchLogs\<close> return: the channel of the logs and the error channel of the
  subscription; a closed error channel delivers nil.
\<close>

record log_feed =
  lfLogs :: "eth_log gochan"
  lfErr :: "string option gochan"

record 'tx bound_contract =
  bcCall :: "call_opts \<Rightarrow> string \<Rightarrow> go_value list \<Rightarrow> string + go_value list"
  bcTransfer :: "'tx transact_opts \<Rightarrow> string + 'tx"
  bcTransact :: "'tx transact_opts \<Rightarrow> string \<Rightarrow> go_value list \<Rightarrow> string + 'tx"
  bcFilterLogs :: "filter_opts \<Rightarrow> string \<Rightarrow> go_value list list \<Rightarrow> string + log_feed"
  bcWatchLogs :: "watch_opts \<Rightarrow> string \<Rightarrow> go_value list list \<Rightarrow> string + log_feed"

text \<open>\<open>MetaData.GetAbi\<close> and \<open>bind.NewBoundContract\<close>; a missing backend is nil.\<close>

record ('be, 'tx) bind_lib =
  GetAbi :: "contract_abi \<Rightarrow> string + contract_abi"
  NewBoundContract :: "address \<Rightarrow> contract_abi \<Rightarrow> 'be option \<Rightarrow> 'be option \<Rightarrow> 'be option \<Rightarrow> 'tx bound_contract"

type_synonym convert = "go_value \<Rightarrow> go_type \<Rightarrow> go_panic + go_value"

subsection \<open>The structs\<close>

record 'tx VynxSettlementCaller =
  vcContract :: "'tx bound_contract"

record 'tx VynxSettlementTransactor =
  vtContract :: "'tx bound_contract"

record 'tx VynxSettlementFilterer =
  vfContract :: "'tx bound_contract"

text \<open>The three are embedded, so that their methods are promoted.\<close>

record 'tx VynxSettlement =
  vsCaller :: "'tx VynxSettlementCaller"
  vsTransactor :: "'tx VynxSettlementTransactor"
  vsFilterer :: "'tx VynxSettlementFilterer"

record 'tx VynxSettlementSession =
  seContract :: "'tx VynxSettlement"
  seCallOpts :: call_opts
  seTransactOpts :: "'tx transact_opts"

record 'tx VynxSettlementCallerSession =
  csContract :: "'tx VynxSettlementCaller"
  csCallOpts :: call_opts

record 'tx VynxSettlementTransactorSession =
  tsContract :: "'tx VynxSettlementTransactor"
  tsTransactOpts :: "'tx transact_opts"

record 'tx VynxSettlementRaw =
  vrContract :: "'tx VynxSettlement"

record 'tx VynxSettlementCallerRaw =
  crContract :: "'tx VynxSettlementCaller"

record 'tx VynxSettlementTransactorRaw =
  trContract :: "'tx VynxSettlementTransactor"

definition bindVynxSettlement ::
    "('be, 'tx) bind_lib \<Rightarrow> address \<Rightarrow> 'be option \<Rightarrow> 'be option \<Rightarrow> 'be option \<Rightarrow> string + 'tx bound_contract" where
  "bindVynxSettlement lib address caller transactor filterer =
     (case GetAbi lib VynxSettlementABI of
        Inl err \<Rightarrow> Inl err
      | Inr parsed \<Rightarrow> Inr (NewBoundContract lib address parsed caller transactor filterer))"

definition NewVynxSettlement :: "('be, 'tx) bind_lib \<Rightarrow> address \<Rightarrow> 'be \<Rightarrow> string + 'tx VynxSettlement" where
  "NewVynxSettlement lib address backend =
     (case bindVynxSettlement lib address (Some backend) (Some backend) (Some backend) of
        Inl err \<Rightarrow> Inl err
      | Inr contract \<Rightarrow>
          Inr \<lparr>vsCaller = \<lparr>vcContract = contract\<rparr>, vsTransactor = \<lparr>vtContract = contract\<rparr>,
               vsFilterer = \<lparr>vfContract = contract\<rparr>\<rparr>)"

definition NewVynxSettlementCaller ::
    "('be, 'tx) bind_lib \<Rightarrow> address \<Rightarrow> 'be \<Rightarrow> string + 'tx VynxSettlementCaller" where
  "NewVynxSettlementCaller lib address caller =
     (case bindVynxSettlement lib address (Some caller) None None of
        Inl err \<Rightarrow> Inl err
      | Inr contract \<Rightarrow> Inr \<lparr>vcContract = contract\<rparr>)"

definition NewVynxSettlementTransactor ::
    "('be, 'tx) bind_lib \<Rightarrow> address \<Rightarrow> 'be \<Rightarrow> string + 'tx VynxSettlementTransactor" where
  "NewVynxSettlementTransactor lib address transactor =
     (case bindVynxSettlement lib address None (Some transactor) None of
        Inl err \<Rightarrow> Inl err
      | Inr contract \<Rightarrow> Inr \<lparr>vtContract = contract\<rparr>)"

definition NewVynxSettlementFilterer ::
    "('be, 'tx) bind_lib \<Rightarrow> address \<Rightarrow> 'be \<Rightarrow> string + 'tx VynxSettlementFilterer" where
  "NewVynxSettlementFilterer lib address filterer =
     (case bindVynxSettlement lib address None None (Some filterer) of
        Inl err \<Rightarrow> Inl err
      | Inr contract \<Rightarrow> Inr \<lparr>vfContract = contract\<rparr>)"

subsection \<open>Raw access\<close>

definition Raw_Call ::
    "'tx VynxSettlementRaw \<Rightarrow> call_opts \<Rightarrow> string \<Rightarrow> go_value list \<Rightarrow> string + go_value list" where
  "Raw_Call r opts method params = bcCall (vcContract (vsCaller (vrContract r))) opts method params"

definition Raw_Transfer :: "'tx VynxSettlementRaw \<Rightarrow> 'tx transact_opts \<Rightarrow> string + 'tx" where
  "Raw_Transfer r opts = bcTransfer (vtContract (vsTransactor (vrContract r))) opts"

definition Raw_Transact ::
    "'tx VynxSettlementRaw \<Rightarrow> 'tx transact_opts \<Rightarrow> string \<Rightarrow> go_value list \<Rightarrow> string + 'tx" where
  "Raw_Transact r opts method params = bcTransact (vtContract (vsTransactor (vrContract r))) opts method params"

definition CallerRaw_Call ::
    "'tx VynxSettlementCallerRaw \<Rightarrow> call_opts \<Rightarrow> string \<Rightarrow> go_value list \<Rightarrow> string + go_value list" where
  "CallerRaw_Call r opts method params = bcCall (vcContract (crContract r)) opts method params"

definition TransactorRaw_Transfer :: "'tx VynxSettlementTransactorRaw \<Rightarrow> 'tx transact_opts \<Rightarrow> string + 'tx" where
  "TransactorRaw_Transfer r opts = bcTransfer (vtContract (trContract r)) opts"

definition TransactorRaw_Transact ::
    "'tx VynxSettlementTransactorRaw \<Rightarrow> 'tx transact_opts \<Rightarrow> string \<Rightarrow> go_value list \<Rightarrow> string + 'tx" where
  "TransactorRaw_Transact r opts method params = bcTransact (vtContract (trContract r)) opts method params"

subsection \<open>Read-only calls\<close>

text \<open>\<open>*abi.ConvertType(out[i], new(T)).(*T)\<close>: an index, a conversion and a type assertion can panic.\<close>

definition out_convert :: "convert \<Rightarrow> go_value list \<Rightarrow> nat \<Rightarrow> go_type \<Rightarrow> go_panic + go_value" where
  "out_convert ct out i T = (if i < length out then ct (out ! i) T else Inl IndexOutOfRange)"

definition out_big :: "convert \<Rightarrow> go_value list \<Rightarrow> nat \<Rightarrow> go_panic + bigptr" where
  "out_big ct out i =
     (case out_convert ct out i TBigInt of Inl p \<Rightarrow> Inl p | Inr (VBigInt x) \<Rightarrow> Inr x | Inr _ \<Rightarrow> Inl TypeAssertion)"

definition out_address :: "convert \<Rightarrow> go_value list \<Rightarrow> nat \<Rightarrow> go_panic + address" where
  "out_address ct out i =
     (case out_convert ct out i TAddress of Inl p \<Rightarrow> Inl p | Inr (VAddress x) \<Rightarrow> Inr x | Inr _ \<Rightarrow> Inl TypeAssertion)"

definition out_bool :: "convert \<Rightarrow> go_value list \<Rightarrow> nat \<Rightarrow> go_panic + bool" where
  "out_bool ct out i =
     (case out_convert ct out i TBool of Inl p \<Rightarrow> Inl p | Inr (VBool x) \<Rightarrow> Inr x | Inr _ \<Rightarrow> Inl TypeAssertion)"

text \<open>Every call returns its value and its error.\<close>

definition REFUNDTIMEOUT ::
    "convert \<Rightarrow> 'tx VynxSettlementCaller \<Rightarrow> call_opts \<Rightarrow> go_panic + bigptr \<times> string option" where
  "REFUNDTIMEOUT ct c opts =
     (case bcCall (vcContract c) opts ''REFUND_TIMEOUT'' [] of
        Inl err \<Rightarrow> Inr (None, Some err)
      | Inr out \<Rightarrow> (case out_big ct out 0 of Inl p \<Rightarrow> Inl p | Inr out0 \<Rightarrow> Inr (out0, None)))"

definition Session_REFUNDTIMEOUT :: "convert \<Rightarrow> 'tx VynxSettlementSession \<Rightarrow> go_panic + bigptr \<times> string option" where
  "Session_REFUNDTIMEOUT ct s = REFUNDTIMEOUT ct (vsCaller (seContract s)) (seCallOpts s)"

definition CallerSession_REFUNDTIMEOUT ::
    "convert \<Rightarrow> 'tx VynxSettlementCallerSession \<Rightarrow> go_panic + bigptr \<times> string option" where
  "CallerSession_REFUNDTIMEOUT ct s = REFUNDTIMEOUT ct (csContract s) (csCallOpts s)"

text \<open>The struct \<open>Escrows\<close> returns; \<open>new\<close> gives the zero value.\<close>

record escrow =
  esAgent :: address
  esToken :: address
  esAmount :: bigptr
  esLockedAt :: bigptr
  esIsResolved :: bool

definition zero_escrow :: escrow where
  "zero_escrow = \<lparr>esAgent = 0, esToken = 0, esAmount = None, esLockedAt = None, esIsResolved = False\<rparr>"

definition Escrows ::
    "convert \<Rightarrow> 'tx VynxSettlementCaller \<Rightarrow> call_opts \<Rightarrow> bytes \<Rightarrow> go_panic + escrow \<times> string option" where
  "Escrows ct c opts arg0 =
     (case bcCall (vcContract c) opts ''escrows'' [VBytes32 arg0] of
        Inl err \<Rightarrow> Inr (zero_escrow, Some err)
      | Inr out \<Rightarrow>
          (case out_address ct out 0 of Inl p \<Rightarrow> Inl p | Inr agent \<Rightarrow>
           case out_address ct out 1 of Inl p \<Rightarrow> Inl p | Inr token \<Rightarrow>
           case out_big ct out 2 of Inl p \<Rightarrow> Inl p | Inr amount \<Rightarrow>
           case out_big ct out 3 of Inl p \<Rightarrow> Inl p | Inr lockedAt \<Rightarrow>
           case out_bool ct out 4 of Inl p \<Rightarrow> Inl p | Inr isResolved \<Rightarrow>
             Inr (\<lparr>esAgent = agent, esToken = token, esAmount = amount, esLockedAt = lockedAt,
                   esIsResolved = isResolved\<rparr>, None)))"

definition Session_Escrows :: "convert \<Rightarrow> 'tx VynxSettlementSession \<Rightarrow> bytes \<Rightarrow> go_panic + escrow \<times> string option" where
  "Session_Escrows ct s arg0 = Escrows ct (vsCaller (seContract s)) (seCallOpts s) arg0"

definition CallerSession_Escrows ::
    "convert \<Rightarrow> 'tx VynxSettlementCallerSession \<Rightarrow> bytes \<Rightarrow> go_panic + escrow \<times> string option" where
  "CallerSession_Escrows ct s arg0 = Escrows ct (csContract s) (csCallOpts s) arg0"

definition RelayerSigner ::
    "convert \<Rightarrow> 'tx VynxSettlementCaller \<Rightarrow> call_opts \<Rightarrow> go_panic + address \<times> string option" where
  "RelayerSigner ct c opts =
     (case bcCall (vcContract c) opts ''relayerSigner'' [] of
        Inl err \<Rightarrow> Inr (0, Some err)
      | Inr out \<Rightarrow> (case out_address ct out 0 of Inl p \<Rightarrow> Inl p | Inr out0 \<Rightarrow> Inr (out0, None)))"

definition Session_RelayerSigner :: "convert \<Rightarrow> 'tx VynxSettlementSession \<Rightarrow> go_panic + address \<times> string option" where
  "Session_RelayerSigner ct s = RelayerSigner ct (vsCaller (seContract s)) (seCallOpts s)"

definition CallerSession_RelayerSigner ::
    "convert \<Rightarrow> 'tx VynxSettlementCallerSession \<Rightarrow> go_panic + address \<times> string option" where
  "CallerSession_RelayerSigner ct s = RelayerSigner ct (csContract s) (csCallOpts s)"

subsection \<open>Transactions\<close>

definition ClaimFunds ::
    "'tx VynxSettlementTransactor \<Rightarrow> 'tx transact_opts \<Rightarrow> bytes \<Rightarrow> address \<Rightarrow> bytes \<Rightarrow> string + 'tx" where
  "ClaimFunds t opts intentId solver relayerSignature =
     bcTransact (vtContract t) opts ''claimFunds'' [VBytes32 intentId, VAddress solver, VBytes relayerSignature]"

definition Session_ClaimFunds :: "'tx VynxSettlementSession \<Rightarrow> bytes \<Rightarrow> address \<Rightarrow> bytes \<Rightarrow> string + 'tx" where
  "Session_ClaimFunds s intentId solver relayerSignature =
     ClaimFunds (vsTransactor (seContract s)) (seTransactOpts s) intentId solver relayerSignature"

definition TransactorSession_ClaimFunds ::
    "'tx VynxSettlementTransactorSession \<Rightarrow> bytes \<Rightarrow> address \<Rightarrow> bytes \<Rightarrow> string + 'tx" where
  "TransactorSession_ClaimFunds s intentId solver relayerSignature =
     ClaimFunds (tsContract s) (tsTransactOpts s) intentId solver relayerSignature"

definition LockIntent ::
    "'tx VynxSettlementTransactor \<Rightarrow> 'tx transact_opts \<Rightarrow> bytes \<Rightarrow> address \<Rightarrow> bigptr \<Rightarrow> string + 'tx" where
  "LockIntent t opts intentId token amount =
     bcTransact (vtContract t) opts ''lockIntent'' [VBytes32 intentId, VAddress token, VBigInt amount]"

definition Session_LockIntent :: "'tx VynxSettlementSession \<Rightarrow> bytes \<Rightarrow> address \<Rightarrow> bigptr \<Rightarrow> string + 'tx" where
  "Session_LockIntent s intentId token amount =
     LockIntent (vsTransactor (seContract s)) (seTransactOpts s) intentId token amount"

definition TransactorSession_LockIntent ::
    "'tx VynxSettlementTransactorSession \<Rightarrow> bytes \<Rightarrow> address \<Rightarrow> bigptr \<Rightarrow> string + 'tx" where
  "TransactorSession_LockIntent s intentId token amount =
     LockIntent (tsContract s) (tsTransactOpts s) intentId token amount"

definition RefundIntent :: "'tx VynxSettlementTransactor \<Rightarrow> 'tx transact_opts \<Rightarrow> bytes \<Rightarrow> string + 'tx" where
  "RefundIntent t opts intentId = bcTransact (vtContract t) opts ''refundIntent'' [VBytes32 intentId]"

definition Session_RefundIntent :: "'tx VynxSettlementSession \<Rightarrow> bytes \<Rightarrow> string + 'tx" where
  "Session_RefundIntent s intentId = RefundIntent (vsTransactor (seContract s)) (seTransactOpts s) intentId"

definition TransactorSession_RefundIntent :: "'tx VynxSettlementTransactorSession \<Rightarrow> bytes \<Rightarrow> string + 'tx" where
  "TransactorSession_RefundIntent s intentId = RefundIntent (tsContract s) (tsTransactOpts s) intentId"

subsection \<open>The run-time checks of the ABI\<close>

text \<open>
  What go-ethereum documents of its packing: a method must exist, the arguments must have the Go types of
  the ABI types, in number and order. \<open>abi_checked\<close> is a contract that enforces this, that reads go to
  view methods only and transactions to the others; the queries of logs are checked against the indexed
  inputs of the event, of which a prefix may be given.
\<close>

fun go_type_of :: "abi_type \<Rightarrow> go_type" where
  "go_type_of Uint256 = TBigInt"
| "go_type_of Address = TAddress"
| "go_type_of Bytes32 = TBytes32"
| "go_type_of Bytes = TBytes"
| "go_type_of Bool = TBool"

definition value_fits :: "abi_type \<Rightarrow> go_value \<Rightarrow> bool" where
  "value_fits T v \<longleftrightarrow> type_of v = go_type_of T \<and> array_ok v"

definition find_function :: "contract_abi \<Rightarrow> string \<Rightarrow> abi_function option" where
  "find_function abi method = find (\<lambda>f. afName f = method) (caFunctions abi)"

definition find_event :: "contract_abi \<Rightarrow> string \<Rightarrow> abi_event option" where
  "find_event abi event = find (\<lambda>e. aeName e = event) (caEvents abi)"

definition method_accepts :: "contract_abi \<Rightarrow> mutability \<Rightarrow> string \<Rightarrow> go_value list \<Rightarrow> bool" where
  "method_accepts abi m method params =
     (case find_function abi method of
        None \<Rightarrow> False
      | Some f \<Rightarrow> afMutability f = m \<and> list_all2 value_fits (map snd (afInputs f)) params)"

definition method_returns :: "contract_abi \<Rightarrow> string \<Rightarrow> go_value list \<Rightarrow> bool" where
  "method_returns abi method out =
     (case find_function abi method of None \<Rightarrow> False | Some f \<Rightarrow> list_all2 value_fits (map snd (afOutputs f)) out)"

definition indexed_types :: "abi_event \<Rightarrow> abi_type list" where
  "indexed_types e = map (fst \<circ> snd) (filter (snd \<circ> snd) (aeInputs e))"

definition query_accepted :: "contract_abi \<Rightarrow> string \<Rightarrow> go_value list list \<Rightarrow> bool" where
  "query_accepted abi event rules =
     (case find_event abi event of
        None \<Rightarrow> False
      | Some e \<Rightarrow>
          length rules \<le> length (indexed_types e) \<and>
          list_all (\<lambda>(T, rule). list_all (value_fits T) rule) (zip (indexed_types e) rules))"

definition abi_checked :: "contract_abi \<Rightarrow> 'tx bound_contract \<Rightarrow> 'tx bound_contract" where
  "abi_checked abi c =
     \<lparr>bcCall = (\<lambda>opts method params.
        if method_accepts abi View method params then bcCall c opts method params else Inl ''argument mismatch''),
      bcTransfer = bcTransfer c,
      bcTransact = (\<lambda>opts method params.
        if method_accepts abi Nonpayable method params then bcTransact c opts method params else Inl ''argument mismatch''),
      bcFilterLogs = (\<lambda>opts event rules.
        if query_accepted abi event rules then bcFilterLogs c opts event rules else Inl ''topic mismatch''),
      bcWatchLogs = (\<lambda>opts event rules.
        if query_accepted abi event rules then bcWatchLogs c opts event rules else Inl ''topic mismatch'')\<rparr>"

definition settlement_on :: "'tx bound_contract \<Rightarrow> 'tx VynxSettlement" where
  "settlement_on c =
     \<lparr>vsCaller = \<lparr>vcContract = c\<rparr>, vsTransactor = \<lparr>vtContract = c\<rparr>, vsFilterer = \<lparr>vfContract = c\<rparr>\<rparr>"

lemmas binding_calls = Session_REFUNDTIMEOUT_def REFUNDTIMEOUT_def Session_Escrows_def Escrows_def
  Session_RelayerSigner_def RelayerSigner_def Session_ClaimFunds_def ClaimFunds_def Session_LockIntent_def
  LockIntent_def Session_RefundIntent_def RefundIntent_def

lemma find_function_simps [simp]:
  "find_function VynxSettlementABI ''REFUND_TIMEOUT'' =
     Some \<lparr>afName = ''REFUND_TIMEOUT'', afInputs = [], afOutputs = [([], Uint256)], afMutability = View\<rparr>"
  "find_function VynxSettlementABI ''claimFunds'' =
     Some \<lparr>afName = ''claimFunds'',
       afInputs = [(''intentId'', Bytes32), (''solver'', Address), (''relayerSignature'', Bytes)],
       afOutputs = [], afMutability = Nonpayable\<rparr>"
  "find_function VynxSettlementABI ''escrows'' =
     Some \<lparr>afName = ''escrows'', afInputs = [([], Bytes32)],
       afOutputs = [(''agent'', Address), (''token'', Address), (''amount'', Uint256), (''lockedAt'', Uint256),
         (''isResolved'', Bool)], afMutability = View\<rparr>"
  "find_function VynxSettlementABI ''lockIntent'' =
     Some \<lparr>afName = ''lockIntent'', afInputs = [(''intentId'', Bytes32), (''token'', Address), (''amount'', Uint256)],
       afOutputs = [], afMutability = Nonpayable\<rparr>"
  "find_function VynxSettlementABI ''refundIntent'' =
     Some \<lparr>afName = ''refundIntent'', afInputs = [(''intentId'', Bytes32)], afOutputs = [], afMutability = Nonpayable\<rparr>"
  "find_function VynxSettlementABI ''relayerSigner'' =
     Some \<lparr>afName = ''relayerSigner'', afInputs = [], afOutputs = [([], Address)], afMutability = View\<rparr>"
  by (simp_all add: find_function_def VynxSettlementABI_def)

lemma value_fits_iff [simp]:
  "value_fits Uint256 v \<longleftrightarrow> (\<exists>x. v = VBigInt x)" "value_fits Address v \<longleftrightarrow> (\<exists>a. v = VAddress a)"
  "value_fits Bytes v \<longleftrightarrow> (\<exists>b. v = VBytes b)" "value_fits Bool v \<longleftrightarrow> (\<exists>b. v = VBool b)"
  "value_fits Bytes32 v \<longleftrightarrow> (\<exists>b. v = VBytes32 b \<and> length b = 32)"
  by (cases v; simp add: value_fits_def; fail)+

lemma out_values:
  assumes "\<forall>v. ct v (type_of v) = Inr v" and "i < length out"
  shows "out ! i = VBigInt x \<Longrightarrow> out_big ct out i = Inr x" "out ! i = VAddress a \<Longrightarrow> out_address ct out i = Inr a"
    "out ! i = VBool b \<Longrightarrow> out_bool ct out i = Inr b"
  using assms(1) [rule_format, of "out ! i"] assms(2)
  by (simp_all add: out_big_def out_address_def out_bool_def out_convert_def)

subsection \<open>What the binding guarantees\<close>

text \<open>A contract for the witnesses: every read has an answer of the declared types.\<close>

definition sample_convert :: convert where
  "sample_convert v T = (if type_of v = T then Inr v else Inl TypeAssertion)"

definition sample_contract :: "nat bound_contract" where
  "sample_contract =
     \<lparr>bcCall = (\<lambda>opts method params.
        if method = ''escrows'' \<and> params = [VBytes32 (idBytes ''sim-1'')] then
          Inr [VAddress 3, VAddress 4, VBigInt (Some 1000), VBigInt (Some 77), VBool True]
        else if method = ''REFUND_TIMEOUT'' then Inr [VBigInt (Some 3600)]
        else if method = ''relayerSigner'' then Inr [VAddress 9]
        else Inl ''execution reverted''),
      bcTransfer = (\<lambda>opts. Inl ''execution reverted''),
      bcTransact = (\<lambda>opts method params. Inr (length params)),
      bcFilterLogs = (\<lambda>opts event rules. Inl ''no logs''),
      bcWatchLogs = (\<lambda>opts event rules. Inl ''no logs'')\<rparr>"

definition sample_bind_lib :: "(unit, nat) bind_lib" where
  "sample_bind_lib = \<lparr>GetAbi = Inr, NewBoundContract = (\<lambda>address abi caller transactor filterer. sample_contract)\<rparr>"

definition sample_opts :: call_opts where
  "sample_opts = \<lparr>coPending = False, coFrom = 0, coBlockNumber = None, coBlockHash = 0\<rparr>"

lemma sample_convert_same: "\<forall>v. sample_convert v (type_of v) = Inr v"
  by (simp add: sample_convert_def)

lemma sample_contract_typed:
  "\<forall>method params out. bcCall sample_contract opts method params = Inr out \<longrightarrow>
     method_returns VynxSettlementABI method out"
  by (auto simp: sample_contract_def method_returns_def split: if_splits)

lemma calls_respect_abi:
  assumes "length intentId = 32"
  shows "let s = \<lparr>seContract = settlement_on c, seCallOpts = co, seTransactOpts = topts\<rparr>;
      s' = \<lparr>seContract = settlement_on (abi_checked VynxSettlementABI c), seCallOpts = co, seTransactOpts = topts\<rparr>
    in Session_REFUNDTIMEOUT ct s' = Session_REFUNDTIMEOUT ct s \<and>
       Session_Escrows ct s' intentId = Session_Escrows ct s intentId \<and>
       Session_RelayerSigner ct s' = Session_RelayerSigner ct s \<and>
       Session_ClaimFunds s' intentId solver sig = Session_ClaimFunds s intentId solver sig \<and>
       Session_LockIntent s' intentId token amount = Session_LockIntent s intentId token amount \<and>
       Session_RefundIntent s' intentId = Session_RefundIntent s intentId"
  using assms
  by (simp add: binding_calls Let_def settlement_on_def abi_checked_def method_accepts_def)

text \<open>
  C24. A read never panics: when the library returns values of the declared types and converts a value of
  the wanted type to itself, every index and every type assertion of the three reads succeeds, the
  fields of the escrow are the five outputs in the declared order, and an error comes with zero values.
\<close>

theorem reads_never_panic:
  assumes "\<forall>v. ct v (type_of v) = Inr v"
    and "\<forall>method params out. bcCall c opts method params = Inr out \<longrightarrow> method_returns VynxSettlementABI method out"
  shows "(\<exists>e err. Escrows ct \<lparr>vcContract = c\<rparr> opts arg0 = Inr (e, err) \<and>
        (case bcCall c opts ''escrows'' [VBytes32 arg0] of
           Inl x \<Rightarrow> err = Some x \<and> e = zero_escrow
         | Inr out \<Rightarrow> err = None \<and> out = [VAddress (esAgent e), VAddress (esToken e), VBigInt (esAmount e),
             VBigInt (esLockedAt e), VBool (esIsResolved e)])) \<and>
    (\<exists>x err. REFUNDTIMEOUT ct \<lparr>vcContract = c\<rparr> opts = Inr (x, err) \<and>
        (case bcCall c opts ''REFUND_TIMEOUT'' [] of
           Inl y \<Rightarrow> err = Some y \<and> x = None
         | Inr out \<Rightarrow> err = None \<and> out = [VBigInt x])) \<and>
    (\<exists>a err. RelayerSigner ct \<lparr>vcContract = c\<rparr> opts = Inr (a, err) \<and>
        (case bcCall c opts ''relayerSigner'' [] of
           Inl y \<Rightarrow> err = Some y \<and> a = 0
         | Inr out \<Rightarrow> err = None \<and> out = [VAddress a]))"
  (is "?escrows \<and> ?timeout \<and> ?signer")
proof -
  note vals = out_values [where ct = ct, OF assms(1)]
  have ?escrows
    using assms(2) [rule_format, of "''escrows''" "[VBytes32 arg0]"]
    by (auto simp: Escrows_def method_returns_def list_all2_Cons1 vals split: sum.split)
  moreover have ?timeout
    using assms(2) [rule_format, of "''REFUND_TIMEOUT''" "[]"]
    by (auto simp: REFUNDTIMEOUT_def method_returns_def list_all2_Cons1 vals split: sum.split)
  moreover have ?signer
    using assms(2) [rule_format, of "''relayerSigner''" "[]"]
    by (auto simp: RelayerSigner_def method_returns_def list_all2_Cons1 vals split: sum.split)
  ultimately show ?thesis by blast
qed

theorem reads_never_panic_witness:
  "\<exists>e. Escrows sample_convert \<lparr>vcContract = sample_contract\<rparr> sample_opts (idBytes ''sim-1'') = Inr (e, None) \<and>
     esAmount e = Some 1000 \<and> esIsResolved e"
proof -
  have call: "bcCall sample_contract sample_opts ''escrows'' [VBytes32 (idBytes ''sim-1'')] =
      Inr [VAddress 3, VAddress 4, VBigInt (Some 1000), VBigInt (Some 77), VBool True]"
    by (simp add: sample_contract_def)
  from reads_never_panic [of sample_convert sample_contract sample_opts, OF sample_convert_same sample_contract_typed,
      of "idBytes ''sim-1''", THEN conjunct1, unfolded call sum.case]
  obtain e where "Escrows sample_convert \<lparr>vcContract = sample_contract\<rparr> sample_opts (idBytes ''sim-1'') = Inr (e, None)"
      "Some 1000 = esAmount e" "esIsResolved e" by auto
  then show ?thesis by (intro exI [of _ e]) simp
qed

subsection \<open>The executor on the binding\<close>

text \<open>
  \<open>*bindings.VynxSettlement\<close> is the \<open>settlementCaller\<close> of the executor: the answer to a claim is the error
  of \<open>ClaimFunds\<close>.
\<close>

definition claim_through :: "'tx VynxSettlement \<Rightarrow> 'tx claim_call \<Rightarrow> string option" where
  "claim_through st call =
     (case ClaimFunds (vsTransactor st) (ccOpts call) (ccIntentId call) (ccSolver call) (ccSignature call) of
        Inl err \<Rightarrow> Some err
      | Inr tx \<Rightarrow> None)"

text \<open>What a claim becomes below the binding, with the call that made it.\<close>

definition claim_transaction :: "'tx bound_contract \<Rightarrow> 'tx claim_call \<Rightarrow> string + 'tx" where
  "claim_transaction c call =
     bcTransact c (ccOpts call) ''claimFunds''
       [VBytes32 (ccIntentId call), VAddress (ccSolver call), VBytes (ccSignature call)]"

lemma claim_through_checked:
  assumes "length (ccIntentId call) = 32"
  shows "claim_through (settlement_on (abi_checked VynxSettlementABI c)) call =
    (case claim_transaction c call of Inl err \<Rightarrow> Some err | Inr tx \<Rightarrow> None)"
  using assms
  by (simp add: claim_through_def ClaimFunds_def settlement_on_def abi_checked_def method_accepts_def
      claim_transaction_def)

text \<open>
  C7. The executor on the binding: for a well-formed voucher \<open>execute\<close> makes at most one transaction, and
  the ABI check never refuses it. It reports success exactly when the contract took a \<open>claimFunds\<close> from the
  vault's address with the next nonce, for the id and the winner of the voucher, with a signature of the
  vault on them; a claim error it reports is the contract's answer to such a transaction.
\<close>

theorem claims_on_binding:
  assumes "sign_format cr" and "sign_recovers cr" and "vault_ok cr (exVault ex)" and "voucher_ok v"
    and "rpClaim rp = claim_through (settlement_on (abi_checked VynxSettlementABI c))"
  shows "\<exists>r. execute cr eth ul rp ex v = Inr r \<and>
    (\<forall>call \<in> set (erCalls r).
       ccIntentId call = idBytes (vIntentID v) \<and> ccSolver call = vWinningSolver v \<and>
       toFrom (ccOpts call) = VaultAddress (exVault ex) \<and> toNonce (ccOpts call) = uint (nqCurrent (exNonceQueue ex)) \<and>
       evm_signed cr (VaultAddress (exVault ex)) (ClaimDigest cr (idBytes (vIntentID v)) (vWinningSolver v))
         (ccSignature call)) \<and>
    (erErr r = None \<longleftrightarrow> (\<exists>call tx. erCalls r = [call] \<and> claim_transaction c call = Inr tx)) \<and>
    (\<forall>m. erErr r = Some (ClaimFailed (vIntentID v) m) \<longleftrightarrow>
       (\<exists>call. erCalls r = [call] \<and> claim_transaction c call = Inl m))"
proof (rule execute_cases [OF assms(1,4), of eth ul rp ex])
  fix call
  assume m: "claim_matches cr ex v call" and e: "execute cr eth ul rp ex v =
        Inr \<lparr>erErr = map_option (ClaimFailed (vIntentID v)) (rpClaim rp call),
            erExec = ex\<lparr>exNonceQueue := \<lparr>nqCurrent = queue_after ul rp ex (rpClaim rp call)\<rparr>\<rparr>,
            erCalls = [call]\<rparr>"
  from m have "length (ccIntentId call) = 32" by (simp add: claim_matches_def)
  note answer = claim_through_checked [OF this, of c, folded assms(5)]
  from m assms(2,3) show ?thesis
    unfolding e by (intro exI conjI refl) (auto simp: claim_matches_def answer split: sum.splits)
qed simp_all

theorem claims_on_binding_witness:
  "\<exists>r call. execute sample_crypto sample_eth (\<lambda>s. s)
       (sample_replies None\<lparr>rpClaim := claim_through (settlement_on (abi_checked VynxSettlementABI sample_contract))\<rparr>)
       sample_executor (sample_voucher ''a'' 7) = Inr r \<and>
     erErr r = None \<and> erCalls r = [call] \<and> claim_transaction sample_contract call = Inr 3"
proof -
  let ?rp = "sample_replies None\<lparr>rpClaim := claim_through (settlement_on (abi_checked VynxSettlementABI sample_contract))\<rparr>"
  have rp: "rpClaim ?rp = claim_through (settlement_on (abi_checked VynxSettlementABI sample_contract))" by simp
  from claims_on_binding [OF sample_crypto_laws sample_vault_ok sample_voucher_ok rp, of sample_eth "\<lambda>s. s" "''a''" 7]
  obtain r where r: "execute sample_crypto sample_eth (\<lambda>s. s) ?rp sample_executor (sample_voucher ''a'' 7) = Inr r"
      "erErr r = None \<longleftrightarrow> (\<exists>call tx. erCalls r = [call] \<and> claim_transaction sample_contract call = Inr tx)"
    by (elim exE conjE)
  have tx: "claim_transaction sample_contract call = Inr 3" for call
    by (simp add: claim_transaction_def sample_contract_def)
  have "\<exists>call. erCalls r = [call]"
    using r(1) by (auto simp: sample_run_defs sample_crypto_def nth_append Let_def split: option.splits)
  then obtain call where call: "erCalls r = [call]" ..
  with r(2) tx have "erErr r = None" by simp
  with r(1) call tx show ?thesis by (intro exI conjI)
qed

end
