(* ===== verification/OP_Stack_Client.thy ===== *)
theory OP_Stack_Client
  imports Core_Types Go_Json
begin

section \<open>The OP Stack client (\<open>internal/txmanager/opstack_client.go\<close>)\<close>

text \<open>
  Gas estimation. The RPC client and the ABI of the oracle contract are parameters. The interesting
  arithmetic is the 10 percent buffer, computed in \<open>float64\<close>: \<open>uint64(float64(raw) * 1.10)\<close>. Both the
  conversion of an integer and a product of two floats round to 53 significant bits, ties to even; the
  constant 1.10 is the float \<open>4953959590107546 / 2^52\<close>. All values are positive integers or such
  integers over \<open>2^52\<close>, far from the limits of the exponent, so rounding is a function on integers.
\<close>

subsection \<open>Rounding to 53 bits\<close>

fun bit_length :: "nat \<Rightarrow> nat" where
  "bit_length n = (if n = 0 then 0 else Suc (bit_length (n div 2)))"

declare bit_length.simps [simp del]

definition round53 :: "nat \<Rightarrow> nat" where
  "round53 n =
     (if n < 2 ^ 53 then n
      else (let e = bit_length n - 53; q = n div 2 ^ e; r = n mod 2 ^ e; half = 2 ^ (e - 1) in
            (if half < r \<or> (r = half \<and> odd q) then q + 1 else q) * 2 ^ e))"

lemma bit_length_bounds: "0 < n \<Longrightarrow> 2 ^ (bit_length n - 1) \<le> n \<and> n < 2 ^ bit_length n"
proof (induction n rule: bit_length.induct)
  case (1 n)
  show ?case
  proof (cases "n div 2 = 0")
    case True
    with 1 have "n = 1" by auto
    then show ?thesis by (simp add: bit_length.simps)
  next
    case False
    then have "0 < n div 2" by blast
    then have pos: "0 < bit_length (n div 2)" by (subst bit_length.simps) simp
    have ih: "2 ^ (bit_length (n div 2) - 1) \<le> n div 2 \<and> n div 2 < 2 ^ bit_length (n div 2)"
      using 1 \<open>0 < n div 2\<close> by simp
    have len: "bit_length n = Suc (bit_length (n div 2))" using 1 by (subst bit_length.simps) simp
    have "2 ^ bit_length (n div 2) = 2 * (2 :: nat) ^ (bit_length (n div 2) - 1)"
      using pos by (metis Suc_pred' power_Suc)
    moreover have "n = 2 * (n div 2) + n mod 2" "n mod 2 < 2" by simp_all
    ultimately have "2 ^ bit_length (n div 2) \<le> n" "n < 2 * 2 ^ bit_length (n div 2)"
      using ih by linarith+
    with len show ?thesis by simp
  qed
qed

text \<open>The exponent of the last kept bit, and that it is small against the number.\<close>

lemma round53_exponent:
  assumes "2 ^ 53 \<le> n"
  defines "e \<equiv> bit_length n - 53"
  shows "0 < e" and "2 ^ (52 + e) \<le> n" and "n < 2 ^ (53 + e)"
proof -
  have n: "0 < n" using assms(1) by (metis gr0I not_le zero_less_numeral zero_less_power)
  note b = bit_length_bounds [OF n]
  have "53 < bit_length n"
  proof (rule ccontr)
    assume "\<not> 53 < bit_length n"
    then have "(2 :: nat) ^ bit_length n \<le> 2 ^ 53" by (intro power_increasing) simp_all
    with b assms(1) show False by linarith
  qed
  then have "bit_length n = 53 + e" "0 < e" by (simp_all add: e_def)
  with b show "0 < e" "2 ^ (52 + e) \<le> n" "n < 2 ^ (53 + e)" by simp_all
qed

lemma round53_error: "2 ^ 53 * round53 n \<le> 2 ^ 53 * n + n" "2 ^ 53 * n \<le> 2 ^ 53 * round53 n + n"
proof -
  have "2 ^ 53 * round53 n \<le> 2 ^ 53 * n + n \<and> 2 ^ 53 * n \<le> 2 ^ 53 * round53 n + n"
  proof (cases "n < 2 ^ 53")
    case True
    then show ?thesis by (simp add: round53_def)
  next
    case False
    define e where "e = bit_length n - 53"
    define q where "q = n div 2 ^ e"
    define r where "r = n mod 2 ^ e"
    define half where "half = (2 :: nat) ^ (e - 1)"
    note ex = round53_exponent [OF leI [OF False], folded e_def]
    have n: "n = q * 2 ^ e + r" by (simp only: q_def r_def div_mult_mod_eq)
    have two: "2 ^ e = 2 * half" using ex(1) by (simp add: half_def power_eq_if)
    have r: "r < 2 * half" using two by (simp add: r_def) (metis mod_less_divisor two zero_less_numeral zero_less_power)
    have "2 ^ (52 + e) = 2 ^ 53 * half" using two by (simp add: power_add)
    with ex(2) have big: "2 ^ 53 * half \<le> n" by simp
    have res: "round53 n = (if half < r \<or> (r = half \<and> odd q) then q + 1 else q) * 2 ^ e"
      using False by (simp add: round53_def Let_def e_def q_def r_def half_def)
    show ?thesis
    proof (cases "half < r \<or> (r = half \<and> odd q)")
      case True
      then have "half \<le> r" by auto
      have "round53 n = n + (2 * half - r)" using True res n two r by (simp add: algebra_simps)
      with \<open>half \<le> r\<close> r have "round53 n \<le> n + half" "n \<le> round53 n" by linarith+
      with big show ?thesis by simp
    next
      case down: False
      then have "r \<le> half" by auto
      have "round53 n = n - r" "r \<le> n" using down res n by simp_all
      with \<open>r \<le> half\<close> have "round53 n \<le> n" "n \<le> round53 n + half" by linarith+
      with big show ?thesis by simp
    qed
  qed
  then show "2 ^ 53 * round53 n \<le> 2 ^ 53 * n + n" "2 ^ 53 * n \<le> 2 ^ 53 * round53 n + n" by simp_all
qed

text \<open>Rounding does not go below a multiple of a coarser power of two.\<close>

lemma round53_ge_multiple:
  assumes "m * 2 ^ k \<le> n" and "n < 2 ^ (53 + k)"
  shows "m * 2 ^ k \<le> round53 n"
proof (cases "n < 2 ^ 53")
  case True
  with assms show ?thesis by (simp add: round53_def)
next
  case False
  define e where "e = bit_length n - 53"
  note ex = round53_exponent [OF leI [OF False], folded e_def]
  have "(2 :: nat) ^ (52 + e) < 2 ^ (53 + k)" using ex(2) assms(2) by linarith
  then have "52 + e < 53 + k" by (metis power_strict_increasing_iff one_less_numeral_iff semiring_norm(76))
  then have "e \<le> k" by simp
  then have mult: "m * 2 ^ k = (m * 2 ^ (k - e)) * 2 ^ e" by (simp add: power_add [symmetric])
  then have "m * 2 ^ (k - e) \<le> n div 2 ^ e"
    using assms(1) unfolding mult by (subst less_eq_div_iff_mult_less_eq) simp_all
  then have "m * 2 ^ k \<le> n div 2 ^ e * 2 ^ e" by (simp add: mult)
  also have "\<dots> \<le> round53 n"
    using False by (simp add: round53_def Let_def e_def)
  finally show ?thesis .
qed

subsection \<open>The client\<close>

definition gasPriceOracleAddr :: string where
  "gasPriceOracleAddr = ''0x420000000000000000000000000000000000000F''"

text \<open>\<open>gasOverheadFactor\<close>, the float nearest to 1.10, over \<open>2^52\<close>.\<close>

definition gasOverheadFactor :: nat where
  "gasOverheadFactor = 4953959590107546"

definition gasPriceOracleABIJSON :: string where
  \<open>gasPriceOracleABIJSON =
     ''[{'' @ [CHR 0x0A, CHR 0x09] @
     ''"type": "function",'' @ [CHR 0x0A, CHR 0x09] @
     ''"name": "getL1Fee",'' @ [CHR 0x0A, CHR 0x09] @
     ''"inputs":  [{"name": "_data", "type": "bytes"}],'' @ [CHR 0x0A, CHR 0x09] @
     ''"outputs": [{"name": "",     "type": "uint256"}],'' @ [CHR 0x0A, CHR 0x09] @
     ''"stateMutability": "view"'' @ [CHR 0x0A] @ ''}]''\<close>

text \<open>The text is JSON, and the method \<open>EstimateL1DataFee\<close> packs is the one it declares.\<close>

lemma oracle_abi_read:
  "decode_message gasPriceOracleABIJSON = Some (JArray [JObject
     [(''type'', JString ''function''), (''name'', JString ''getL1Fee''),
      (''inputs'', JArray [JObject [(''name'', JString ''_data''), (''type'', JString ''bytes'')]]),
      (''outputs'', JArray [JObject [(''name'', JString []), (''type'', JString ''uint256'')]]),
      (''stateMutability'', JString ''view'')]])"
  by code_simp

text \<open>The ABI packer of the oracle, the calls of the RPC client, and what unpacking can return.\<close>

datatype abi_result = BigInt int | OtherValue

record ('abi, 'msg) op_rpc =
  opAbiJSON :: "string \<Rightarrow> string + 'abi"
  opHexToAddress :: "string \<Rightarrow> address"
  opTipCap :: "string + bigptr"
  opPack :: "'abi \<Rightarrow> string \<Rightarrow> bytes \<Rightarrow> string + bytes"
  opCall :: "address \<Rightarrow> bytes \<Rightarrow> string + bytes"
  opUnpack :: "'abi \<Rightarrow> string \<Rightarrow> bytes \<Rightarrow> string + abi_result list"
  opEstimateGas :: "'msg \<Rightarrow> string + 64 word"

record 'abi op_client =
  ocOracleAddr :: address
  ocOracleABI :: 'abi

datatype op_error =
    ParseABI string | TipCapFailed string | PackCall string | CallFailed string
  | UnpackFailed string | EmptyResult | UnexpectedType | EstimateFailed string

definition NewOPStackClient :: "('abi, 'msg) op_rpc \<Rightarrow> op_error + 'abi op_client" where
  "NewOPStackClient rpc =
     (case opAbiJSON rpc gasPriceOracleABIJSON of
        Inl e \<Rightarrow> Inl (ParseABI e)
      | Inr parsedABI \<Rightarrow>
          Inr \<lparr>ocOracleAddr = opHexToAddress rpc gasPriceOracleAddr, ocOracleABI = parsedABI\<rparr>)"

definition SuggestGasTipCap :: "('abi, 'msg) op_rpc \<Rightarrow> op_error + bigptr" where
  "SuggestGasTipCap rpc =
     (case opTipCap rpc of Inl e \<Rightarrow> Inl (TipCapFailed e) | Inr tip \<Rightarrow> Inr tip)"

definition EstimateL1DataFee ::
    "('abi, 'msg) op_rpc \<Rightarrow> 'abi op_client \<Rightarrow> bytes \<Rightarrow> op_error + bigptr" where
  "EstimateL1DataFee rpc c rawTxData =
     (case opPack rpc (ocOracleABI c) ''getL1Fee'' rawTxData of
        Inl e \<Rightarrow> Inl (PackCall e)
      | Inr callData \<Rightarrow>
          (case opCall rpc (ocOracleAddr c) callData of
             Inl e \<Rightarrow> Inl (CallFailed e)
           | Inr res \<Rightarrow>
               (case opUnpack rpc (ocOracleABI c) ''getL1Fee'' res of
                  Inl e \<Rightarrow> Inl (UnpackFailed e)
                | Inr [] \<Rightarrow> Inl EmptyResult
                | Inr (BigInt fee # _) \<Rightarrow> Inr (Some fee)
                | Inr (OtherValue # _) \<Rightarrow> Inl UnexpectedType)))"

text \<open>
  The conversion of a float to \<open>uint64\<close> drops the fraction; for a value that does not fit the language
  leaves the result to the implementation, which is the value None here.
\<close>

definition gasWithBuffer :: "64 word \<Rightarrow> 64 word option" where
  "gasWithBuffer raw =
     (let scaled = round53 (round53 (unat raw) * gasOverheadFactor) div 2 ^ 52
      in if scaled < 2 ^ 64 then Some (of_nat scaled) else None)"

definition EstimateGasWithBuffer ::
    "('abi, 'msg) op_rpc \<Rightarrow> 'msg \<Rightarrow> op_error + 64 word option" where
  "EstimateGasWithBuffer rpc msg =
     (case opEstimateGas rpc msg of
        Inl e \<Rightarrow> Inl (EstimateFailed e)
      | Inr raw \<Rightarrow> Inr (gasWithBuffer raw))"

subsection \<open>The buffer is ten percent\<close>

lemma gas_factor: "10 * gasOverheadFactor = 11 * 2 ^ 52 + 4"
  by (simp add: gasOverheadFactor_def)

lemma gas_rounded:
  assumes "n < 2 ^ 48"
  shows "round53 (n * gasOverheadFactor) div 2 ^ 52 = 11 * n div 10"
proof -
  define p where "p = n * gasOverheadFactor"
  define m where "m = 11 * n div 10"
  have p10: "10 * p = 11 * n * 2 ^ 52 + 4 * n"
    using arg_cong [OF gas_factor, of "\<lambda>x. n * x"] by (simp add: p_def algebra_simps)
  have m10: "10 * m \<le> 11 * n" "11 * n \<le> 10 * m + 9" by (simp_all add: m_def)
  have low: "m * 2 ^ 52 \<le> p" using m10(1) p10 by simp
  have "p < 2 ^ (53 + 52)" using p10 assms by simp
  from round53_ge_multiple [OF low this] have ge: "m * 2 ^ 52 \<le> round53 p" .
  have "round53 p < (m + 1) * 2 ^ 52"
    using round53_error(1) [of p] p10 m10(2) assms by simp
  with ge have "round53 p div 2 ^ 52 = m" by (intro div_nat_eqI) (simp_all add: algebra_simps)
  then show ?thesis by (simp add: p_def m_def)
qed

lemma gas_not_lowered: "n \<le> round53 (round53 n * gasOverheadFactor) div 2 ^ 52"
proof -
  define f where "f = round53 n"
  define p where "p = f * gasOverheadFactor"
  have f: "2 ^ 53 * n \<le> 2 ^ 53 * f + n" by (simp only: f_def round53_error(2))
  have p: "2 ^ 53 * p \<le> 2 ^ 53 * round53 p + p" by (rule round53_error(2))
  have p10: "10 * p = 11 * f * 2 ^ 52 + 4 * f"
    using arg_cong [OF gas_factor, of "\<lambda>x. f * x"] by (simp add: p_def algebra_simps)
  have "n * 2 ^ 52 \<le> round53 p" using f p p10 by simp
  then show ?thesis by (simp add: less_eq_div_iff_mult_less_eq p_def f_def)
qed

definition sample_op_rpc :: "(unit, nat) op_rpc" where
  "sample_op_rpc =
     \<lparr>opAbiJSON = (\<lambda>_. Inr ()), opHexToAddress = (\<lambda>s. 0x420000000000000000000000000000000000000F),
      opTipCap = Inr (Some 1000000), opPack = (\<lambda>a n d. Inr d), opCall = (\<lambda>a d. Inr d),
      opUnpack = (\<lambda>a n d. Inr [BigInt (int (length d))]), opEstimateGas = (\<lambda>m. Inr (of_nat m))\<rparr>"

subsection \<open>Properties\<close>

text \<open>
  C20. The buffer is exactly ten percent, rounded down: for every estimate below \<open>2^48\<close> gas (a hundred
  thousand times the gas of a block) the floating-point computation returns \<open>floor(11 * raw / 10)\<close>, and
  an error of the node is passed on.
\<close>

theorem EstimateGasWithBuffer_exact:
  assumes "opEstimateGas rpc msg = Inr raw" and "unat raw < 2 ^ 48"
  shows "EstimateGasWithBuffer rpc msg = Inr (Some (of_nat (11 * unat raw div 10)))"
proof -
  have exact: "round53 (unat raw) = unat raw" using assms(2) by (simp add: round53_def)
  have fits: "11 * unat raw div 10 < 2 ^ 64" using assms(2) by simp
  have "gasWithBuffer raw = Some (of_nat (11 * unat raw div 10))"
    by (simp only: gasWithBuffer_def Let_def exact gas_rounded [OF assms(2)] fits if_True)
  then show ?thesis by (simp add: EstimateGasWithBuffer_def assms(1))
qed

theorem EstimateGasWithBuffer_exact_witness:
  "EstimateGasWithBuffer sample_op_rpc 123457 = Inr (Some 135802)"
  using EstimateGasWithBuffer_exact [of sample_op_rpc 123457 123457] by (simp add: sample_op_rpc_def)

text \<open>
  The buffer never lowers an estimate: whatever 64-bit estimate the node returns, a result that fits
  64 bits is at least the estimate, in spite of the two roundings.
\<close>

lemma gasWithBuffer_ge:
  assumes "gasWithBuffer raw = Some g"
  shows "raw \<le> g"
proof -
  define scaled where "scaled = round53 (round53 (unat raw) * gasOverheadFactor) div 2 ^ 52"
  have "scaled < 2 ^ 64" and g: "g = of_nat scaled"
    using assms by (auto simp: gasWithBuffer_def scaled_def Let_def split: if_splits)
  then have "unat g = scaled" by (simp add: unat_of_nat)
  moreover have "unat raw \<le> scaled" unfolding scaled_def by (rule gas_not_lowered)
  ultimately show ?thesis by (simp add: word_le_nat_alt)
qed

end
