(* ===== verification/Event_Bus.thy ===== *)
theory Event_Bus
  imports Intent_Handler Relayer_Config Auction_Interleaving Settlement_Bindings OP_Stack_Client
begin

section \<open>The event bus (\<open>cmd/relayer/main.go\<close>)\<close>

text \<open>
  \<open>main\<close> reads the configuration, builds the components in a fixed order and stops at the first one that
  fails; it connects them by four channels and starts the goroutines. This theory has the dispatchers,
  the start-up and the relayer as a whole: a state with every component, and a step relation whose steps
  are those of the components, joined where one hands something to another (a posted intent to the
  dispatcher, the broadcast to the hub, a solver's bid to the engine, a voucher to the executor, a
  failed id to the drain). The invariant projects a reachable state to reachable states of the parts, so
  that what was proved about each of them holds in the whole. Conversely every accepted intent with a
  solver's answer has a run of the whole that emits its voucher (\<open>relayer_cycle\<close>).
\<close>

subsection \<open>Channel sizes\<close>

definition intentBuf :: nat where "intentBuf = 256"
definition bidBuf :: nat where "bidBuf = 10000"
definition txFailBuf :: nat where "txFailBuf = 128"
definition voucherBuf :: nat where "voucherBuf = 256"

subsection \<open>The dispatchers\<close>

text \<open>
  One turn of a dispatcher's \<open>select\<close> when it does not take \<open>ctx.Done()\<close>: it waits, returns because the
  channel was closed, or handles what it received. A failed \<open>StartAuction\<close> or \<open>SubmitBid\<close> is only logged.
  \<open>SubmitBid\<close> is left after its first section; the second one, the append, is a step of its own.
\<close>

datatype 'a turn = Blocks | Ends | Goes 'a

definition runIntentDispatcher :: "go_time \<Rightarrow> intent gochan \<Rightarrow> system \<Rightarrow> (intent gochan \<times> system) turn" where
  "runIntentDispatcher now ch s =
     (case chan_recv ch of
        (Received i, ch') \<Rightarrow> Goes (ch', startSection now i s)
      | (ChanClosed, _) \<Rightarrow> Ends
      | (WouldBlock, _) \<Rightarrow> Blocks)"

definition runBidDispatcher :: "bid gochan \<Rightarrow> system \<Rightarrow> (bid \<times> bid gochan \<times> system) turn" where
  "runBidDispatcher ch s =
     (case chan_recv ch of
        (Received b, ch') \<Rightarrow> Goes (b, ch', lookupSection 0 b s)
      | (ChanClosed, _) \<Rightarrow> Ends
      | (WouldBlock, _) \<Rightarrow> Blocks)"

definition drainTxFailed :: "intent_id gochan \<Rightarrow> (intent_id \<times> intent_id gochan) turn" where
  "drainTxFailed ch =
     (case chan_recv ch of
        (Received iid, ch') \<Rightarrow> Goes (iid, ch')
      | (ChanClosed, _) \<Rightarrow> Ends
      | (WouldBlock, _) \<Rightarrow> Blocks)"

subsection \<open>The relayer\<close>

text \<open>
  The voucher channel is the engine's; the loop of the executor keeps its own history. \<open>rlBroadcasts\<close>
  holds the requests that have pushed their intent and not yet called \<open>BroadcastIntent\<close>, \<open>rlAccepted\<close> is
  the history of pushed intents.
\<close>

datatype main_pc = AwaitingQuit | ShuttingDown | MainReturned

record ('k, 'tx) relayer =
  rlIntentCh :: "intent gochan"
  rlBroadcasts :: "intent list"
  rlHub :: hub_sys
  rlEngine :: system
  rlLoop :: "('k, 'tx) exec_loop"
  rlIntentDone :: bool
  rlBidDone :: bool
  rlDrainDone :: bool
  rlCancelled :: bool
  rlServing :: bool
  rlMain :: main_pc
  rlAccepted :: "intent list"

definition wireRelayer :: "'k executor \<Rightarrow> 64 word \<Rightarrow> ('k, 'tx) relayer" where
  "wireRelayer ex auctionTimeout =
     \<lparr>rlIntentCh = make_chan intentBuf, rlBroadcasts = [], rlHub = initHub (make_chan bidBuf),
      rlEngine = initSystem voucherBuf auctionTimeout, rlLoop = initLoop ex voucherBuf txFailBuf,
      rlIntentDone = False, rlBidDone = False, rlDrainDone = False, rlCancelled = False,
      rlServing = True, rlMain = AwaitingQuit, rlAccepted = []\<rparr>"

subsection \<open>Start-up\<close>

datatype start_error =
    BadConfig config_error
  | VaultFailed vault_error
  | DialFailed string
  | OPClientFailed op_error
  | NonceSeedFailed nonce_error
  | BindFailed string

text \<open>
  The steps of \<open>main\<close> up to the start of the goroutines; every error is a \<open>logger.Fatal\<close>. What the node
  answers is given by \<open>dial\<close>, \<open>rpc\<close> and \<open>pending\<close>; \<open>lib\<close> is go-ethereum's \<open>bind\<close>.
\<close>

definition startRelayer ::
    "('k, 'p) crypto \<Rightarrow> addr_text \<Rightarrow> (string \<Rightarrow> string + 'be) \<Rightarrow> ('abi, 'msg) op_rpc \<Rightarrow>
     (address \<Rightarrow> string + 64 word) \<Rightarrow> ('be, 'tx) bind_lib \<Rightarrow> env_file option \<Rightarrow> env \<Rightarrow>
     start_error + config \<times> 'abi op_client \<times> ('k, 'tx) relayer" where
  "startRelayer cr ac dial rpc pending lib dotenv e =
     (case readConfig (fst (loadDotEnv ''.env'' dotenv e)) of Inl x \<Rightarrow> Inl (BadConfig x) | Inr cfg \<Rightarrow>
      case fst (NewKeyVaultFromHex cr (cfPrivateKeyHex cfg)) of Inl x \<Rightarrow> Inl (VaultFailed x) | Inr vault \<Rightarrow>
      case dial (cfRpcURL cfg) of Inl x \<Rightarrow> Inl (DialFailed x) | Inr ethCl \<Rightarrow>
      case NewOPStackClient rpc of Inl x \<Rightarrow> Inl (OPClientFailed x) | Inr opClient \<Rightarrow>
      case NewNonceQueue pending (VaultAddress vault) of Inl x \<Rightarrow> Inl (NonceSeedFailed x) | Inr nonceQueue \<Rightarrow>
      case NewVynxSettlement lib (HexToAddress ac (cfSettlementAddr cfg)) ethCl of Inl x \<Rightarrow> Inl (BindFailed x) | Inr settlement \<Rightarrow>
      Inr (cfg, opClient,
        wireRelayer (NewExecutor vault nonceQueue (uint (cfChainID cfg))) (cfAuctionTimeout cfg)))"

subsection \<open>Steps\<close>

text \<open>
  The context is cancelled by the signal \<open>main\<close> waits for and by a failure of the HTTP server; the latter
  does not wake \<open>main\<close>. The process ends when \<open>main\<close> returns.
\<close>

definition cancelRelayer :: "hub_sys \<Rightarrow> ('k, 'tx) relayer \<Rightarrow> ('k, 'tx) relayer" where
  "cancelRelayer h s = s\<lparr>rlCancelled := True, rlHub := h, rlLoop := (rlLoop s)\<lparr>xlCancelled := True\<rparr>\<rparr>"

inductive relayer_step ::
    "('k, 'p) crypto \<Rightarrow> 'tx eth_signer \<Rightarrow> (string \<Rightarrow> string) \<Rightarrow> addr_text \<Rightarrow>
     ('k, 'tx) relayer \<Rightarrow> ('k, 'tx) relayer \<Rightarrow> bool" for cr eth unicodeLower ac where
  post: "rlServing s \<Longrightarrow> parseIntent ac jsonErr now received r = Inr i \<Longrightarrow> try_send i (rlIntentCh s) = Inr (True, ch) \<Longrightarrow>
     relayer_step cr eth unicodeLower ac s
       (s\<lparr>rlIntentCh := ch, rlBroadcasts := i # rlBroadcasts s, rlAccepted := rlAccepted s @ [i]\<rparr>)"
| broadcast: "i \<in> set (rlBroadcasts s) \<Longrightarrow> hub_step ac (Broadcasts i) (rlHub s) h \<Longrightarrow>
     relayer_step cr eth unicodeLower ac s (s\<lparr>rlBroadcasts := remove1 i (rlBroadcasts s), rlHub := h\<rparr>)"
| hub: "hub_step ac Local (rlHub s) h \<Longrightarrow> relayer_step cr eth unicodeLower ac s (s\<lparr>rlHub := h\<rparr>)"
| dispatch_intent: "\<not> rlIntentDone s \<Longrightarrow>
     runIntentDispatcher now (rlIntentCh s) (rlEngine s) = Goes (ch, sys) \<Longrightarrow>
     relayer_step cr eth unicodeLower ac s (s\<lparr>rlIntentCh := ch, rlEngine := sys\<rparr>)"
| dispatch_bid: "\<not> rlBidDone s \<Longrightarrow> sSubs (rlEngine s) 0 = None \<Longrightarrow>
     runBidDispatcher (hBidCh (hsHub (rlHub s))) (rlEngine s) = Goes (b, ch, sys) \<Longrightarrow>
     hub_step ac (HandsOver b) (rlHub s) h \<Longrightarrow>
     relayer_step cr eth unicodeLower ac s (s\<lparr>rlHub := h, rlEngine := sys\<rparr>)"
| append_bid: "sSubs (rlEngine s) 0 = Some (b, p) \<Longrightarrow>
     relayer_step cr eth unicodeLower ac s (s\<lparr>rlEngine := appendSection 0 b p (rlEngine s)\<rparr>)"
| auction: "sRuns (rlEngine s) p = Some r \<Longrightarrow>
     relayer_step cr eth unicodeLower ac s (s\<lparr>rlEngine := runSection now p r (rlEngine s)\<rparr>)"
| settle: "executor_active (rlLoop s) \<Longrightarrow> chan_recv (eVoucherCh (sEngine (rlEngine s))) = (Received v, ch) \<Longrightarrow>
     relayer_step cr eth unicodeLower ac s
       (s\<lparr>rlEngine := takeSection (rlEngine s),
          rlLoop := handleVoucher cr eth unicodeLower rp v ((rlLoop s)\<lparr>xlSent := xlSent (rlLoop s) @ [v]\<rparr>)\<rparr>)"
| drain: "\<not> rlDrainDone s \<Longrightarrow> drainTxFailed (xlFailed (rlLoop s)) = Goes (iid, ch) \<Longrightarrow>
     relayer_step cr eth unicodeLower ac s
       (s\<lparr>rlLoop := (rlLoop s)\<lparr>xlFailed := ch, xlDrained := xlDrained (rlLoop s) @ [iid]\<rparr>\<rparr>)"
| server_error: "rlServing s \<Longrightarrow> hub_step ac Cancels (rlHub s) h \<Longrightarrow>
     relayer_step cr eth unicodeLower ac s (cancelRelayer h (s\<lparr>rlServing := False\<rparr>))"
| quit: "rlMain s = AwaitingQuit \<Longrightarrow> hub_step ac Cancels (rlHub s) h \<Longrightarrow>
     relayer_step cr eth unicodeLower ac s (cancelRelayer h (s\<lparr>rlMain := ShuttingDown\<rparr>))"
| main_done: "rlMain s = ShuttingDown \<Longrightarrow>
     relayer_step cr eth unicodeLower ac s (s\<lparr>rlServing := False, rlMain := MainReturned\<rparr>)"
| intents_done: "rlCancelled s \<Longrightarrow> relayer_step cr eth unicodeLower ac s (s\<lparr>rlIntentDone := True\<rparr>)"
| bids_done: "rlCancelled s \<Longrightarrow> sSubs (rlEngine s) 0 = None \<Longrightarrow>
     relayer_step cr eth unicodeLower ac s (s\<lparr>rlBidDone := True\<rparr>)"
| drain_done: "rlCancelled s \<Longrightarrow> relayer_step cr eth unicodeLower ac s (s\<lparr>rlDrainDone := True\<rparr>)"
| settle_done: "executor_active (rlLoop s) \<Longrightarrow> xlCancelled (rlLoop s) \<Longrightarrow>
     relayer_step cr eth unicodeLower ac s (s\<lparr>rlLoop := (rlLoop s)\<lparr>xlReturned := True\<rparr>\<rparr>)"

inductive relayer_reach ::
    "('k, 'p) crypto \<Rightarrow> 'tx eth_signer \<Rightarrow> (string \<Rightarrow> string) \<Rightarrow> addr_text \<Rightarrow> 'k executor \<Rightarrow> 64 word \<Rightarrow>
     ('k, 'tx) relayer \<Rightarrow> bool" for cr eth unicodeLower ac ex timeout where
  init: "relayer_reach cr eth unicodeLower ac ex timeout (wireRelayer ex timeout)"
| step: "relayer_reach cr eth unicodeLower ac ex timeout s \<Longrightarrow> rlMain s \<noteq> MainReturned \<Longrightarrow>
     relayer_step cr eth unicodeLower ac s s' \<Longrightarrow>
     relayer_reach cr eth unicodeLower ac ex timeout s'"

subsection \<open>What the engine's log says about the bus\<close>

text \<open>The intents handed to \<open>StartAuction\<close>, in order, whether or not the auction could be started.\<close>

fun dispatched :: "engine_event list \<Rightarrow> intent list" where
  "dispatched [] = []"
| "dispatched (ev # log) = (case ev of Started p i \<Rightarrow> [i] | StartRefused i e \<Rightarrow> [i] | _ \<Rightarrow> []) @ dispatched log"

definition log_bids :: "engine_event list \<Rightarrow> bid set" where
  "log_bids log = {b. \<exists>p. BidAppended p b \<in> set log}"

lemma dispatched_append [simp]: "dispatched (l1 @ l2) = dispatched l1 @ dispatched l2"
  by (induction l1) auto

lemma log_bids_append [simp]: "log_bids (l1 @ l2) = log_bids l1 \<union> log_bids l2"
  by (auto simp: log_bids_def)

lemma log_bids_simps [simp]:
  "log_bids [] = {}" "log_bids (BidAppended p b # l) = insert b (log_bids l)"
  by (auto simp: log_bids_def)

lemma log_bids_other [simp]: "(\<And>p b. ev \<noteq> BidAppended p b) \<Longrightarrow> log_bids (ev # l) = log_bids l"
  by (auto simp: log_bids_def)

definition subs_bids :: "system \<Rightarrow> bid set" where
  "subs_bids s = {b. \<exists>t p. sSubs s t = Some (b, p)}"

lemma startSection_bus:
  "dispatched (sLog (startSection now i s)) = dispatched (sLog s) @ [i]"
  "taken (sLog (startSection now i s)) = taken (sLog s)"
  "log_bids (sLog (startSection now i s)) = log_bids (sLog s)"
  "subs_bids (startSection now i s) = subs_bids s"
  by (simp_all add: startSection_def logEvent_def subs_bids_def split: sum.split)

lemma lookupSection_bus:
  "dispatched (sLog (lookupSection t b s)) = dispatched (sLog s)"
  "taken (sLog (lookupSection t b s)) = taken (sLog s)"
  "log_bids (sLog (lookupSection t b s)) = log_bids (sLog s)"
  "subs_bids (lookupSection t b s) \<subseteq> insert b (subs_bids s)"
  by (auto simp: lookupSection_def logEvent_def subs_bids_def split: option.split if_splits)

lemma appendSection_bus:
  "dispatched (sLog (appendSection t b p s)) = dispatched (sLog s)"
  "taken (sLog (appendSection t b p s)) = taken (sLog s)"
  "log_bids (sLog (appendSection t b p s)) = insert b (log_bids (sLog s))"
  "subs_bids (appendSection t b p s) \<subseteq> subs_bids s"
  by (auto simp: appendSection_def logEvent_def subs_bids_def split: if_splits)

lemma runSection_bus:
  "dispatched (sLog (runSection now p r s)) = dispatched (sLog s)"
  "taken (sLog (runSection now p r s)) = taken (sLog s)"
  "log_bids (sLog (runSection now p r s)) = log_bids (sLog s)"
  "subs_bids (runSection now p r s) = subs_bids s"
  by (simp_all add: runSection_def section_defs subs_bids_def Let_def split: run_pc.split option.split sum.split)

lemma takeSection_bus:
  assumes "chan_recv (eVoucherCh (sEngine s)) = (Received v, ch)"
  shows "dispatched (sLog (takeSection s)) = dispatched (sLog s)"
    "taken (sLog (takeSection s)) = taken (sLog s) @ [v]"
    "log_bids (sLog (takeSection s)) = log_bids (sLog s)" "subs_bids (takeSection s) = subs_bids s"
  using assms by (simp_all add: takeSection_def logEvent_def subs_bids_def)

subsection \<open>The whole projects to its parts\<close>

definition parts_ok ::
    "('k, 'p) crypto \<Rightarrow> 'tx eth_signer \<Rightarrow> (string \<Rightarrow> string) \<Rightarrow> addr_text \<Rightarrow> 'k executor \<Rightarrow> 64 word \<Rightarrow>
     ('k, 'tx) relayer \<Rightarrow> bool" where
  "parts_ok cr eth ul ac ex timeout s \<longleftrightarrow>
     hub_reach ac bidBuf (rlHub s) \<and> engine_reach voucherBuf timeout (rlEngine s) \<and>
     executor_reach cr eth ul ex voucherBuf txFailBuf (rlLoop s)"

text \<open>
  What is handed over: accepted intents are dispatched in order and the rest wait in the channel, the
  engine only sees bids parsed from solver messages, and the executor gets the vouchers in order.
\<close>

definition bus_ok :: "addr_text \<Rightarrow> ('k, 'tx) relayer \<Rightarrow> bool" where
  "bus_ok ac s \<longleftrightarrow>
     chan_ok (rlIntentCh s) \<and> rlAccepted s = dispatched (sLog (rlEngine s)) @ chBuf (rlIntentCh s) \<and>
     list_all intent_valid (rlAccepted s) \<and>
     (\<forall>b \<in> log_bids (sLog (rlEngine s)) \<union> subs_bids (rlEngine s). parsed_bid ac b) \<and>
     xlSent (rlLoop s) = taken (sLog (rlEngine s)) \<and> xlVouchers (rlLoop s) = make_chan voucherBuf"

lemma handleVoucher_frame [simp]:
  "xlSent (handleVoucher cr eth ul rp v st) = xlSent st"
  "xlVouchers (handleVoucher cr eth ul rp v st) = xlVouchers st"
  by (simp_all add: handleVoucher_def split: sum.split)

lemma runIntentDispatcher_Goes:
  "runIntentDispatcher now ch s = Goes (ch', s') \<longleftrightarrow>
     (\<exists>i. chan_recv ch = (Received i, ch') \<and> s' = startSection now i s)"
  by (auto simp: runIntentDispatcher_def split: prod.splits received.splits)

lemma runBidDispatcher_Goes:
  "runBidDispatcher ch s = Goes (b, ch', s') \<longleftrightarrow> chan_recv ch = (Received b, ch') \<and> s' = lookupSection 0 b s"
  by (auto simp: runBidDispatcher_def split: prod.splits received.splits)

lemma drainTxFailed_Goes: "drainTxFailed ch = Goes (iid, ch') \<longleftrightarrow> chan_recv ch = (Received iid, ch')"
  by (auto simp: drainTxFailed_def split: prod.splits received.splits)

lemma relayer_step_parts:
  assumes "relayer_step cr eth ul ac s s'" and "parts_ok cr eth ul ac ex timeout s" and "bus_ok ac s"
  shows "parts_ok cr eth ul ac ex timeout s'"
  using assms
proof (induction rule: relayer_step.induct)
  case (dispatch_intent s now ch sys)
  then show ?case
    by (auto simp: parts_ok_def runIntentDispatcher_Goes intro: engine_reach.step engine_step.start)
next
  case (dispatch_bid s b ch sys h)
  then show ?case
    by (auto simp: parts_ok_def runBidDispatcher_Goes intro: engine_reach.step engine_step.lookup hub_reach.step)
next
  case (settle s v ch rp)
  then have "sys_ok (rlEngine s)" by (auto simp: parts_ok_def dest: engine_reach_ok)
  then have "voucher_ok v"
    using engine_okD(2) [OF sys_okD(1)] chan_recv_ReceivedD(1) [OF settle(2)] by fastforce
  with settle have "executor_reach cr eth ul ex voucherBuf txFailBuf
      (handleVoucher cr eth ul rp v ((rlLoop s)\<lparr>xlSent := xlSent (rlLoop s) @ [v]\<rparr>))"
    by (intro reach_sent_and_handled) (auto simp: parts_ok_def bus_ok_def voucherBuf_def)
  with settle show ?case
    by (auto simp: parts_ok_def intro: engine_reach.step engine_step.take)
qed (auto simp: parts_ok_def drainTxFailed_Goes cancelRelayer_def
      intro: engine_reach.step engine_step.append runSection_step hub_reach.step executor_reach.step
        executor_step.drain executor_step.cancel executor_step.shutdown)

lemma relayer_step_bus:
  assumes "relayer_step cr eth ul ac s s'" and "parts_ok cr eth ul ac ex timeout s" and "bus_ok ac s"
  shows "bus_ok ac s'"
  using assms
proof (induction rule: relayer_step.induct)
  case (post jsonErr now received r i s ch)
  then show ?case by (auto simp: bus_ok_def try_send_def chan_ok_def dest: parseIntent_valid split: if_splits)
next
  case (dispatch_intent s now ch sys)
  then obtain i where i: "chan_recv (rlIntentCh s) = (Received i, ch)" "sys = startSection now i (rlEngine s)"
    by (auto simp: runIntentDispatcher_Goes)
  with dispatch_intent chan_recv_ReceivedD [OF i(1)] show ?case by (auto simp: bus_ok_def startSection_bus)
next
  case (dispatch_bid s b ch sys h)
  then have b: "chan_recv (hBidCh (hsHub (rlHub s))) = (Received b, ch)" "sys = lookupSection 0 b (rlEngine s)"
    by (auto simp: runBidDispatcher_Goes)
  have "hub_sys_ok ac (rlHub s)" using dispatch_bid by (auto simp: parts_ok_def dest: hub_reach_ok)
  with chan_recv_ReceivedD(1) [OF b(1)] have "parsed_bid ac b" by (simp add: hub_sys_ok_def)
  with dispatch_bid b lookupSection_bus(4) [of 0 b "rlEngine s"] show ?case
    by (auto simp: bus_ok_def lookupSection_bus(1-3))
next
  case (append_bid s b p)
  then have "b \<in> subs_bids (rlEngine s)" by (auto simp: subs_bids_def)
  with append_bid appendSection_bus(4) [of 0 b p "rlEngine s"] show ?case
    by (auto simp: bus_ok_def appendSection_bus(1-3))
next
  case (auction s p r now)
  then show ?case by (auto simp: bus_ok_def runSection_bus)
next
  case (settle s v ch rp)
  then show ?case by (auto simp: bus_ok_def takeSection_bus [OF settle(2)])
qed (auto simp: bus_ok_def cancelRelayer_def)

lemma relayer_reach_ok:
  "relayer_reach cr eth ul ac ex timeout s \<Longrightarrow> parts_ok cr eth ul ac ex timeout s \<and> bus_ok ac s"
proof (induction rule: relayer_reach.induct)
  case init
  show ?case
    by (simp add: parts_ok_def bus_ok_def wireRelayer_def hub_reach.init engine_reach.init executor_reach.init)
       (simp add: initSystem_def initLoop_def subs_bids_def)
next
  case (step s s')
  then show ?case by (blast intro: relayer_step_parts relayer_step_bus)
qed

subsection \<open>From a claim back to the request and the bid\<close>

lemma emitted_mem: "v \<in> set (emitted log) \<Longrightarrow> \<exists>p. Emitted p v \<in> set log"
  by (induction log) (auto split: engine_event.splits)

lemma dispatched_mem: "Started p i \<in> set log \<Longrightarrow> i \<in> set (dispatched log)"
  by (induction log) auto

lemma appended_mem: "w \<in> set (appended p log) \<Longrightarrow> w \<in> log_bids log"
  by (induction log) (auto simp: log_bids_def split: engine_event.splits if_splits)

text \<open>A voucher the executor has received comes from an accepted intent and the best bid of its auction.\<close>

lemma handled_voucher_source:
  assumes "parts_ok cr eth ul ac ex timeout s" and bus: "bus_ok ac s" and "sign_format cr"
    and h: "h \<in> set (xlHandled (rlLoop s))"
  obtains i b p l1 l2 now where "hVoucher h = newVoucher now i b" and "i \<in> set (rlAccepted s)"
    and "intent_valid i" and "parsed_bid ac b" and "bIntentID b = iID i"
    and "sLog (rlEngine s) = l1 @ Scanned p # l2" and "Started p i \<in> set (sLog (rlEngine s))"
    and "best_bid (appended p l1) = Some b"
proof -
  have eng: "engine_reach voucherBuf timeout (rlEngine s)"
    and loop: "loop_ok cr eth ul ex txFailBuf (rlLoop s)"
    using assms(1,3) by (auto simp: parts_ok_def dest: executor_reach_ok)
  have sent: "hVoucher h \<in> set (xlSent (rlLoop s))" using loop_okD(6) [OF loop] h by simp
  then have "hVoucher h \<in> set (emitted (sLog (rlEngine s)))"
    using engine_reach_transit [OF eng] bus by (simp add: in_transit_def bus_ok_def)
  then obtain p where "Emitted p (hVoucher h) \<in> set (sLog (rlEngine s))" by (blast dest: emitted_mem)
  with voucher_history [OF eng] obtain l1 l2 i w now where v: "sLog (rlEngine s) = l1 @ Scanned p # l2"
      "Started p i \<in> set (sLog (rlEngine s))" "best_bid (appended p l1) = Some w" "hVoucher h = newVoucher now i w"
    by blast
  have i: "i \<in> set (rlAccepted s)" using dispatched_mem [OF v(2)] bus by (simp add: bus_ok_def)
  have "w \<in> log_bids l1" using best_bid_mem [OF v(3)] by (rule appended_mem)
  then have "parsed_bid ac w" using bus v(1) by (simp add: bus_ok_def)
  moreover have "bIntentID w = iID i"
    using loop_okD(5) [OF loop sent] v(4) by (simp add: voucher_ok_def newVoucher_def)
  moreover have "intent_valid i" using bus i by (simp add: bus_ok_def list_all_iff)
  ultimately show thesis using v i by (intro that [of now i w l1 p l2])
qed

lemma handled_claim:
  assumes "parts_ok cr eth ul ac ex timeout s" and "sign_format cr" and "sign_recovers cr"
    and "vault_ok cr (exVault ex)" and h: "h \<in> set (xlHandled (rlLoop s))" and c: "c \<in> set (erCalls (hResult h))"
  shows "ccIntentId c = idBytes (vIntentID (hVoucher h)) \<and> ccSolver c = vWinningSolver (hVoucher h) \<and>
    evm_signed cr (VaultAddress (exVault ex))
      (ClaimDigest cr (ccIntentId c) (ccSolver c)) (ccSignature c)"
proof -
  have loop: "loop_ok cr eth ul ex txFailBuf (rlLoop s)"
    using assms(1,2) by (auto simp: parts_ok_def dest: executor_reach_ok)
  have ok: "voucher_ok (hVoucher g)" if "g \<in> set (xlHandled (rlLoop s))" for g
    using loop_okD(5,6) [OF loop] that by auto
  from replays_mem [OF loop_okD(7) [OF loop] h assms(2)] ok obtain ex1 where ex1: "exVault ex1 = exVault ex"
      "execute cr eth ul (hReplies h) ex1 (hVoucher h) = Inr (hResult h)" by blast
  show ?thesis
    by (rule execute_cases [OF assms(2) ok [OF h], of eth ul "hReplies h" ex1])
       (use c ex1 assms(3,4) in \<open>auto simp: claim_matches_def\<close>)
qed

subsection \<open>What the start-up establishes\<close>

lemma startRelayer_ok:
  assumes "startRelayer cr ac dial rpc pending lib dotenv e = Inr (cfg, opClient, s)"
  shows "s = wireRelayer (xlExec (rlLoop s)) (cfAuctionTimeout cfg)"
    and "vault_ok cr (exVault (xlExec (rlLoop s)))"
proof -
  from assms obtain vault nq where v: "fst (NewKeyVaultFromHex cr (cfPrivateKeyHex cfg)) = Inr vault"
      and s: "s = wireRelayer (NewExecutor vault nq (uint (cfChainID cfg))) (cfAuctionTimeout cfg)"
    by (auto simp: startRelayer_def split: sum.splits option.splits)
  have ex: "xlExec (rlLoop s) = NewExecutor vault nq (uint (cfChainID cfg))"
    by (simp add: s wireRelayer_def initLoop_def)
  then show "s = wireRelayer (xlExec (rlLoop s)) (cfAuctionTimeout cfg)" using s by simp
  show "vault_ok cr (exVault (xlExec (rlLoop s)))"
    using v by (auto simp: ex NewExecutor_def vault_ok_def NewKeyVaultFromHex_def Let_def split: prod.splits option.splits sum.splits)
qed

subsection \<open>A run of the relayer\<close>

text \<open>One auction with one bid in the engine, section by section.\<close>

lemma one_auction:
  fixes i b now timeout
  defines "r \<equiv> \<lparr>rIntent = i, rPc = Waiting\<rparr>"
  defines "e1 \<equiv> startSection now i (initSystem voucherBuf timeout)"
  defines "e2 \<equiv> lookupSection 0 b e1"
  defines "e3 \<equiv> appendSection 0 b 0 e2"
  defines "e4 \<equiv> runSection now 0 r e3"
  defines "e5 \<equiv> runSection now 0 (r\<lparr>rPc := Holding (Some 0)\<rparr>) e4"
  defines "e6 \<equiv> runSection now 0 (r\<lparr>rPc := Chosen (Some b)\<rparr>) e5"
  assumes b: "bIntentID b = iID i" "bAmountOut b = Some x" "bGasPrice b = Some y"
  shows "sSubs e1 0 = None" "sSubs e2 0 = Some (b, 0)" "sRuns e3 0 = Some r"
    "sRuns e4 0 = Some (r\<lparr>rPc := Holding (Some 0)\<rparr>)" "sRuns e5 0 = Some (r\<lparr>rPc := Chosen (Some b)\<rparr>)"
    "chan_recv (eVoucherCh (sEngine e6)) = (Received (newVoucher now i b), make_chan voucherBuf)"
proof -
  note defs = initSystem_def NewEngine_def section_defs runSection_def StartAuction_def lookupEntry_def appendBid_def
    scanEntry_def emitVoucher_def try_send_def make_chan_def voucherBuf_def chan_recv_def Let_def r_def
  show "sSubs e1 0 = None" by (simp add: e1_def defs)
  show "sSubs e2 0 = Some (b, 0)" by (simp add: e2_def e1_def defs b)
  show "sRuns e3 0 = Some r" by (simp add: e3_def e2_def e1_def defs b)
  show "sRuns e4 0 = Some (r\<lparr>rPc := Holding (Some 0)\<rparr>)" by (simp add: e4_def e3_def e2_def e1_def defs b)
  show "sRuns e5 0 = Some (r\<lparr>rPc := Chosen (Some b)\<rparr>)" by (simp add: e5_def e4_def e3_def e2_def e1_def defs b)
  show "chan_recv (eVoucherCh (sEngine e6)) = (Received (newVoucher now i b), make_chan voucherBuf)"
    by (simp add: e6_def e5_def e4_def e3_def e2_def e1_def defs b)
qed

text \<open>
  The hub with one solver: it joins, an intent is broadcast and written to it, and its answer is parsed
  into the channel and taken by the dispatcher.
\<close>

definition solo_hub :: "client \<Rightarrow> bcast_pc list \<Rightarrow> bid list \<Rightarrow> hub_sys" where
  "solo_hub c bs bids =
     \<lparr>hsHub = \<lparr>hHeap = [0 \<mapsto> c], hNext = 1, hClients = {0}, hBidCh = (make_chan bidBuf)\<lparr>chBuf := bids\<rparr>\<rparr>,
      hsBroadcasts = bs, hsCancelled = False, hsRunReturned = False, hsPanic = None\<rparr>"

definition told_client :: "string \<Rightarrow> client" where
  "told_client m = new_client\<lparr>cQueued := [m], cWritten := [m]\<rparr>"

lemma solo_join: "hub_step ac Local (initHub (make_chan bidBuf)) (solo_hub new_client [] [])"
  using hub_step.serve [of "initHub (make_chan bidBuf)" ac True]
  by (simp add: initHub_def write_lock_free_def solo_hub_def ServeWS_def NewHub_def make_chan_def)

lemma solo_broadcast:
  "hub_step ac (Broadcasts i) (solo_hub c [] bids) (solo_hub c [Marshalled (broadcastMsg ac i)] bids)"
  using hub_step.broadcast [of ac i "solo_hub c [] bids"] by (simp add: solo_hub_def)

lemma solo_told: "(hub_step ac Local)\<^sup>*\<^sup>* (solo_hub new_client [Marshalled m] []) (solo_hub (told_client m) [Returned] [])"
proof -
  let ?c = "enqueue m new_client"
  have "hub_step ac Local (solo_hub new_client [Marshalled m] []) (solo_hub new_client [Sending m [0] []] [])"
    using hub_step.rlock [of 0 "solo_hub new_client [Marshalled m] []" m "[0]"] by (simp add: solo_hub_def set_bcast_def)
  moreover have "hub_step ac Local (solo_hub new_client [Sending m [0] []] []) (solo_hub ?c [Sending m [] []] [])"
    using hub_step.send [of 0 "solo_hub new_client [Sending m [0] []] []" m 0 "[]" "[]"]
    by (simp add: solo_hub_def set_bcast_def sendSection_def sendTo_def try_send_def enqueue_def has_room_def new_client_def
        make_chan_def sendBufSize_def)
  moreover have "hub_step ac Local (solo_hub ?c [Sending m [] []] []) (solo_hub ?c [Dropping []] [])"
    using hub_step.runlock [of 0 "solo_hub ?c [Sending m [] []] []"] by (simp add: solo_hub_def set_bcast_def)
  moreover have "hub_step ac Local (solo_hub ?c [Dropping []] []) (solo_hub ?c [Returned] [])"
    using hub_step.returned [of 0 "solo_hub ?c [Dropping []] []"] by (simp add: solo_hub_def set_bcast_def)
  moreover have "hub_step ac Local (solo_hub ?c [Returned] []) (solo_hub (told_client m) [Returned] [])"
    using hub_step.written [of "solo_hub ?c [Returned] []" 0 ?c True "told_client m" ac]
    by (simp add: solo_hub_def set_client_def writeTurn_def chan_recv_def enqueue_def has_room_def new_client_def
        make_chan_def sendBufSize_def told_client_def)
  ultimately show ?thesis by (meson rtranclp.rtrancl_into_rtrancl rtranclp.rtrancl_refl)
qed

lemma solo_answer:
  assumes "parseBid ac now msg = Inr b" and "length msg \<le> maxMessageSize"
  shows "hub_step ac Local (solo_hub (told_client m) bs []) (solo_hub (told_client m) bs [b])"
    "hub_step ac (HandsOver b) (solo_hub (told_client m) bs [b]) (solo_hub (told_client m) bs [])"
    "hBidCh (hsHub (solo_hub c bs [b])) = (make_chan bidBuf)\<lparr>chBuf := [b]\<rparr>"
proof -
  show "hub_step ac Local (solo_hub (told_client m) bs []) (solo_hub (told_client m) bs [b])"
    using hub_step.read [of "solo_hub (told_client m) bs []" 0 "told_client m" msg ac now] assms
    by (simp add: solo_hub_def told_client_def new_client_def readSection_def readMessage_def try_send_def make_chan_def bidBuf_def)
  show "hub_step ac (HandsOver b) (solo_hub (told_client m) bs [b]) (solo_hub (told_client m) bs [])"
    using hub_step.consume [of "solo_hub (told_client m) bs [b]" b "make_chan bidBuf" ac]
    by (simp add: solo_hub_def chan_recv_def make_chan_def)
qed (simp add: solo_hub_def)

text \<open>Steps of the relayer that are steps of one part.\<close>

lemma reach_hub:
  assumes "relayer_reach cr eth ul ac ex timeout s" and "rlMain s = AwaitingQuit" and "(hub_step ac Local)\<^sup>*\<^sup>* (rlHub s) h"
  shows "relayer_reach cr eth ul ac ex timeout (s\<lparr>rlHub := h\<rparr>)"
  using assms(3)
proof induction
  case base
  with assms(1) show ?case by simp
next
  case (step h h')
  then have "relayer_step cr eth ul ac (s\<lparr>rlHub := h\<rparr>) (s\<lparr>rlHub := h'\<rparr>)"
    using relayer_step.hub [of ac "s\<lparr>rlHub := h\<rparr>" h' cr eth ul] by simp
  from relayer_reach.step [OF step.IH _ this] assms(2) show ?case by simp
qed

lemma reach_auction:
  assumes "relayer_reach cr eth ul ac ex timeout s" and "rlMain s = AwaitingQuit" and "sRuns (rlEngine s) p = Some r"
  shows "relayer_reach cr eth ul ac ex timeout (s\<lparr>rlEngine := runSection now p r (rlEngine s)\<rparr>)"
  using relayer_reach.step [OF assms(1) _ relayer_step.auction [OF assms(3)]] assms(2) by simp

text \<open>
  One cycle: an accepted intent is announced to the solver that has joined, its answer becomes a bid, the
  auction closes, and the voucher waits in the channel.
\<close>

lemma relayer_cycle:
  fixes ex :: "'k executor" and eth :: "'tx eth_signer" and cr :: "('k, 'p) crypto"
  assumes post: "parseIntent ac jsonErr posted received r = Inr i"
    and answer: "parseBid ac heard msg = Inr b" and fits: "length msg \<le> maxMessageSize" and same: "bIntentID b = iID i"
  obtains s :: "('k, 'tx) relayer" where "relayer_reach cr eth ul ac ex timeout s"
    and "rlLoop s = initLoop ex voucherBuf txFailBuf" and "rlMain s = AwaitingQuit" and "rlAccepted s = [i]"
    and "hHeap (hsHub (rlHub s)) 0 = Some (told_client (broadcastMsg ac i))"
    and "chan_recv (eVoucherCh (sEngine (rlEngine s))) = (Received (newVoucher now i b), make_chan voucherBuf)"
proof -
  let ?R = "relayer_reach cr eth ul ac ex timeout :: ('k, 'tx) relayer \<Rightarrow> bool"
  let ?r = "\<lparr>rIntent = i, rPc = Waiting\<rparr>"
  define m where "m = broadcastMsg ac i"
  define e0 where "e0 = initSystem voucherBuf timeout"
  define e1 where "e1 = startSection now i e0"
  define e2 where "e2 = lookupSection 0 b e1"
  define e3 where "e3 = appendSection 0 b 0 e2"
  define e4 where "e4 = runSection now 0 ?r e3"
  define e5 where "e5 = runSection now 0 (?r\<lparr>rPc := Holding (Some 0)\<rparr>) e4"
  define e6 where "e6 = runSection now 0 (?r\<lparr>rPc := Chosen (Some b)\<rparr>) e5"
  obtain x y where amounts: "bAmountOut b = Some x" "bGasPrice b = Some y"
    using parseBid_positive [OF answer] by (auto simp: bid_positive_def split: option.splits)
  note E = one_auction [OF same amounts, of now timeout, folded e0_def, folded e1_def, folded e2_def, folded e3_def,
      folded e4_def, folded e5_def, folded e6_def]
  define st :: "intent gochan \<Rightarrow> intent list \<Rightarrow> hub_sys \<Rightarrow> system \<Rightarrow> intent list \<Rightarrow> ('k, 'tx) relayer" where
    "st = (\<lambda>ch bs h e is. \<lparr>rlIntentCh = ch, rlBroadcasts = bs, rlHub = h, rlEngine = e,
       rlLoop = initLoop ex voucherBuf txFailBuf, rlIntentDone = False, rlBidDone = False, rlDrainDone = False,
       rlCancelled = False, rlServing = True, rlMain = AwaitingQuit, rlAccepted = is\<rparr>)"
  have live: "rlMain (st ch bs h e is) \<noteq> MainReturned" "rlMain (st ch bs h e is) = AwaitingQuit" for ch bs h e "is"
    by (simp_all add: st_def)
  have hubs: "?R (st ch bs h e is) \<Longrightarrow> (hub_step ac Local)\<^sup>*\<^sup>* h h' \<Longrightarrow> ?R (st ch bs h' e is)" for ch bs h h' e "is"
    using reach_hub [of cr eth ul ac ex timeout "st ch bs h e is" h'] by (simp add: st_def)
  have auction: "?R (st ch bs h e is) \<Longrightarrow> sRuns e 0 = Some q \<Longrightarrow> ?R (st ch bs h (runSection now 0 q e) is)" for ch bs h e "is" q
    using reach_auction [of cr eth ul ac ex timeout "st ch bs h e is" 0 q now] by (simp add: st_def)
  let ?c0 = "make_chan intentBuf" and ?c1 = "(make_chan intentBuf)\<lparr>chBuf := [i]\<rparr>"
  let ?h = "solo_hub (told_client m) [Returned]"
  have "?R (st ?c0 [] (initHub (make_chan bidBuf)) e0 [])"
    using relayer_reach.init by (simp add: st_def wireRelayer_def e0_def)
  then have "?R (st ?c0 [] (solo_hub new_client [] []) e0 [])"
    using solo_join by (rule hubs [OF _ r_into_rtranclp])
  then have "?R (st ?c1 [i] (solo_hub new_client [] []) e0 [i])"
    by (rule relayer_reach.step [OF _ live(1)])
       (use relayer_step.post [OF _ post, of "st ?c0 [] (solo_hub new_client [] []) e0 []" ?c1 cr eth ul] in
         \<open>simp add: st_def try_send_def make_chan_def intentBuf_def\<close>)
  then have "?R (st ?c1 [] (solo_hub new_client [Marshalled m] []) e0 [i])"
    by (rule relayer_reach.step [OF _ live(1)])
       (use relayer_step.broadcast [of i "st ?c1 [i] (solo_hub new_client [] []) e0 [i]" ac _ cr eth ul] solo_broadcast [of ac i] in
         \<open>simp add: st_def m_def\<close>)
  then have "?R (st ?c1 [] (?h []) e0 [i])" using solo_told by (rule hubs)
  then have "?R (st ?c0 [] (?h []) e1 [i])"
    by (rule relayer_reach.step [OF _ live(1)])
       (use relayer_step.dispatch_intent [of "st ?c1 [] (?h []) e0 [i]" now ?c0 e1] in
         \<open>simp add: st_def runIntentDispatcher_def chan_recv_def make_chan_def e1_def\<close>)
  then have "?R (st ?c0 [] (?h [b]) e1 [i])"
    using solo_answer(1) [OF answer fits] by (rule hubs [OF _ r_into_rtranclp])
  then have "?R (st ?c0 [] (?h []) e2 [i])"
    by (rule relayer_reach.step [OF _ live(1)])
       (use relayer_step.dispatch_bid [of "st ?c0 [] (?h [b]) e1 [i]" b "make_chan bidBuf" e2 ac "?h []" cr eth ul]
          solo_answer [OF answer fits] E(1) in \<open>simp add: st_def runBidDispatcher_def chan_recv_def make_chan_def e2_def\<close>)
  then have "?R (st ?c0 [] (?h []) e3 [i])"
    by (rule relayer_reach.step [OF _ live(1)])
       (use relayer_step.append_bid [of "st ?c0 [] (?h []) e2 [i]" b 0 cr eth ul ac] E(2) in \<open>simp add: st_def e3_def\<close>)
  from auction [OF auction [OF auction [OF this E(3), folded e4_def] E(4), folded e5_def] E(5), folded e6_def]
  have "?R (st ?c0 [] (?h []) e6 [i])" .
  then show thesis by (rule that) (use E(6) in \<open>simp_all add: st_def solo_hub_def m_def\<close>)
qed

end
