(* ===== verification/Settlement_Events.thy ===== *)
theory Settlement_Events
  imports Settlement_Bindings
begin

section \<open>The contract bindings: events\<close>

text \<open>
  For each of the three events of the contract the binding has a struct, a filter that returns an
  iterator, a subscription and a parser. The generator emits the same code three times, with the struct
  and the name of the event exchanged; the shared code is written once here, on a struct that has the
  field \<open>Raw\<close>, and instantiated three times. \<open>UnpackLog\<close> of the library is the parameter \<open>unpack\<close>: it gets
  the new struct, the name and the log and returns the struct it has filled, with its error.
\<close>

subsection \<open>Structs\<close>

definition zero_log :: eth_log where
  "zero_log =
     \<lparr>lgAddress = 0, lgTopics = [], lgData = [], lgBlockNumber = 0, lgTxHash = 0, lgTxIndex = 0, lgBlockHash = 0,
      lgIndex = 0, lgRemoved = False\<rparr>"

record raw_event =
  evRaw :: eth_log

record VynxSettlementFundsClaimed = raw_event +
  fcIntentId :: bytes
  fcSolver :: address
  fcToken :: address
  fcAmount :: bigptr

record VynxSettlementIntentLocked = raw_event +
  ilIntentId :: bytes
  ilAgent :: address
  ilToken :: address
  ilAmount :: bigptr

record VynxSettlementIntentRefunded = raw_event +
  irIntentId :: bytes
  irAgent :: address
  irToken :: address
  irAmount :: bigptr

text \<open>\<open>new\<close> gives the zero values.\<close>

definition newFundsClaimed :: VynxSettlementFundsClaimed where
  "newFundsClaimed =
     \<lparr>evRaw = zero_log, fcIntentId = replicate 32 0, fcSolver = 0, fcToken = 0, fcAmount = None\<rparr>"

definition newIntentLocked :: VynxSettlementIntentLocked where
  "newIntentLocked =
     \<lparr>evRaw = zero_log, ilIntentId = replicate 32 0, ilAgent = 0, ilToken = 0, ilAmount = None\<rparr>"

definition newIntentRefunded :: VynxSettlementIntentRefunded where
  "newIntentRefunded =
     \<lparr>evRaw = zero_log, irIntentId = replicate 32 0, irAgent = 0, irToken = 0, irAmount = None\<rparr>"

type_synonym 'e unpack = "'e \<Rightarrow> string \<Rightarrow> eth_log \<Rightarrow> 'e \<times> string option"

subsection \<open>Parsing one log\<close>

definition parse_event ::
    "'a raw_event_scheme unpack \<Rightarrow> 'a raw_event_scheme \<Rightarrow> string \<Rightarrow> eth_log \<Rightarrow> string + 'a raw_event_scheme" where
  "parse_event unpack new name log =
     (case unpack new name log of
        (event, Some err) \<Rightarrow> Inl err
      | (event, None) \<Rightarrow> Inr (event\<lparr>evRaw := log\<rparr>))"

definition ParseFundsClaimed ::
    "VynxSettlementFundsClaimed unpack \<Rightarrow> eth_log \<Rightarrow> string + VynxSettlementFundsClaimed" where
  "ParseFundsClaimed unpack log = parse_event unpack newFundsClaimed ''FundsClaimed'' log"

definition ParseIntentLocked ::
    "VynxSettlementIntentLocked unpack \<Rightarrow> eth_log \<Rightarrow> string + VynxSettlementIntentLocked" where
  "ParseIntentLocked unpack log = parse_event unpack newIntentLocked ''IntentLocked'' log"

definition ParseIntentRefunded ::
    "VynxSettlementIntentRefunded unpack \<Rightarrow> eth_log \<Rightarrow> string + VynxSettlementIntentRefunded" where
  "ParseIntentRefunded unpack log = parse_event unpack newIntentRefunded ''IntentRefunded'' log"

subsection \<open>Iterators\<close>

text \<open>The iterator struct; its field \<open>contract\<close> is used to unpack only, and is the parameter.\<close>

record 'e event_iterator =
  itEvent :: "'e option"
  itName :: string
  itLogs :: "eth_log gochan"
  itSub :: "string option gochan"
  itDone :: bool
  itFail :: "string option"

type_synonym VynxSettlementFundsClaimedIterator = "VynxSettlementFundsClaimed event_iterator"
type_synonym VynxSettlementIntentLockedIterator = "VynxSettlementIntentLocked event_iterator"
type_synonym VynxSettlementIntentRefundedIterator = "VynxSettlementIntentRefunded event_iterator"

text \<open>
  A receive without the second result: a closed channel gives the zero value, which is an empty log and a
  nil error; None is a receive that has to wait.
\<close>

definition recv_log :: "eth_log gochan \<Rightarrow> (eth_log \<times> eth_log gochan) option" where
  "recv_log ch =
     (case chan_recv ch of
        (Received log, ch') \<Rightarrow> Some (log, ch')
      | (ChanClosed, ch') \<Rightarrow> Some (zero_log, ch')
      | (WouldBlock, ch') \<Rightarrow> None)"

definition recv_err :: "string option gochan \<Rightarrow> (string option \<times> string option gochan) option" where
  "recv_err ch =
     (case chan_recv ch of
        (Received err, ch') \<Rightarrow> Some (err, ch')
      | (ChanClosed, ch') \<Rightarrow> Some (None, ch')
      | (WouldBlock, ch') \<Rightarrow> None)"

text \<open>The body of the two cases that receive a log.\<close>

definition take_log ::
    "'a raw_event_scheme unpack \<Rightarrow> 'a raw_event_scheme \<Rightarrow> eth_log \<Rightarrow> 'a raw_event_scheme event_iterator \<Rightarrow>
       bool \<times> 'a raw_event_scheme event_iterator" where
  "take_log unpack new log it =
     (case unpack new (itName it) log of
        (event, Some err) \<Rightarrow> (False, it\<lparr>itEvent := Some event, itFail := Some err\<rparr>)
      | (event, None) \<Rightarrow> (True, it\<lparr>itEvent := Some (event\<lparr>evRaw := log\<rparr>)\<rparr>))"

text \<open>
  \<open>Next\<close>: when a log and an error are both ready, \<open>select\<close> takes either, which \<open>errFirst\<close> decides; None is a
  call that still waits.
\<close>

function iter_Next ::
    "'a raw_event_scheme unpack \<Rightarrow> 'a raw_event_scheme \<Rightarrow> bool \<Rightarrow> 'a raw_event_scheme event_iterator \<Rightarrow>
       (bool \<times> 'a raw_event_scheme event_iterator) option" where
  "iter_Next unpack new errFirst it =
     (if itFail it \<noteq> None then Some (False, it)
      else if itDone it then
        (case recv_log (itLogs it) of
           Some (log, ch) \<Rightarrow> Some (take_log unpack new log (it\<lparr>itLogs := ch\<rparr>))
         | None \<Rightarrow> Some (False, it))
      else
        (case (recv_log (itLogs it), recv_err (itSub it)) of
           (None, None) \<Rightarrow> None
         | (Some (log, ch), None) \<Rightarrow> Some (take_log unpack new log (it\<lparr>itLogs := ch\<rparr>))
         | (None, Some (err, ch)) \<Rightarrow> iter_Next unpack new errFirst (it\<lparr>itSub := ch, itDone := True, itFail := err\<rparr>)
         | (Some (log, lch), Some (err, ech)) \<Rightarrow>
             if errFirst then iter_Next unpack new errFirst (it\<lparr>itSub := ech, itDone := True, itFail := err\<rparr>)
             else Some (take_log unpack new log (it\<lparr>itLogs := lch\<rparr>))))"
  by pat_completeness auto

termination
  by (relation "measure (\<lambda>(unpack, new, errFirst, it). if itDone it then 0 else 1)") auto

declare iter_Next.simps [simp del]

definition iter_Error :: "'e event_iterator \<Rightarrow> string option" where
  "iter_Error it = itFail it"

text \<open>\<open>Close\<close>; what \<open>Unsubscribe\<close> does to the subscription is the library's.\<close>

definition iter_Close ::
    "(string option gochan \<Rightarrow> string option gochan) \<Rightarrow> 'e event_iterator \<Rightarrow> string option \<times> 'e event_iterator" where
  "iter_Close unsubscribe it = (None, it\<lparr>itSub := unsubscribe (itSub it)\<rparr>)"

definition FundsClaimed_Next ::
    "VynxSettlementFundsClaimed unpack \<Rightarrow> bool \<Rightarrow> VynxSettlementFundsClaimedIterator \<Rightarrow>
       (bool \<times> VynxSettlementFundsClaimedIterator) option" where
  "FundsClaimed_Next unpack = iter_Next unpack newFundsClaimed"

definition IntentLocked_Next ::
    "VynxSettlementIntentLocked unpack \<Rightarrow> bool \<Rightarrow> VynxSettlementIntentLockedIterator \<Rightarrow>
       (bool \<times> VynxSettlementIntentLockedIterator) option" where
  "IntentLocked_Next unpack = iter_Next unpack newIntentLocked"

definition IntentRefunded_Next ::
    "VynxSettlementIntentRefunded unpack \<Rightarrow> bool \<Rightarrow> VynxSettlementIntentRefundedIterator \<Rightarrow>
       (bool \<times> VynxSettlementIntentRefundedIterator) option" where
  "IntentRefunded_Next unpack = iter_Next unpack newIntentRefunded"

definition FundsClaimed_Error :: "VynxSettlementFundsClaimedIterator \<Rightarrow> string option" where
  "FundsClaimed_Error = iter_Error"

definition FundsClaimed_Close ::
    "(string option gochan \<Rightarrow> string option gochan) \<Rightarrow> VynxSettlementFundsClaimedIterator \<Rightarrow>
       string option \<times> VynxSettlementFundsClaimedIterator" where
  "FundsClaimed_Close = iter_Close"

definition IntentLocked_Error :: "VynxSettlementIntentLockedIterator \<Rightarrow> string option" where
  "IntentLocked_Error = iter_Error"

definition IntentLocked_Close ::
    "(string option gochan \<Rightarrow> string option gochan) \<Rightarrow> VynxSettlementIntentLockedIterator \<Rightarrow>
       string option \<times> VynxSettlementIntentLockedIterator" where
  "IntentLocked_Close = iter_Close"

definition IntentRefunded_Error :: "VynxSettlementIntentRefundedIterator \<Rightarrow> string option" where
  "IntentRefunded_Error = iter_Error"

definition IntentRefunded_Close ::
    "(string option gochan \<Rightarrow> string option gochan) \<Rightarrow> VynxSettlementIntentRefundedIterator \<Rightarrow>
       string option \<times> VynxSettlementIntentRefundedIterator" where
  "IntentRefunded_Close = iter_Close"

subsection \<open>Filters\<close>

text \<open>\<open>for _, item := range items { rule = append(rule, item) }\<close>\<close>

fun topicRule :: "('i \<Rightarrow> go_value) \<Rightarrow> 'i list \<Rightarrow> go_value list \<Rightarrow> go_value list" where
  "topicRule box [] rule = rule"
| "topicRule box (item # items) rule = topicRule box items (rule @ [box item])"

definition new_iterator :: "string \<Rightarrow> log_feed \<Rightarrow> 'e event_iterator" where
  "new_iterator name feed =
     \<lparr>itEvent = None, itName = name, itLogs = lfLogs feed, itSub = lfErr feed, itDone = False, itFail = None\<rparr>"

definition FilterFundsClaimed ::
    "'tx VynxSettlementFilterer \<Rightarrow> filter_opts \<Rightarrow> bytes list \<Rightarrow> address list \<Rightarrow>
       string + VynxSettlementFundsClaimedIterator" where
  "FilterFundsClaimed f opts intentId solver =
     (let intentIdRule = topicRule VBytes32 intentId []; solverRule = topicRule VAddress solver []
      in case bcFilterLogs (vfContract f) opts ''FundsClaimed'' [intentIdRule, solverRule] of
           Inl err \<Rightarrow> Inl err
         | Inr feed \<Rightarrow> Inr (new_iterator ''FundsClaimed'' feed))"

definition FilterIntentLocked ::
    "'tx VynxSettlementFilterer \<Rightarrow> filter_opts \<Rightarrow> bytes list \<Rightarrow> address list \<Rightarrow> address list \<Rightarrow>
       string + VynxSettlementIntentLockedIterator" where
  "FilterIntentLocked f opts intentId agent token =
     (let intentIdRule = topicRule VBytes32 intentId []; agentRule = topicRule VAddress agent [];
          tokenRule = topicRule VAddress token []
      in case bcFilterLogs (vfContract f) opts ''IntentLocked'' [intentIdRule, agentRule, tokenRule] of
           Inl err \<Rightarrow> Inl err
         | Inr feed \<Rightarrow> Inr (new_iterator ''IntentLocked'' feed))"

definition FilterIntentRefunded ::
    "'tx VynxSettlementFilterer \<Rightarrow> filter_opts \<Rightarrow> bytes list \<Rightarrow> address list \<Rightarrow>
       string + VynxSettlementIntentRefundedIterator" where
  "FilterIntentRefunded f opts intentId agent =
     (let intentIdRule = topicRule VBytes32 intentId []; agentRule = topicRule VAddress agent []
      in case bcFilterLogs (vfContract f) opts ''IntentRefunded'' [intentIdRule, agentRule] of
           Inl err \<Rightarrow> Inl err
         | Inr feed \<Rightarrow> Inr (new_iterator ''IntentRefunded'' feed))"

subsection \<open>Subscriptions\<close>

text \<open>
  The goroutine of a subscription: \<open>waPending\<close> is the event it is about to send to the sink (the inner
  \<open>select\<close>), \<open>waResult\<close> the error it has returned, after which \<open>defer\<close> has unsubscribed. The sink is the
  sequence of the events that were sent to it; \<open>waQuit\<close> tells whether \<open>quit\<close> is closed.
\<close>

record 'e watcher =
  waName :: string
  waLogs :: "eth_log gochan"
  waErr :: "string option gochan"
  waQuit :: bool
  waPending :: "'e option"
  waSink :: "'e list"
  waResult :: "string option option"
  waUnsubscribed :: bool

definition new_watcher :: "string \<Rightarrow> log_feed \<Rightarrow> 'e watcher" where
  "new_watcher name feed =
     \<lparr>waName = name, waLogs = lfLogs feed, waErr = lfErr feed, waQuit = False, waPending = None, waSink = [],
      waResult = None, waUnsubscribed = False\<rparr>"

definition watch_return :: "string option \<Rightarrow> 'e watcher \<Rightarrow> 'e watcher" where
  "watch_return err w = w\<lparr>waResult := Some err, waUnsubscribed := True\<rparr>"

text \<open>The case of the outer \<open>select\<close> that receives a log.\<close>

definition watch_log ::
    "'a raw_event_scheme unpack \<Rightarrow> 'a raw_event_scheme \<Rightarrow> eth_log \<Rightarrow> 'a raw_event_scheme watcher \<Rightarrow>
       'a raw_event_scheme watcher" where
  "watch_log unpack new log w =
     (case unpack new (waName w) log of
        (event, Some err) \<Rightarrow> watch_return (Some err) w
      | (event, None) \<Rightarrow> w\<lparr>waPending := Some (event\<lparr>evRaw := log\<rparr>)\<rparr>)"

text \<open>One round of the goroutine: whichever case of the current \<open>select\<close> is ready.\<close>

inductive watch_step ::
    "'a raw_event_scheme unpack \<Rightarrow> 'a raw_event_scheme \<Rightarrow> 'a raw_event_scheme watcher \<Rightarrow>
       'a raw_event_scheme watcher \<Rightarrow> bool" for unpack new where
  log: "waResult w = None \<Longrightarrow> waPending w = None \<Longrightarrow> recv_log (waLogs w) = Some (l, ch) \<Longrightarrow>
     watch_step unpack new w (watch_log unpack new l (w\<lparr>waLogs := ch\<rparr>))"
| sink: "waResult w = None \<Longrightarrow> waPending w = Some event \<Longrightarrow>
     watch_step unpack new w (w\<lparr>waSink := waSink w @ [event], waPending := None\<rparr>)"
| error: "waResult w = None \<Longrightarrow> recv_err (waErr w) = Some (err, ch) \<Longrightarrow>
     watch_step unpack new w (watch_return err (w\<lparr>waErr := ch\<rparr>))"
| quit: "waResult w = None \<Longrightarrow> waQuit w \<Longrightarrow> watch_step unpack new w (watch_return None w)"

definition WatchFundsClaimed ::
    "'tx VynxSettlementFilterer \<Rightarrow> watch_opts \<Rightarrow> bytes list \<Rightarrow> address list \<Rightarrow>
       string + VynxSettlementFundsClaimed watcher" where
  "WatchFundsClaimed f opts intentId solver =
     (let intentIdRule = topicRule VBytes32 intentId []; solverRule = topicRule VAddress solver []
      in case bcWatchLogs (vfContract f) opts ''FundsClaimed'' [intentIdRule, solverRule] of
           Inl err \<Rightarrow> Inl err
         | Inr feed \<Rightarrow> Inr (new_watcher ''FundsClaimed'' feed))"

definition WatchIntentLocked ::
    "'tx VynxSettlementFilterer \<Rightarrow> watch_opts \<Rightarrow> bytes list \<Rightarrow> address list \<Rightarrow> address list \<Rightarrow>
       string + VynxSettlementIntentLocked watcher" where
  "WatchIntentLocked f opts intentId agent token =
     (let intentIdRule = topicRule VBytes32 intentId []; agentRule = topicRule VAddress agent [];
          tokenRule = topicRule VAddress token []
      in case bcWatchLogs (vfContract f) opts ''IntentLocked'' [intentIdRule, agentRule, tokenRule] of
           Inl err \<Rightarrow> Inl err
         | Inr feed \<Rightarrow> Inr (new_watcher ''IntentLocked'' feed))"

definition WatchIntentRefunded ::
    "'tx VynxSettlementFilterer \<Rightarrow> watch_opts \<Rightarrow> bytes list \<Rightarrow> address list \<Rightarrow>
       string + VynxSettlementIntentRefunded watcher" where
  "WatchIntentRefunded f opts intentId agent =
     (let intentIdRule = topicRule VBytes32 intentId []; agentRule = topicRule VAddress agent []
      in case bcWatchLogs (vfContract f) opts ''IntentRefunded'' [intentIdRule, agentRule] of
           Inl err \<Rightarrow> Inl err
         | Inr feed \<Rightarrow> Inr (new_watcher ''IntentRefunded'' feed))"

subsection \<open>Parsed events keep their log\<close>

locale event_parser =
  fixes parse :: "eth_log \<Rightarrow> string + 'a raw_event_scheme"
  assumes raw: "parse l = Inr e \<Longrightarrow> evRaw e = l"
begin

lemma raw_parses: "parse l = Inr e \<Longrightarrow> parse (evRaw e) = Inr e"
  using raw by simp

lemma same_log: "parse l = Inr e \<Longrightarrow> parse l' = Inr e \<Longrightarrow> l = l'"
  using raw by blast

lemma parse_all: "list_all2 (\<lambda>l e. parse l = Inr e) ls es \<longleftrightarrow> ls = map evRaw es \<and> (\<forall>e \<in> set es. parse (evRaw e) = Inr e)"
proof (induction es arbitrary: ls)
  case (Cons e es)
  then show ?case by (auto simp: list_all2_Cons2 dest: raw)
qed simp

end

interpretation parsed: event_parser "parse_event unpack new name" for unpack new name
  by unfold_locales (auto simp: parse_event_def split: prod.splits option.splits)

interpretation fundsClaimed: event_parser "ParseFundsClaimed unpack" for unpack
  unfolding ParseFundsClaimed_def by (rule parsed.event_parser_axioms)

interpretation intentLocked: event_parser "ParseIntentLocked unpack" for unpack
  unfolding ParseIntentLocked_def by (rule parsed.event_parser_axioms)

interpretation intentRefunded: event_parser "ParseIntentRefunded unpack" for unpack
  unfolding ParseIntentRefunded_def by (rule parsed.event_parser_axioms)

lemma topicRule_map [simp]: "topicRule box items rule = rule @ map box items"
  by (induction items arbitrary: rule) simp_all

subsection \<open>One call of \<open>Next\<close>\<close>

text \<open>The four ways a call can return, on an open channel of logs.\<close>

inductive next_outcome ::
    "(eth_log \<Rightarrow> string + 'e) \<Rightarrow> 'e event_iterator \<Rightarrow> bool \<Rightarrow> 'e event_iterator \<Rightarrow> bool" for parse it where
  event: "itFail it = None \<Longrightarrow> chBuf (itLogs it) = l # rest \<Longrightarrow> parse l = Inr e \<Longrightarrow>
     itLogs it' = (itLogs it)\<lparr>chBuf := rest\<rparr> \<Longrightarrow> itEvent it' = Some e \<Longrightarrow> itFail it' = None \<Longrightarrow>
     next_outcome parse it True it'"
| bad_log: "itFail it = None \<Longrightarrow> chBuf (itLogs it) = l # rest \<Longrightarrow> parse l = Inl err \<Longrightarrow>
     itLogs it' = (itLogs it)\<lparr>chBuf := rest\<rparr> \<Longrightarrow> itFail it' = Some err \<Longrightarrow> next_outcome parse it False it'"
| failed: "itLogs it' = itLogs it \<Longrightarrow> itFail it' = Some err \<Longrightarrow> next_outcome parse it False it'"
| exhausted: "itLogs it' = itLogs it \<Longrightarrow> itFail it' = None \<Longrightarrow> itDone it' \<Longrightarrow> chBuf (itLogs it) = [] \<Longrightarrow>
     next_outcome parse it False it'"

lemma recv_log_open:
  "\<not> chClosed ch \<Longrightarrow> recv_log ch = (case chBuf ch of [] \<Rightarrow> None | l # rest \<Rightarrow> Some (l, ch\<lparr>chBuf := rest\<rparr>))"
  by (simp add: recv_log_def chan_recv_def split: list.split)

lemma recv_err_None: "recv_err ch = None \<longleftrightarrow> chBuf ch = [] \<and> \<not> chClosed ch"
  by (simp add: recv_err_def chan_recv_def split: list.split)

lemma recv_err_closed: "recv_err ch = Some (err, ch') \<Longrightarrow> chClosed ch' = chClosed ch"
  by (auto simp: recv_err_def chan_recv_def split: list.splits if_splits)

lemma take_log_outcome:
  assumes "take_log unpack new l (it\<lparr>itLogs := (itLogs it)\<lparr>chBuf := rest\<rparr>\<rparr>) = (b, it')"
    and "itFail it = None" and "chBuf (itLogs it) = l # rest"
  shows "next_outcome (parse_event unpack new (itName it)) it b it'"
  using assms
  by (auto simp: take_log_def parse_event_def split: prod.splits option.splits
      intro!: next_outcome.event next_outcome.bad_log)

lemma take_log_frame:
  "take_log unpack new l it = (b, it') \<Longrightarrow> itName it' = itName it \<and> itSub it' = itSub it \<and> itDone it' = itDone it"
  by (auto simp: take_log_def split: prod.splits option.splits)

lemma next_outcome_same:
  assumes "next_outcome parse it2 b it'" and "itLogs it2 = itLogs it" and "itFail it = None"
  shows "next_outcome parse it b it'"
  using assms by (auto elim!: next_outcome.cases intro: next_outcome.intros)

lemma iter_Next_stopped:
  assumes "itDone it \<or> itFail it \<noteq> None" and "\<not> chClosed (itLogs it)"
  obtains b it' where "iter_Next unpack new errFirst it = Some (b, it')"
    and "next_outcome (parse_event unpack new (itName it)) it b it'"
    and "itName it' = itName it" and "itSub it' = itSub it" and "itDone it' = itDone it"
proof (cases "itFail it")
  case (Some err)
  then have "iter_Next unpack new errFirst it = Some (False, it)" by (simp add: iter_Next.simps)
  with that [of False it] Some show thesis by (simp add: next_outcome.failed)
next
  case None
  with assms(1) have fin: "itDone it" by simp
  show thesis
  proof (cases "chBuf (itLogs it)")
    case Nil
    with None fin assms(2) have "iter_Next unpack new errFirst it = Some (False, it)"
      by (simp add: iter_Next.simps recv_log_open)
    with that [of False it] None Nil fin show thesis by (simp add: next_outcome.exhausted)
  next
    case (Cons l rest)
    obtain b it' where t: "take_log unpack new l (it\<lparr>itLogs := (itLogs it)\<lparr>chBuf := rest\<rparr>\<rparr>) = (b, it')" by fastforce
    with None fin assms(2) Cons have "iter_Next unpack new errFirst it = Some (b, it')"
      by (simp add: iter_Next.simps recv_log_open)
    from that [OF this take_log_outcome [OF t None Cons]] take_log_frame [OF t] show thesis by simp
  qed
qed

lemma iter_Next_end:
  fixes ch :: "string option gochan"
  assumes "itFail it = None" and "\<not> chClosed (itLogs it)"
  obtains b it' where "iter_Next unpack new errFirst (it\<lparr>itSub := ch, itDone := True, itFail := err\<rparr>) = Some (b, it')"
    and "next_outcome (parse_event unpack new (itName it)) it b it'" and "itName it' = itName it" and "itSub it' = ch"
proof -
  let ?it = "it\<lparr>itSub := ch, itDone := True, itFail := err\<rparr>"
  obtain b it' where n: "iter_Next unpack new errFirst ?it = Some (b, it')"
      "next_outcome (parse_event unpack new (itName ?it)) ?it b it'" "itName it' = itName ?it" "itSub it' = itSub ?it"
    by (rule iter_Next_stopped [of ?it unpack new errFirst]) (use assms in simp_all)
  from next_outcome_same [OF n(2), of it] assms that [OF n(1)] n(3,4) show thesis by simp
qed

lemma iter_Next_outcome:
  assumes "iter_Next unpack new errFirst it = Some (b, it')" and opened: "\<not> chClosed (itLogs it)"
  shows "next_outcome (parse_event unpack new (itName it)) it b it'" "itName it' = itName it"
    "chClosed (itSub it') = chClosed (itSub it)"
    "recv_err (itSub it) = None \<Longrightarrow> itSub it' = itSub it \<and> itDone it' = itDone it"
proof -
  have "next_outcome (parse_event unpack new (itName it)) it b it' \<and> itName it' = itName it \<and>
    chClosed (itSub it') = chClosed (itSub it) \<and> (recv_err (itSub it) = None \<longrightarrow> itSub it' = itSub it \<and> itDone it' = itDone it)"
  proof (cases "itDone it \<or> itFail it \<noteq> None")
    case True
    from iter_Next_stopped [OF this opened, of unpack new errFirst] assms(1) show ?thesis by (metis option.inject prod.inject)
  next
    case False
    then have run: "\<not> itDone it" "itFail it = None" by simp_all
    have err: ?thesis if "recv_err (itSub it) = Some (err, ch)"
        "iter_Next unpack new errFirst (it\<lparr>itSub := ch, itDone := True, itFail := err\<rparr>) = Some (b, it')" for err ch
      using iter_Next_end [OF run(2) opened, of unpack new errFirst err ch] that recv_err_closed [OF that(1)] by (metis option.distinct(1) option.inject prod.inject)
    have log: ?thesis if "chBuf (itLogs it) = l # rest"
        "take_log unpack new l (it\<lparr>itLogs := (itLogs it)\<lparr>chBuf := rest\<rparr>\<rparr>) = (b, it')" for l rest
      using take_log_outcome [OF that(2) run(2) that(1)] take_log_frame [OF that(2)] by simp
    from assms(1) run opened
    have "(\<exists>err ch. recv_err (itSub it) = Some (err, ch) \<and>
          iter_Next unpack new errFirst (it\<lparr>itSub := ch, itDone := True, itFail := err\<rparr>) = Some (b, it')) \<or>
        (\<exists>l rest. chBuf (itLogs it) = l # rest \<and>
          take_log unpack new l (it\<lparr>itLogs := (itLogs it)\<lparr>chBuf := rest\<rparr>\<rparr>) = (b, it'))"
      by (subst (asm) iter_Next.simps) (auto simp: recv_log_open split: list.splits option.splits if_splits)
    then show ?thesis by (elim disjE exE conjE) (rule err log; assumption)+
  qed
  then show "next_outcome (parse_event unpack new (itName it)) it b it'" "itName it' = itName it"
    "chClosed (itSub it') = chClosed (itSub it)"
    "recv_err (itSub it) = None \<Longrightarrow> itSub it' = itSub it \<and> itDone it' = itDone it" by simp_all
qed

lemma iter_Next_returns:
  assumes "recv_err (itSub it) \<noteq> None \<or> chBuf (itLogs it) \<noteq> [] \<or> itDone it \<or> itFail it \<noteq> None"
    and opened: "\<not> chClosed (itLogs it)"
  shows "iter_Next unpack new errFirst it \<noteq> None"
proof (cases "itDone it \<or> itFail it \<noteq> None")
  case True
  from iter_Next_stopped [OF this opened, of unpack new errFirst] show ?thesis by (metis option.distinct(1))
next
  case False
  then have run: "\<not> itDone it" "itFail it = None" by simp_all
  have "iter_Next unpack new errFirst (it\<lparr>itSub := ch, itDone := True, itFail := err\<rparr>) \<noteq> None" for ch err
    using iter_Next_end [OF run(2) opened, of unpack new errFirst err ch] by (metis option.distinct(1))
  with run assms show ?thesis
    by (subst iter_Next.simps) (auto simp: recv_log_open split: list.split option.split)
qed

subsection \<open>An iterator and its feed\<close>

text \<open>
  The library sends logs and then ends the feed, with an error or without one; this is what the
  subscription documents: one error at most, then the error channel is closed, and no log afterwards. The
  calls of \<open>Next\<close> come in between. Recorded are the logs sent, the events the caller got and the logs that
  a failed call has consumed.
\<close>

definition feed_fresh :: "log_feed \<Rightarrow> bool" where
  "feed_fresh feed \<longleftrightarrow> chBuf (lfLogs feed) = [] \<and> \<not> chClosed (lfLogs feed) \<and> chBuf (lfErr feed) = [] \<and> \<not> chClosed (lfErr feed)"

definition end_feed :: "string option \<Rightarrow> string option gochan \<Rightarrow> string option gochan" where
  "end_feed err ch = ch\<lparr>chBuf := chBuf ch @ (case err of None \<Rightarrow> [] | Some e \<Rightarrow> [Some e]), chClosed := True\<rparr>"

record 'e iter_sys =
  ysIt :: "'e event_iterator"
  ysSent :: "eth_log list"
  ysFinished :: bool
  ysGot :: "'e list"
  ysRejected :: "eth_log list"

definition consumed :: "'e event_iterator \<Rightarrow> 'e event_iterator \<Rightarrow> eth_log list" where
  "consumed it it' = take (length (chBuf (itLogs it)) - length (chBuf (itLogs it'))) (chBuf (itLogs it))"

inductive iter_reach ::
    "'a raw_event_scheme unpack \<Rightarrow> 'a raw_event_scheme \<Rightarrow> 'a raw_event_scheme event_iterator \<Rightarrow>
       'a raw_event_scheme iter_sys \<Rightarrow> bool" for unpack new it0 where
  init: "iter_reach unpack new it0 \<lparr>ysIt = it0, ysSent = [], ysFinished = False, ysGot = [], ysRejected = []\<rparr>"
| send: "iter_reach unpack new it0 s \<Longrightarrow> \<not> ysFinished s \<Longrightarrow> try_send l (itLogs (ysIt s)) = Inr (True, ch) \<Longrightarrow>
     iter_reach unpack new it0 (s\<lparr>ysIt := (ysIt s)\<lparr>itLogs := ch\<rparr>, ysSent := ysSent s @ [l]\<rparr>)"
| finish: "iter_reach unpack new it0 s \<Longrightarrow> \<not> ysFinished s \<Longrightarrow>
     iter_reach unpack new it0 (s\<lparr>ysIt := (ysIt s)\<lparr>itSub := end_feed err (itSub (ysIt s))\<rparr>, ysFinished := True\<rparr>)"
| event: "iter_reach unpack new it0 s \<Longrightarrow> iter_Next unpack new errFirst (ysIt s) = Some (True, it') \<Longrightarrow>
     itEvent it' = Some e \<Longrightarrow> iter_reach unpack new it0 (s\<lparr>ysIt := it', ysGot := ysGot s @ [e]\<rparr>)"
| stop: "iter_reach unpack new it0 s \<Longrightarrow> iter_Next unpack new errFirst (ysIt s) = Some (False, it') \<Longrightarrow>
     iter_reach unpack new it0 (s\<lparr>ysIt := it', ysRejected := ysRejected s @ consumed (ysIt s) it'\<rparr>)"

definition iter_ok :: "(eth_log \<Rightarrow> string + 'a raw_event_scheme) \<Rightarrow> string \<Rightarrow> 'a raw_event_scheme iter_sys \<Rightarrow> bool" where
  "iter_ok parse name s \<longleftrightarrow>
     itName (ysIt s) = name \<and> \<not> chClosed (itLogs (ysIt s)) \<and>
     ysSent s = map evRaw (ysGot s) @ ysRejected s @ chBuf (itLogs (ysIt s)) \<and>
     (ysRejected s \<noteq> [] \<longrightarrow> itFail (ysIt s) \<noteq> None) \<and>
     (\<forall>e \<in> set (ysGot s). parse (evRaw e) = Inr e) \<and>
     (\<not> ysFinished s \<longrightarrow> recv_err (itSub (ysIt s)) = None \<and> \<not> itDone (ysIt s)) \<and>
     (ysFinished s \<longrightarrow> chClosed (itSub (ysIt s)))"

lemma iter_reach_ok:
  assumes "iter_reach unpack new (new_iterator name feed) s" and "feed_fresh feed"
  shows "iter_ok (parse_event unpack new name) name s"
  using assms(1)
proof induction
  case init
  with assms(2) show ?case by (simp add: iter_ok_def new_iterator_def feed_fresh_def recv_err_None)
next
  case (send s l ch)
  then show ?case by (auto simp: iter_ok_def try_send_def split: if_splits)
next
  case (finish s err)
  then show ?case by (simp add: iter_ok_def end_feed_def)
next
  case (event s errFirst it' e)
  from event.IH have opened: "\<not> chClosed (itLogs (ysIt s))" and name: "itName (ysIt s) = name" by (simp_all add: iter_ok_def)
  note out = iter_Next_outcome [OF event.hyps(2) opened, unfolded name]
  from out(1) obtain l rest where l: "chBuf (itLogs (ysIt s)) = l # rest" "parse_event unpack new name l = Inr e"
      "itLogs it' = (itLogs (ysIt s))\<lparr>chBuf := rest\<rparr>" "itFail it' = None" "itFail (ysIt s) = None"
    by cases (use event.hyps(3) in auto)
  with event.IH out(2-4) parsed.raw [OF l(2)] show ?case by (auto simp: iter_ok_def)
next
  case (stop s errFirst it')
  from stop.IH have opened: "\<not> chClosed (itLogs (ysIt s))" and name: "itName (ysIt s) = name" by (simp_all add: iter_ok_def)
  note out = iter_Next_outcome [OF stop.hyps(2) opened, unfolded name]
  from out(1) have "chBuf (itLogs (ysIt s)) = consumed (ysIt s) it' @ chBuf (itLogs it')"
      "chClosed (itLogs it') = chClosed (itLogs (ysIt s))" "consumed (ysIt s) it' \<noteq> [] \<longrightarrow> itFail it' \<noteq> None"
    by (cases; simp add: consumed_def)+
  moreover have "itFail (ysIt s) \<noteq> None \<longrightarrow> itFail it' \<noteq> None"
    using stop.hyps(2) by (auto simp: iter_Next.simps)
  ultimately show ?case using stop.IH out(2-4) by (auto simp: iter_ok_def)
qed

text \<open>
  C16. An iteration that ends without an error is complete: whatever the interleaving of the feed with the
  calls of \<open>Next\<close>, the events the caller got are, in order, what the parser makes of the first logs that were
  sent; and when \<open>Next\<close> returns false while \<open>Error\<close> is nil, the feed has ended and every log that was sent has
  been delivered, once.
\<close>

theorem iteration_complete:
  assumes "iter_reach unpack new (new_iterator name feed) s" and "feed_fresh feed"
  shows "prefix (map evRaw (ysGot s)) (ysSent s) \<and>
    (\<forall>e \<in> set (ysGot s). parse_event unpack new name (evRaw e) = Inr e) \<and>
    (\<forall>errFirst it'. iter_Next unpack new errFirst (ysIt s) = Some (False, it') \<and> iter_Error it' = None \<longrightarrow>
       ysFinished s \<and> list_all2 (\<lambda>l e. parse_event unpack new name l = Inr e) (ysSent s) (ysGot s))"
proof (intro conjI allI impI)
  note ok = iter_reach_ok [OF assms]
  then show "prefix (map evRaw (ysGot s)) (ysSent s)"
    and parse: "\<forall>e \<in> set (ysGot s). parse_event unpack new name (evRaw e) = Inr e"
    by (auto simp: iter_ok_def prefix_def)
  fix errFirst it'
  assume call: "iter_Next unpack new errFirst (ysIt s) = Some (False, it') \<and> iter_Error it' = None"
  from ok have opened: "\<not> chClosed (itLogs (ysIt s))" by (simp add: iter_ok_def)
  note out = iter_Next_outcome [OF conjunct1 [OF call] opened]
  from out(1) have end_state: "itDone it'" "chBuf (itLogs (ysIt s)) = []"
    by (cases; use call in \<open>simp add: iter_Error_def\<close>)+
  with ok out(4) show "ysFinished s" by (auto simp: iter_ok_def)
  have "itFail (ysIt s) = None"
    using call by (cases "itFail (ysIt s)") (auto simp: iter_Next.simps iter_Error_def)
  with ok end_state have "ysSent s = map evRaw (ysGot s)" by (auto simp: iter_ok_def)
  with parse show "list_all2 (\<lambda>l e. parse_event unpack new name l = Inr e) (ysSent s) (ysGot s)"
    unfolding parsed.parse_all by blast
qed

text \<open>
  C22. A loop \<open>for it.Next()\<close> ends: once the feed has ended, no call of \<open>Next\<close> waits, a call that returns true
  has consumed a log, of which no more come, and a call that returns false leaves an iterator on which
  every later call returns false at once.
\<close>

theorem iteration_terminates:
  assumes "iter_reach unpack new (new_iterator name feed) s" and "feed_fresh feed" and "ysFinished s"
  shows "\<exists>b it'. iter_Next unpack new errFirst (ysIt s) = Some (b, it') \<and>
    (b \<longrightarrow> length (chBuf (itLogs (ysIt s))) = Suc (length (chBuf (itLogs it')))) \<and>
    (\<not> b \<longrightarrow> (\<forall>errFirst'. iter_Next unpack new errFirst' it' = Some (False, it')))"
proof -
  from iter_reach_ok [OF assms(1,2)] assms(3)
  have opened: "\<not> chClosed (itLogs (ysIt s))" and "recv_err (itSub (ysIt s)) \<noteq> None"
    by (simp_all add: iter_ok_def recv_err_None)
  then obtain b it' where call: "iter_Next unpack new errFirst (ysIt s) = Some (b, it')"
    using iter_Next_returns [of "ysIt s" unpack new errFirst] by fastforce
  from iter_Next_outcome(1) [OF call opened] show ?thesis
  proof cases
    case event
    with call show ?thesis by auto
  next
    case bad_log
    with call show ?thesis by (auto simp: iter_Next.simps [of _ _ _ it'])
  next
    case failed
    with call show ?thesis by (auto simp: iter_Next.simps [of _ _ _ it'])
  next
    case exhausted
    with call opened show ?thesis by (auto simp: iter_Next.simps [of _ _ _ it'] recv_log_open)
  qed
qed

subsection \<open>A subscription and its feed\<close>

inductive watch_reach ::
    "'a raw_event_scheme unpack \<Rightarrow> 'a raw_event_scheme \<Rightarrow> 'a raw_event_scheme watcher \<Rightarrow> eth_log list \<Rightarrow>
       'a raw_event_scheme watcher \<Rightarrow> bool" for unpack new w0 where
  init: "watch_reach unpack new w0 [] w0"
| run: "watch_reach unpack new w0 sent w \<Longrightarrow> watch_step unpack new w w' \<Longrightarrow> watch_reach unpack new w0 sent w'"
| send: "watch_reach unpack new w0 sent w \<Longrightarrow> try_send l (waLogs w) = Inr (True, ch) \<Longrightarrow>
     watch_reach unpack new w0 (sent @ [l]) (w\<lparr>waLogs := ch\<rparr>)"
| finish: "watch_reach unpack new w0 sent w \<Longrightarrow> watch_reach unpack new w0 sent (w\<lparr>waErr := end_feed err (waErr w)\<rparr>)"
| unsubscribe: "watch_reach unpack new w0 sent w \<Longrightarrow> watch_reach unpack new w0 sent (w\<lparr>waQuit := True\<rparr>)"

definition pending_events :: "'e watcher \<Rightarrow> 'e list" where
  "pending_events w = (case waPending w of None \<Rightarrow> [] | Some e \<Rightarrow> [e])"

definition watch_ok ::
    "(eth_log \<Rightarrow> string + 'a raw_event_scheme) \<Rightarrow> string \<Rightarrow> eth_log list \<Rightarrow> 'a raw_event_scheme watcher \<Rightarrow> bool" where
  "watch_ok parse name sent w \<longleftrightarrow>
     waName w = name \<and> \<not> chClosed (waLogs w) \<and> (waUnsubscribed w \<longleftrightarrow> waResult w \<noteq> None) \<and>
     (\<forall>e \<in> set (waSink w @ pending_events w). parse (evRaw e) = Inr e) \<and>
     (sent = map evRaw (waSink w @ pending_events w) @ chBuf (waLogs w) \<or>
      (\<exists>l err. waResult w = Some (Some err) \<and> waPending w = None \<and> parse l = Inl err \<and>
         sent = map evRaw (waSink w) @ l # chBuf (waLogs w)))"

lemma watch_step_ok:
  assumes "watch_step unpack new w w'" and "watch_ok (parse_event unpack new name) name sent w"
  shows "watch_ok (parse_event unpack new name) name sent w'"
  using assms(1)
proof cases
  case (log l ch)
  from assms(2) log(4) have l: "chBuf (waLogs w) = l # chBuf ch" "\<not> chClosed ch"
    by (auto simp: watch_ok_def recv_log_open split: list.splits)
  show ?thesis
  proof (cases "parse_event unpack new name l")
    case (Inl err)
    with assms(2) log l show ?thesis
      by (auto simp: watch_ok_def watch_log_def watch_return_def pending_events_def parse_event_def
          split: prod.splits option.splits)
  next
    case (Inr e)
    with parsed.raw [OF Inr] assms(2) log l show ?thesis
      by (auto simp: watch_ok_def watch_log_def watch_return_def pending_events_def parse_event_def
          split: prod.splits option.splits)
  qed
qed (use assms(2) in \<open>auto simp: watch_ok_def watch_return_def pending_events_def\<close>)

lemma watch_reach_ok:
  assumes "watch_reach unpack new (new_watcher name feed) sent w" and "feed_fresh feed"
  shows "watch_ok (parse_event unpack new name) name sent w"
  using assms(1)
proof induction
  case init
  with assms(2) show ?case by (simp add: watch_ok_def new_watcher_def feed_fresh_def pending_events_def)
next
  case (run sent w w')
  then show ?case by (blast intro: watch_step_ok)
next
  case (send sent w l ch)
  then show ?case by (auto simp: watch_ok_def try_send_def pending_events_def split: if_splits)
qed (simp_all add: watch_ok_def pending_events_def)

text \<open>
  C23. A subscription forwards in order: at any moment the events sent to the sink are what the parser makes
  of the first logs, one each; behind them comes at most one log that is not in the channel, the one whose
  event waits to be sent or, after the goroutine has returned, the one it gave up or could not parse. It
  has unsubscribed exactly when it has returned, and then it takes no further step.
\<close>

theorem watch_in_order:
  assumes "watch_reach unpack new (new_watcher name feed) sent w" and "feed_fresh feed"
  shows "(\<exists>held. sent = map evRaw (waSink w) @ held @ chBuf (waLogs w) \<and> length held \<le> 1 \<and>
      (waResult w = None \<longrightarrow> held = map evRaw (pending_events w))) \<and>
    (\<forall>e \<in> set (waSink w). parse_event unpack new name (evRaw e) = Inr e) \<and>
    (waUnsubscribed w \<longleftrightarrow> waResult w \<noteq> None) \<and>
    (waUnsubscribed w \<longrightarrow> (\<forall>w'. \<not> watch_step unpack new w w'))"
proof -
  note ok = watch_reach_ok [OF assms]
  have "length (pending_events w) \<le> 1" by (simp add: pending_events_def split: option.split)
  with ok have "\<exists>held. sent = map evRaw (waSink w) @ held @ chBuf (waLogs w) \<and> length held \<le> 1 \<and>
      (waResult w = None \<longrightarrow> held = map evRaw (pending_events w))"
    by (fastforce simp: watch_ok_def)
  moreover from ok have "waUnsubscribed w \<longleftrightarrow> waResult w \<noteq> None" by (simp add: watch_ok_def)
  moreover from this have "\<not> watch_step unpack new w w'" if "waUnsubscribed w" for w'
    using that by (auto elim: watch_step.cases)
  ultimately show ?thesis using ok by (simp add: watch_ok_def)
qed

subsection \<open>Queries and the ABI\<close>

lemma find_event_simps [simp]:
  "map_option indexed_types (find_event VynxSettlementABI ''FundsClaimed'') = Some [Bytes32, Address]"
  "map_option indexed_types (find_event VynxSettlementABI ''IntentLocked'') = Some [Bytes32, Address, Address]"
  "map_option indexed_types (find_event VynxSettlementABI ''IntentRefunded'') = Some [Bytes32, Address]"
  by (simp_all add: find_event_def VynxSettlementABI_def indexed_types_def)

lemma query_accepted_indexed:
  assumes "map_option indexed_types (find_event abi event) = Some Ts"
  shows "query_accepted abi event rules \<longleftrightarrow>
    length rules \<le> length Ts \<and> list_all (\<lambda>(T, rule). list_all (value_fits T) rule) (zip Ts rules)"
  using assms by (auto simp: query_accepted_def)

lemma queries_respect_abi:
  assumes "\<forall>i \<in> set ids. length i = 32"
  shows "let f = vsFilterer (settlement_on c); f' = vsFilterer (settlement_on (abi_checked VynxSettlementABI c)) in
    FilterFundsClaimed f' fo ids as = FilterFundsClaimed f fo ids as \<and>
    FilterIntentLocked f' fo ids as ts = FilterIntentLocked f fo ids as ts \<and>
    FilterIntentRefunded f' fo ids as = FilterIntentRefunded f fo ids as \<and>
    WatchFundsClaimed f' wo ids as = WatchFundsClaimed f wo ids as \<and>
    WatchIntentLocked f' wo ids as ts = WatchIntentLocked f wo ids as ts \<and>
    WatchIntentRefunded f' wo ids as = WatchIntentRefunded f wo ids as"
proof -
  have rules: "list_all (value_fits Bytes32) (map VBytes32 ids)" "list_all (value_fits Address) (map VAddress xs)" for xs
    using assms by (simp_all add: list_all_iff)
  note accepted = query_accepted_indexed [OF find_event_simps(1)] query_accepted_indexed [OF find_event_simps(2)]
    query_accepted_indexed [OF find_event_simps(3)]
  show ?thesis
    by (simp add: FilterFundsClaimed_def FilterIntentLocked_def FilterIntentRefunded_def WatchFundsClaimed_def
        WatchIntentLocked_def WatchIntentRefunded_def settlement_on_def abi_checked_def accepted rules Let_def
        del: value_fits_iff)
qed

text \<open>
  C13. The binding and the ABI agree. A contract that rejects every unknown method and event, every argument
  and every rule of a query that is not of the declared type, every transaction to a view method and
  every read of another one, answers all operations of the binding as the contract without these checks
  does: the calls and transactions, the filters and the subscriptions.
\<close>

theorem bindings_respect_abi:
  assumes "length intentId = 32" and "\<forall>i \<in> set ids. length i = 32"
  shows "let st = settlement_on c; st' = settlement_on (abi_checked VynxSettlementABI c);
      s = \<lparr>seContract = st, seCallOpts = co, seTransactOpts = topts\<rparr>;
      s' = \<lparr>seContract = st', seCallOpts = co, seTransactOpts = topts\<rparr>;
      f = vsFilterer st; f' = vsFilterer st'
    in Session_REFUNDTIMEOUT ct s' = Session_REFUNDTIMEOUT ct s \<and>
       Session_Escrows ct s' intentId = Session_Escrows ct s intentId \<and>
       Session_RelayerSigner ct s' = Session_RelayerSigner ct s \<and>
       Session_ClaimFunds s' intentId solver sig = Session_ClaimFunds s intentId solver sig \<and>
       Session_LockIntent s' intentId token amount = Session_LockIntent s intentId token amount \<and>
       Session_RefundIntent s' intentId = Session_RefundIntent s intentId \<and>
       FilterFundsClaimed f' fo ids as = FilterFundsClaimed f fo ids as \<and>
       FilterIntentLocked f' fo ids as ts = FilterIntentLocked f fo ids as ts \<and>
       FilterIntentRefunded f' fo ids as = FilterIntentRefunded f fo ids as \<and>
       WatchFundsClaimed f' wo ids as = WatchFundsClaimed f wo ids as \<and>
       WatchIntentLocked f' wo ids as ts = WatchIntentLocked f wo ids as ts \<and>
       WatchIntentRefunded f' wo ids as = WatchIntentRefunded f wo ids as"
  using calls_respect_abi [OF assms(1), of c co topts ct solver sig token amount]
    queries_respect_abi [OF assms(2), of c fo as ts wo]
  unfolding Let_def by blast

subsection \<open>Runs\<close>

definition sample_log :: eth_log where
  "sample_log = zero_log\<lparr>lgData := [1, 2, 3]\<rparr>"

definition sample_unpack :: "VynxSettlementFundsClaimed unpack" where
  "sample_unpack event name log =
     (event\<lparr>fcAmount := Some (int (length (lgData log)))\<rparr>, if lgRemoved log then Some ''removed'' else None)"

definition sample_feed :: log_feed where
  "sample_feed = \<lparr>lfLogs = make_chan 128, lfErr = make_chan 1\<rparr>"

definition sample_event :: VynxSettlementFundsClaimed where
  "sample_event = newFundsClaimed\<lparr>fcAmount := Some 3, evRaw := sample_log\<rparr>"

lemma sample_feed_fresh: "feed_fresh sample_feed"
  by (simp add: feed_fresh_def sample_feed_def)

lemma sample_take: "take_log sample_unpack newFundsClaimed sample_log it = (True, it\<lparr>itEvent := Some sample_event\<rparr>)"
  by (simp add: take_log_def sample_unpack_def sample_log_def sample_event_def zero_log_def)

text \<open>One log, the end of the feed, and a call of \<open>Next\<close> that takes the error channel first.\<close>

definition sample_iteration :: "VynxSettlementFundsClaimed list \<Rightarrow> VynxSettlementFundsClaimed iter_sys" where
  "sample_iteration got =
     \<lparr>ysIt = \<lparr>itEvent = (case got of [] \<Rightarrow> None | e # _ \<Rightarrow> Some e), itName = ''FundsClaimed'',
        itLogs = (make_chan 128)\<lparr>chBuf := if got = [] then [sample_log] else []\<rparr>,
        itSub = (make_chan 1)\<lparr>chClosed := True\<rparr>, itDone = (got \<noteq> []), itFail = None\<rparr>,
      ysSent = [sample_log], ysFinished = True, ysGot = got, ysRejected = []\<rparr>"

lemma sample_Next:
  "iter_Next sample_unpack newFundsClaimed True (ysIt (sample_iteration [])) = Some (True, ysIt (sample_iteration [sample_event]))"
  "iter_Next sample_unpack newFundsClaimed errFirst (ysIt (sample_iteration [sample_event])) =
     Some (False, ysIt (sample_iteration [sample_event]))"
  by (simp_all add: sample_iteration_def iter_Next.simps recv_log_open recv_err_def chan_recv_def sample_take make_chan_def)

lemma sample_iteration_reached:
  "iter_reach sample_unpack newFundsClaimed (new_iterator ''FundsClaimed'' sample_feed) (sample_iteration [])"
  "iter_reach sample_unpack newFundsClaimed (new_iterator ''FundsClaimed'' sample_feed) (sample_iteration [sample_event])"
proof -
  let ?it = "new_iterator ''FundsClaimed'' sample_feed :: VynxSettlementFundsClaimed event_iterator"
  let ?reach = "iter_reach sample_unpack newFundsClaimed ?it"
  let ?s = "\<lparr>ysIt = ?it, ysSent = [], ysFinished = False, ysGot = [], ysRejected = []\<rparr>"
  have "?reach ?s" by (rule iter_reach.init)
  then have "?reach (?s\<lparr>ysIt := ?it\<lparr>itLogs := (make_chan 128)\<lparr>chBuf := [sample_log]\<rparr>\<rparr>, ysSent := [sample_log]\<rparr>)"
    by (rule iter_reach.send [where l = sample_log, THEN subst [where P = ?reach, rotated]])
      (simp_all add: new_iterator_def sample_feed_def try_send_def)
  then have "?reach (sample_iteration [])"
    by (rule iter_reach.finish [where err = None, THEN subst [where P = ?reach, rotated]])
      (simp_all add: new_iterator_def sample_feed_def sample_iteration_def end_feed_def make_chan_def)
  then show "?reach (sample_iteration [])" .
  from iter_reach.event [OF this sample_Next(1)] show "?reach (sample_iteration [sample_event])"
    by (simp add: sample_iteration_def)
qed

theorem iteration_complete_witness:
  "feed_fresh sample_feed \<and> ysFinished (sample_iteration [sample_event]) \<and>
   list_all2 (\<lambda>l e. parse_event sample_unpack newFundsClaimed ''FundsClaimed'' l = Inr e) [sample_log] [sample_event]"
proof -
  note run = iteration_complete [OF sample_iteration_reached(2) sample_feed_fresh]
  have "iter_Error (ysIt (sample_iteration [sample_event])) = None" by (simp add: sample_iteration_def iter_Error_def)
  with run sample_Next(2) [of True]
  have "ysFinished (sample_iteration [sample_event])"
    "list_all2 (\<lambda>l e. parse_event sample_unpack newFundsClaimed ''FundsClaimed'' l = Inr e)
      (ysSent (sample_iteration [sample_event])) (ysGot (sample_iteration [sample_event]))" by blast+
  with sample_feed_fresh show ?thesis by (simp add: sample_iteration_def)
qed

theorem iteration_terminates_witness:
  "ysFinished (sample_iteration []) \<and>
   (\<exists>b it'. iter_Next sample_unpack newFundsClaimed True (ysIt (sample_iteration [])) = Some (b, it') \<and> b)"
proof -
  have fin: "ysFinished (sample_iteration [])" by (simp add: sample_iteration_def)
  from iteration_terminates [OF sample_iteration_reached(1) sample_feed_fresh fin, of True] fin sample_Next(1)
  show ?thesis by auto
qed

lemma sample_watch:
  "watch_reach sample_unpack newFundsClaimed (new_watcher ''FundsClaimed'' sample_feed) [sample_log]
     (watch_return None ((new_watcher ''FundsClaimed'' sample_feed)\<lparr>waQuit := True, waSink := [sample_event]\<rparr>))"
proof -
  let ?w = "new_watcher ''FundsClaimed'' sample_feed :: VynxSettlementFundsClaimed watcher"
  let ?reach = "watch_reach sample_unpack newFundsClaimed ?w [sample_log]"
  have "try_send sample_log (waLogs ?w) = Inr (True, (make_chan 128)\<lparr>chBuf := [sample_log]\<rparr>)"
    by (simp add: new_watcher_def sample_feed_def try_send_def)
  from watch_reach.send [OF watch_reach.init this]
  have "?reach (?w\<lparr>waLogs := (make_chan 128)\<lparr>chBuf := [sample_log]\<rparr>\<rparr>)" by simp
  from watch_reach.run [OF this watch_step.log [where l = sample_log and ch = "make_chan 128"]]
  have "?reach (?w\<lparr>waPending := Some sample_event\<rparr>)"
    by (simp add: new_watcher_def recv_log_def chan_recv_def watch_log_def sample_unpack_def sample_event_def
        sample_log_def zero_log_def sample_feed_def make_chan_def)
  from watch_reach.run [OF this watch_step.sink [where event = sample_event]]
  have "?reach (?w\<lparr>waSink := [sample_event]\<rparr>)" by (simp add: new_watcher_def)
  from watch_reach.run [OF watch_reach.unsubscribe [OF this] watch_step.quit]
  show ?thesis by (simp add: new_watcher_def)
qed

theorem watch_in_order_witness:
  "\<exists>w. watch_reach sample_unpack newFundsClaimed (new_watcher ''FundsClaimed'' sample_feed) [sample_log] w \<and>
     waSink w = [sample_event] \<and> waUnsubscribed w \<and> (\<forall>w'. \<not> watch_step sample_unpack newFundsClaimed w w')"
proof -
  let ?w = "watch_return None ((new_watcher ''FundsClaimed'' sample_feed)\<lparr>waQuit := True, waSink := [sample_event]\<rparr>)"
  have "waUnsubscribed ?w" "waSink ?w = [sample_event]" by (simp_all add: watch_return_def)
  with watch_in_order [OF sample_watch sample_feed_fresh] sample_watch show ?thesis by (intro exI [of _ ?w]) blast
qed

theorem bindings_respect_abi_witness:
  "let c = sample_contract\<lparr>bcFilterLogs := (\<lambda>opts event rules. Inr sample_feed)\<rparr>;
       topts = \<lparr>toFrom = 9, toNonce = 4, toGasTipCap = Some 1, toSigner = (\<lambda>a tx. Inr tx)\<rparr>;
       st = settlement_on (abi_checked VynxSettlementABI c)
   in Session_ClaimFunds \<lparr>seContract = st, seCallOpts = sample_opts, seTransactOpts = topts\<rparr> (idBytes ''sim-1'') 7 [1, 2] = Inr 3 \<and>
      FilterFundsClaimed (vsFilterer st) \<lparr>foStart = 0, foEnd = None\<rparr> [idBytes ''sim-1''] [7] =
        Inr (new_iterator ''FundsClaimed'' sample_feed)"
  using bindings_respect_abi [of "idBytes ''sim-1''" "[idBytes ''sim-1'']"
      "sample_contract\<lparr>bcFilterLogs := (\<lambda>opts event rules. Inr sample_feed)\<rparr>" sample_opts
      "\<lparr>toFrom = 9, toNonce = 4, toGasTipCap = Some 1, toSigner = (\<lambda>a tx. Inr tx)\<rparr>" sample_convert 7 "[1, 2]" 0 None
      "\<lparr>foStart = 0, foEnd = None\<rparr>" "[7]" "[]" "\<lparr>woStart = None\<rparr>"]
  by (simp add: Let_def)
    (simp add: FilterFundsClaimed_def settlement_on_def Session_ClaimFunds_def ClaimFunds_def sample_contract_def)

end
