(* ===== verification/Settlement_ABI_Text.thy ===== *)
theory Settlement_ABI_Text
  imports Settlement_Bindings Solver_Hub
begin

section \<open>The text of the contract ABI (\<open>bindings/vynx_settlement.go\<close>)\<close>

text \<open>
  The generated binding carries the ABI as a JSON literal that \<open>GetAbi\<close> parses. Here is the literal,
  character for character, and a reader for the part of the ABI's JSON format that it uses. The lemma
  shows that the literal reads as \<open>VynxSettlementABI\<close>, the data the theorems about the binding are
  about, with nothing left out.
\<close>

definition MetaDataABI :: string where
  \<open>MetaDataABI =
     ''[{"type":"constructor","inputs":[{"name":"_relayerSigner","type":"address","internalType":"addr'' @
     ''ess"}],"stateMutability":"nonpayable"}'' @
     '',{"type":"function","name":"REFUND_TIMEOUT","inputs":[],"outputs":[{"name":"","type":"uint256",'' @
     ''"internalType":"uint256"}],"stateMutability":"view"}'' @
     '',{"type":"function","name":"claimFunds","inputs":[{"name":"intentId","type":"bytes32","internal'' @
     ''Type":"bytes32"},{"name":"solver","type":"address","internalType":"address"},{"name":"relayerSi'' @
     ''gnature","type":"bytes","internalType":"bytes"}],"outputs":[],"stateMutability":"nonpayable"}'' @
     '',{"type":"function","name":"escrows","inputs":[{"name":"","type":"bytes32","internalType":"byte'' @
     ''s32"}],"outputs":[{"name":"agent","type":"address","internalType":"address"},{"name":"token","t'' @
     ''ype":"address","internalType":"address"},{"name":"amount","type":"uint256","internalType":"uint'' @
     ''256"},{"name":"lockedAt","type":"uint256","internalType":"uint256"},{"name":"isResolved","type"'' @
     '':"bool","internalType":"bool"}],"stateMutability":"view"}'' @
     '',{"type":"function","name":"lockIntent","inputs":[{"name":"intentId","type":"bytes32","internal'' @
     ''Type":"bytes32"},{"name":"token","type":"address","internalType":"address"},{"name":"amount","t'' @
     ''ype":"uint256","internalType":"uint256"}],"outputs":[],"stateMutability":"nonpayable"}'' @
     '',{"type":"function","name":"refundIntent","inputs":[{"name":"intentId","type":"bytes32","intern'' @
     ''alType":"bytes32"}],"outputs":[],"stateMutability":"nonpayable"}'' @
     '',{"type":"function","name":"relayerSigner","inputs":[],"outputs":[{"name":"","type":"address","'' @
     ''internalType":"address"}],"stateMutability":"view"}'' @
     '',{"type":"event","name":"FundsClaimed","inputs":[{"name":"intentId","type":"bytes32","indexed":'' @
     ''true,"internalType":"bytes32"},{"name":"solver","type":"address","indexed":true,"internalType":'' @
     ''"address"},{"name":"token","type":"address","indexed":false,"internalType":"address"},{"name":"'' @
     ''amount","type":"uint256","indexed":false,"internalType":"uint256"}],"anonymous":false}'' @
     '',{"type":"event","name":"IntentLocked","inputs":[{"name":"intentId","type":"bytes32","indexed":'' @
     ''true,"internalType":"bytes32"},{"name":"agent","type":"address","indexed":true,"internalType":"'' @
     ''address"},{"name":"token","type":"address","indexed":true,"internalType":"address"},{"name":"am'' @
     ''ount","type":"uint256","indexed":false,"internalType":"uint256"}],"anonymous":false}'' @
     '',{"type":"event","name":"IntentRefunded","inputs":[{"name":"intentId","type":"bytes32","indexed'' @
     ''":true,"internalType":"bytes32"},{"name":"agent","type":"address","indexed":true,"internalType"'' @
     '':"address"},{"name":"token","type":"address","indexed":false,"internalType":"address"},{"name":'' @
     ''"amount","type":"uint256","indexed":false,"internalType":"uint256"}],"anonymous":false}'' @
     '',{"type":"error","name":"AddressEmptyCode","inputs":[{"name":"target","type":"address","interna'' @
     ''lType":"address"}]}'' @
     '',{"type":"error","name":"AddressInsufficientBalance","inputs":[{"name":"account","type":"addres'' @
     ''s","internalType":"address"}]}'' @
     '',{"type":"error","name":"AmountMustBeGreaterThanZero","inputs":[]}'' @
     '',{"type":"error","name":"ECDSAInvalidSignature","inputs":[]}'' @
     '',{"type":"error","name":"ECDSAInvalidSignatureLength","inputs":[{"name":"length","type":"uint25'' @
     ''6","internalType":"uint256"}]}'' @
     '',{"type":"error","name":"ECDSAInvalidSignatureS","inputs":[{"name":"s","type":"bytes32","intern'' @
     ''alType":"bytes32"}]}'' @
     '',{"type":"error","name":"EscrowAlreadyResolved","inputs":[]}'' @
     '',{"type":"error","name":"EscrowNotFound","inputs":[]}'' @
     '',{"type":"error","name":"FailedInnerCall","inputs":[]}'' @
     '',{"type":"error","name":"IntentAlreadyExists","inputs":[]}'' @
     '',{"type":"error","name":"InvalidSignature","inputs":[]}'' @
     '',{"type":"error","name":"ReentrancyGuardReentrantCall","inputs":[]}'' @
     '',{"type":"error","name":"RefundNotReadyYet","inputs":[]}'' @
     '',{"type":"error","name":"SafeERC20FailedOperation","inputs":[{"name":"token","type":"address","'' @
     ''internalType":"address"}]}]''\<close>

subsection \<open>Reading the format\<close>

definition abi_type_of :: "string \<Rightarrow> abi_type option" where
  "abi_type_of s =
     map_of [(''uint256'', Uint256), (''address'', Address), (''bytes32'', Bytes32), (''bytes'', Bytes), (''bool'', Bool)] s"

definition mutability_of :: "string \<Rightarrow> mutability option" where
  "mutability_of s = map_of [(''view'', View), (''nonpayable'', Nonpayable)] s"

fun json_flag :: "json option \<Rightarrow> bool option" where
  "json_flag (Some (JBool b)) = Some b"
| "json_flag _ = None"

text \<open>A list of parameters, each read by its own reader.\<close>

fun read_list :: "(json \<Rightarrow> 'a option) \<Rightarrow> json list \<Rightarrow> 'a list option" where
  "read_list f [] = Some []"
| "read_list f (v # vs) =
     (case f v of None \<Rightarrow> None | Some x \<Rightarrow> (case read_list f vs of None \<Rightarrow> None | Some xs \<Rightarrow> Some (x # xs)))"

fun read_array :: "(json \<Rightarrow> 'a option) \<Rightarrow> json option \<Rightarrow> 'a list option" where
  "read_array f (Some (JArray vs)) = read_list f vs"
| "read_array f _ = None"

definition read_param :: "json \<Rightarrow> (string \<times> abi_type) option" where
  "read_param v =
     (case (json_text (json_field ''name'' v), json_text (json_field ''type'' v)) of
        (Some name, Some ty) \<Rightarrow> map_option (Pair name) (abi_type_of ty)
      | _ \<Rightarrow> None)"

definition read_event_param :: "json \<Rightarrow> (string \<times> abi_type \<times> bool) option" where
  "read_event_param v =
     (case (read_param v, json_flag (json_field ''indexed'' v)) of
        (Some (name, ty), Some indexed) \<Rightarrow> Some (name, ty, indexed)
      | _ \<Rightarrow> None)"

text \<open>One entry, added at the front of what the later ones give.\<close>

definition read_entry :: "json \<Rightarrow> contract_abi \<Rightarrow> contract_abi option" where
  "read_entry v a =
     (case json_text (json_field ''type'' v) of
        None \<Rightarrow> None
      | Some kind \<Rightarrow>
          if kind = ''constructor'' then
            map_option (\<lambda>ps. a\<lparr>caConstructor := ps\<rparr>) (read_array read_param (json_field ''inputs'' v))
          else
            (case json_text (json_field ''name'' v) of
               None \<Rightarrow> None
             | Some name \<Rightarrow>
                 if kind = ''function'' then
                   (case (read_array read_param (json_field ''inputs'' v), read_array read_param (json_field ''outputs'' v),
                          json_text (json_field ''stateMutability'' v)) of
                      (Some ins, Some outs, Some m) \<Rightarrow>
                        map_option (\<lambda>mu. a\<lparr>caFunctions :=
                          \<lparr>afName = name, afInputs = ins, afOutputs = outs, afMutability = mu\<rparr> # caFunctions a\<rparr>) (mutability_of m)
                    | _ \<Rightarrow> None)
                 else if kind = ''event'' then
                   map_option (\<lambda>ps. a\<lparr>caEvents := \<lparr>aeName = name, aeInputs = ps\<rparr> # caEvents a\<rparr>)
                     (read_array read_event_param (json_field ''inputs'' v))
                 else if kind = ''error'' then
                   map_option (\<lambda>ps. a\<lparr>caErrors := (name, ps) # caErrors a\<rparr>) (read_array read_param (json_field ''inputs'' v))
                 else None))"

fun read_entries :: "json list \<Rightarrow> contract_abi option" where
  "read_entries [] = Some \<lparr>caConstructor = [], caFunctions = [], caEvents = [], caErrors = []\<rparr>"
| "read_entries (v # vs) = (case read_entries vs of None \<Rightarrow> None | Some a \<Rightarrow> read_entry v a)"

definition read_abi :: "string \<Rightarrow> contract_abi option" where
  "read_abi text = (case decode_message text of Some (JArray vs) \<Rightarrow> read_entries vs | _ \<Rightarrow> None)"

subsection \<open>Writing the format\<close>

text \<open>The entries in the order of the literal, with the keys in its order.\<close>

fun type_text :: "abi_type \<Rightarrow> string" where
  "type_text Uint256 = ''uint256''"
| "type_text Address = ''address''"
| "type_text Bytes32 = ''bytes32''"
| "type_text Bytes = ''bytes''"
| "type_text Bool = ''bool''"

fun mutability_text :: "mutability \<Rightarrow> string" where
  "mutability_text View = ''view''"
| "mutability_text Nonpayable = ''nonpayable''"

fun param_json :: "string \<times> abi_type \<Rightarrow> json" where
  "param_json (name, ty) =
     JObject [(''name'', JString name), (''type'', JString (type_text ty)), (''internalType'', JString (type_text ty))]"

fun event_param_json :: "string \<times> abi_type \<times> bool \<Rightarrow> json" where
  "event_param_json (name, ty, indexed) =
     JObject [(''name'', JString name), (''type'', JString (type_text ty)), (''indexed'', JBool indexed),
       (''internalType'', JString (type_text ty))]"

definition function_json :: "abi_function \<Rightarrow> json" where
  "function_json f =
     JObject [(''type'', JString ''function''), (''name'', JString (afName f)),
       (''inputs'', JArray (map param_json (afInputs f))), (''outputs'', JArray (map param_json (afOutputs f))),
       (''stateMutability'', JString (mutability_text (afMutability f)))]"

definition event_json :: "abi_event \<Rightarrow> json" where
  "event_json ev =
     JObject [(''type'', JString ''event''), (''name'', JString (aeName ev)),
       (''inputs'', JArray (map event_param_json (aeInputs ev))), (''anonymous'', JBool False)]"

fun error_json :: "string \<times> (string \<times> abi_type) list \<Rightarrow> json" where
  "error_json (name, ps) =
     JObject [(''type'', JString ''error''), (''name'', JString name), (''inputs'', JArray (map param_json ps))]"

definition constructor_json :: "(string \<times> abi_type) list \<Rightarrow> json" where
  "constructor_json ps =
     JObject [(''type'', JString ''constructor''), (''inputs'', JArray (map param_json ps)),
       (''stateMutability'', JString ''nonpayable'')]"

definition abi_entries :: "contract_abi \<Rightarrow> json list" where
  "abi_entries a =
     constructor_json (caConstructor a) # map function_json (caFunctions a) @ map event_json (caEvents a) @ map error_json (caErrors a)"

definition abi_json :: "contract_abi \<Rightarrow> json" where
  "abi_json a = JArray (abi_entries a)"

subsection \<open>What is written reads back\<close>

lemma read_list_map: "(\<And>x. f (g x) = Some x) \<Longrightarrow> read_list f (map g xs) = Some xs"
  by (induction xs) simp_all

lemma types_read [simp]: "abi_type_of (type_text ty) = Some ty" "mutability_of (mutability_text mu) = Some mu"
  by (cases ty; simp add: abi_type_of_def) (cases mu; simp add: mutability_of_def)

lemma read_param_json [simp]: "read_param (param_json p) = Some p"
  by (cases p) (simp add: read_param_def)

lemma read_event_param_json [simp]: "read_event_param (event_param_json p) = Some p"
  by (cases p rule: event_param_json.cases) (simp add: read_event_param_def read_param_def)

lemmas read_params = read_list_map [of read_param param_json, OF read_param_json]
  read_list_map [of read_event_param event_param_json, OF read_event_param_json]

lemma read_entries_errors:
  "read_entries (map error_json es) = Some \<lparr>caConstructor = [], caFunctions = [], caEvents = [], caErrors = es\<rparr>"
proof (induction es)
  case (Cons x es)
  then show ?case by (cases x) (simp add: read_entry_def read_params)
qed simp

lemma read_entries_events:
  "read_entries vs = Some a \<Longrightarrow> read_entries (map event_json evs @ vs) = Some (a\<lparr>caEvents := evs @ caEvents a\<rparr>)"
  by (induction evs) (simp_all add: read_entry_def event_json_def read_params)

lemma read_entries_functions:
  "read_entries vs = Some a \<Longrightarrow> read_entries (map function_json fs @ vs) = Some (a\<lparr>caFunctions := fs @ caFunctions a\<rparr>)"
  by (induction fs) (simp_all add: read_entry_def function_json_def read_params)

lemma read_abi_entries: "read_entries (abi_entries a) = Some a"
  by (simp add: abi_entries_def read_entries_functions [OF read_entries_events [OF read_entries_errors]] read_entry_def
      constructor_json_def read_params)

text \<open>The names are the only free texts.\<close>

definition names_valid :: "(string \<times> 'a) list \<Rightarrow> bool" where
  "names_valid ps \<longleftrightarrow> list_all (\<lambda>p. valid_utf8 (fst p)) ps"

definition abi_names_valid :: "contract_abi \<Rightarrow> bool" where
  "abi_names_valid a \<longleftrightarrow> names_valid (caConstructor a) \<and>
     list_all (\<lambda>f. valid_utf8 (afName f) \<and> names_valid (afInputs f) \<and> names_valid (afOutputs f)) (caFunctions a) \<and>
     list_all (\<lambda>ev. valid_utf8 (aeName ev) \<and> names_valid (aeInputs ev)) (caEvents a) \<and>
     list_all (\<lambda>e. valid_utf8 (fst e) \<and> names_valid (snd e)) (caErrors a)"

lemma elements_ok_append [simp]: "elements_ok (vs @ ws) \<longleftrightarrow> elements_ok vs \<and> elements_ok ws"
  by (induction vs) simp_all

lemma elements_ok_map: "elements_ok (map f xs) \<longleftrightarrow> list_all (\<lambda>x. json_ok (f x)) xs"
  by (induction xs) simp_all

lemma texts_valid [simp]: "valid_utf8 (type_text ty)" "valid_utf8 (mutability_text mu)"
  by (cases ty; simp add: valid_utf8_ascii is_ascii_def) (cases mu; simp add: valid_utf8_ascii is_ascii_def)

lemma params_ok [simp]:
  "json_ok (param_json p) \<longleftrightarrow> valid_utf8 (fst p)" "json_ok (event_param_json q) \<longleftrightarrow> valid_utf8 (fst q)"
  by (cases p; simp add: valid_utf8_ascii is_ascii_def)
     (cases q rule: event_param_json.cases; simp add: valid_utf8_ascii is_ascii_def)

lemma entries_ok [simp]:
  "json_ok (constructor_json ps) \<longleftrightarrow> names_valid ps"
  "json_ok (function_json f) \<longleftrightarrow> valid_utf8 (afName f) \<and> names_valid (afInputs f) \<and> names_valid (afOutputs f)"
  "json_ok (event_json ev) \<longleftrightarrow> valid_utf8 (aeName ev) \<and> names_valid (aeInputs ev)"
  "json_ok (error_json e) \<longleftrightarrow> valid_utf8 (fst e) \<and> names_valid (snd e)"
  by (simp_all add: constructor_json_def function_json_def event_json_def elements_ok_map names_valid_def valid_utf8_ascii is_ascii_def)
     (cases e; simp add: elements_ok_map names_valid_def valid_utf8_ascii is_ascii_def)

lemma read_abi_print:
  assumes "abi_names_valid a"
  shows "read_abi (print_json (abi_json a)) = Some a"
proof -
  have "json_ok (abi_json a)" using assms by (simp add: abi_json_def abi_entries_def abi_names_valid_def elements_ok_map)
  then show ?thesis by (simp add: read_abi_def decode_message_print) (simp add: abi_json_def read_abi_entries)
qed

lemma MetaDataABI_printed: "MetaDataABI = print_json (abi_json VynxSettlementABI)"
  by code_simp

lemma VynxSettlementABI_text: "read_abi MetaDataABI = Some VynxSettlementABI"
  unfolding MetaDataABI_printed by (rule read_abi_print) code_simp

end
