(* ===== verification/Simulator.thy ===== *)
theory Simulator
  imports Intent_Handler Relayer_Config Settlement_Bindings
begin

section \<open>The simulation tool (\<open>cmd/simulate/main.go\<close>)\<close>

text \<open>
  The tool plays the other side of the protocol: an agent that escrows tokens and posts an intent, and
  a solver that answers the broadcast with a bid. The messages it builds and reads, the calls it makes
  to the contracts and its waiting loop are modelled, so that both sides can be put together: what the
  tool sends is what the relayer accepts, and the escrow it locks is the one the relayer claims. The
  node is a parameter; \<open>fatalf\<close>, which ends the process, is the error of a sum.
\<close>

subsection \<open>Settings\<close>

definition lockAmount :: string where "lockAmount = ''1000000000000000000''"
definition bidAmount :: string where "bidAmount = ''950000000000000000''"
definition bidGas :: string where "bidGas = ''1000000000''"
definition simMinAmount :: string where "simMinAmount = ''900000000000000000''"
definition defaultChainID :: "64 word" where "defaultChainID = 31337"
definition simNonce :: "64 word" where "simNonce = 1"

definition envOrDefault :: "string \<Rightarrow> string \<Rightarrow> env \<Rightarrow> string" where
  "envOrDefault key fallback e = (let v = Getenv key e in if v \<noteq> [] then v else fallback)"

text \<open>\<open>fatalf\<close> with the context it prints.\<close>

datatype sim_fatal = SimFatal string | SimReverted string | SimTimeout string

definition must :: "'e + 'a \<Rightarrow> string \<Rightarrow> sim_fatal + 'a" where
  "must r context = (case r of Inl e \<Rightarrow> Inl (SimFatal context) | Inr x \<Rightarrow> Inr x)"

subsection \<open>The solver\<close>

text \<open>
  The envelope of a broadcast keeps the raw text of the intent; a raw member that was read is the value
  it stands for, and a missing one is no value.
\<close>

record wsBroadcast =
  wbType :: string
  wbIntent :: "json option"

definition setBroadcastField :: "string \<Rightarrow> json \<Rightarrow> wsBroadcast \<Rightarrow> wsBroadcast option" where
  "setBroadcastField f v r =
     (if f = ''type'' then map_option (\<lambda>x. r\<lparr>wbType := x\<rparr>) (store_string v (wbType r))
      else Some (r\<lparr>wbIntent := Some v\<rparr>))"

definition decodeBroadcast :: "string \<Rightarrow> wsBroadcast option" where
  "decodeBroadcast raw =
     (case decode_message raw of
        None \<Rightarrow> None
      | Some v \<Rightarrow> decode_struct setBroadcastField [''type'', ''intent''] False v \<lparr>wbType = [], wbIntent = None\<rparr>)"

record wsIntentPayload =
  wpID :: string

definition setPayloadField :: "string \<Rightarrow> json \<Rightarrow> wsIntentPayload \<Rightarrow> wsIntentPayload option" where
  "setPayloadField f v r = map_option (\<lambda>x. r\<lparr>wpID := x\<rparr>) (store_string v (wpID r))"

definition decodePayload :: "json option \<Rightarrow> wsIntentPayload option" where
  "decodePayload raw =
     (case raw of
        None \<Rightarrow> None
      | Some v \<Rightarrow> decode_struct setPayloadField [''id''] False v \<lparr>wpID = []\<rparr>)"

text \<open>The bid has the fields and tags of the relayer's \<open>bidRequest\<close>.\<close>

record wsBidRequest =
  wsbIntentID :: string
  wsbSolver :: string
  wsbAmountOut :: string
  wsbGasPrice :: string

definition wsBid_json :: "wsBidRequest \<Rightarrow> json" where
  "wsBid_json b =
     JObject [(''intent_id'', JString (wsbIntentID b)), (''solver'', JString (wsbSolver b)),
       (''amount_out'', JString (wsbAmountOut b)), (''gas_price'', JString (wsbGasPrice b))]"

text \<open>One message: the bid to send, or None for a message that is skipped.\<close>

definition solverReply :: "addr_text \<Rightarrow> address \<Rightarrow> string \<Rightarrow> string option" where
  "solverReply ac solverAddr raw =
     (case decodeBroadcast raw of
        None \<Rightarrow> None
      | Some envelope \<Rightarrow>
          if wbType envelope \<noteq> ''new_intent'' then None
          else
            (case decodePayload (wbIntent envelope) of
               None \<Rightarrow> None
             | Some payload \<Rightarrow>
                 Some (print_json (wsBid_json
                   \<lparr>wsbIntentID = wpID payload, wsbSolver = AddressHex ac solverAddr,
                    wsbAmountOut = bidAmount, wsbGasPrice = bidGas\<rparr>))))"

text \<open>The goroutine reads until it has sent one bid or the connection ends.\<close>

fun solverLoop :: "addr_text \<Rightarrow> address \<Rightarrow> string list \<Rightarrow> string option" where
  "solverLoop ac solverAddr [] = None"
| "solverLoop ac solverAddr (raw # rest) =
     (case solverReply ac solverAddr raw of
        None \<Rightarrow> solverLoop ac solverAddr rest
      | Some bid \<Rightarrow> Some bid)"

subsection \<open>The agent's intent\<close>

text \<open>\<open>fmt.Sprintf("sim-%d", time.Now().UnixNano())\<close>, and the array it is copied into.\<close>

definition simIntentID :: "64 word \<Rightarrow> intent_id" where
  "simIntentID unixNano = ''sim-'' @ big_String (sint unixNano)"

definition simIntent :: "64 word \<Rightarrow> address \<Rightarrow> address \<Rightarrow> go_time \<Rightarrow> intent" where
  "simIntent unixNano userAddr tokenAddr deadline =
     \<lparr>iID = simIntentID unixNano, iSender = userAddr, iTokenIn = tokenAddr, iTokenOut = tokenAddr,
      iAmountIn = big_SetString lockAmount, iMinAmountOut = big_SetString simMinAmount, iDeadline = deadline,
      iNonce = simNonce, iSignature = [], iReceivedAt = \<lparr>tSec = 0, tNsec = 0\<rparr>\<rparr>"

definition simDomain :: "address \<Rightarrow> eip712_domain" where
  "simDomain settlementAddr =
     \<lparr>dName = ''VynX'', dVersion = ''1'', dChainID = defaultChainID, dVerifyingContract = settlementAddr\<rparr>"

text \<open>The body of the request, with the user's signature on the EIP-712 digest.\<close>

record intentHTTPRequest =
  ihID :: string
  ihSender :: string
  ihTokenIn :: string
  ihTokenOut :: string
  ihAmountIn :: string
  ihMinAmountOut :: string
  ihDeadline :: "64 word"
  ihNonce :: "64 word"
  ihSignature :: string

definition httpRequest_json :: "intentHTTPRequest \<Rightarrow> json" where
  "httpRequest_json r =
     JObject [(''id'', JString (ihID r)), (''sender'', JString (ihSender r)), (''token_in'', JString (ihTokenIn r)),
       (''token_out'', JString (ihTokenOut r)), (''amount_in'', JString (ihAmountIn r)),
       (''min_amount_out'', JString (ihMinAmountOut r)), (''deadline'', JNumber (big_String (sint (ihDeadline r)))),
       (''nonce'', JNumber (nat_string (unat (ihNonce r)))), (''signature'', JString (ihSignature r))]"

definition simBody :: "addr_text \<Rightarrow> intent \<Rightarrow> bytes \<Rightarrow> string" where
  "simBody ac i sig =
     print_json (httpRequest_json
       \<lparr>ihID = iID i, ihSender = AddressHex ac (iSender i), ihTokenIn = AddressHex ac (iTokenIn i),
        ihTokenOut = AddressHex ac (iTokenOut i), ihAmountIn = lockAmount, ihMinAmountOut = simMinAmount,
        ihDeadline = Time_Unix (iDeadline i), ihNonce = iNonce i, ihSignature = ''0x'' @ hex_EncodeToString sig\<rparr>)"

definition simPost ::
    "('k, 'p) crypto \<Rightarrow> 't abi_coder \<Rightarrow> addr_text \<Rightarrow> address \<Rightarrow> 'k \<Rightarrow> intent \<Rightarrow> sim_fatal + http_request" where
  "simPost cr ab ac settlementAddr userKey i =
     (case must (HashIntent cr ab (simDomain settlementAddr) i) ''compute EIP-712 digest'' of
        Inl e \<Rightarrow> Inl e
      | Inr digest \<Rightarrow>
          (case must (CryptoSign cr (hash_bytes digest) userKey) ''sign EIP-712 digest'' of
             Inl e \<Rightarrow> Inl e
           | Inr sig \<Rightarrow> Inr \<lparr>hrMethod = ''POST'', hrBody = simBody ac i sig\<rparr>))"

subsection \<open>Contract calls\<close>

text \<open>\<open>x.Bytes()\<close> and \<open>common.LeftPadBytes\<close>.\<close>

fun nat_Bytes :: "nat \<Rightarrow> bytes" where
  "nat_Bytes n = (if n = 0 then [] else nat_Bytes (n div 256) @ [of_nat (n mod 256)])"

declare nat_Bytes.simps [simp del]

definition big_Bytes :: "int \<Rightarrow> bytes" where
  "big_Bytes x = nat_Bytes (nat \<bar>x\<bar>)"

definition LeftPadBytes :: "bytes \<Rightarrow> nat \<Rightarrow> bytes" where
  "LeftPadBytes bs l = (if l \<le> length bs then bs else replicate (l - length bs) 0 @ bs)"

definition mintData :: "address \<Rightarrow> int \<Rightarrow> bytes" where
  "mintData to amount = [0x40, 0xc1, 0x0f, 0x19] @ LeftPadBytes (address_bytes to) 32 @ LeftPadBytes (big_Bytes amount) 32"

definition approveData :: "address \<Rightarrow> int \<Rightarrow> bytes" where
  "approveData spender amount =
     [0x09, 0x5e, 0xa7, 0xb3] @ LeftPadBytes (address_bytes spender) 32 @ LeftPadBytes (big_Bytes amount) 32"

definition lockIntentData :: "bytes \<Rightarrow> address \<Rightarrow> int \<Rightarrow> bytes" where
  "lockIntentData intentID token amount =
     [0x47, 0x64, 0x31, 0x64] @ intentID @ LeftPadBytes (address_bytes token) 32 @ LeftPadBytes (big_Bytes amount) 32"

subsection \<open>Transactions\<close>

record dynamic_fee_tx =
  dtChainID :: int
  dtNonce :: "64 word"
  dtGasFeeCap :: bigptr
  dtGasTipCap :: bigptr
  dtGas :: "64 word"
  dtTo :: "address option"
  dtValue :: bigptr
  dtData :: bytes

datatype receipt_reply = NoReceipt | Mined "64 word" address

text \<open>
  What the node and the signing library answer: \<open>snReceipts\<close> lists the answers of the polls before the
  context is done.
\<close>

record ('k, 'tx) sim_node =
  snPendingNonce :: "address \<Rightarrow> string + 64 word"
  snGasPrice :: "string + bigptr"
  snSignTx :: "dynamic_fee_tx \<Rightarrow> 'k \<Rightarrow> string + 'tx"
  snSend :: "'tx \<Rightarrow> string option"
  snReceipts :: "'tx \<Rightarrow> receipt_reply list"

fun waitMined :: "string \<Rightarrow> receipt_reply list \<Rightarrow> sim_fatal + address" where
  "waitMined label [] = Inl (SimTimeout label)"
| "waitMined label (NoReceipt # rest) = waitMined label rest"
| "waitMined label (Mined status contractAddress # rest) =
     (if status = 0 then Inl (SimReverted label) else Inr contractAddress)"

text \<open>
  What the three senders share: the pending nonce and the gas price, then sign, send and wait. They
  differ in the transaction and in the contexts they print, those of the four calls and the label.
\<close>

record tx_contexts =
  tcNonce :: string
  tcGasPrice :: string
  tcSign :: string
  tcSend :: string
  tcLabel :: string

definition keyAddress :: "('k, 'p) crypto \<Rightarrow> 'k \<Rightarrow> address" where
  "keyAddress cr key = PubkeyToAddress cr (PublicKey cr key)"

text \<open>
  \<open>txOpts\<close>, with the node's two answers and \<open>types.SignTx\<close> for the latest signer of a chain as arguments.
  Its signer, unlike the one of \<open>execute\<close>, does not look at the address it is asked to sign for.
\<close>

record 'tx tool_opts =
  topFrom :: address
  topNonce :: int
  topGasTipCap :: bigptr
  topSigner :: "address \<Rightarrow> 'tx \<Rightarrow> string + 'tx"

definition txOpts ::
    "('k, 'p) crypto \<Rightarrow> addr_text \<Rightarrow> (address \<Rightarrow> string + 64 word) \<Rightarrow> string + bigptr \<Rightarrow>
     (int \<Rightarrow> 'tx \<Rightarrow> 'k \<Rightarrow> string + 'tx) \<Rightarrow> 'k \<Rightarrow> int \<Rightarrow> sim_fatal + 'tx tool_opts" where
  "txOpts cr ac pending tipCap SignTx key chainID =
     (let addr = keyAddress cr key
      in case must (pending addr) (''PendingNonceAt for '' @ AddressHex ac addr) of Inl e \<Rightarrow> Inl e | Inr nonce \<Rightarrow>
         case must tipCap ''SuggestGasTipCap'' of Inl e \<Rightarrow> Inl e | Inr tip \<Rightarrow>
         Inr \<lparr>topFrom = addr, topNonce = uint nonce, topGasTipCap = tip, topSigner = (\<lambda>a tx. SignTx chainID tx key)\<rparr>)"

definition runTx ::
    "('k, 'p) crypto \<Rightarrow> ('k, 'tx) sim_node \<Rightarrow> tx_contexts \<Rightarrow> (64 word \<Rightarrow> bigptr \<Rightarrow> dynamic_fee_tx) \<Rightarrow> 'k \<Rightarrow> sim_fatal + address" where
  "runTx cr node tc build key =
     (case must (snPendingNonce node (keyAddress cr key)) (tcNonce tc) of Inl e \<Rightarrow> Inl e | Inr nonce \<Rightarrow>
      case must (snGasPrice node) (tcGasPrice tc) of Inl e \<Rightarrow> Inl e | Inr gasPrice \<Rightarrow>
      case must (snSignTx node (build nonce gasPrice) key) (tcSign tc) of Inl e \<Rightarrow> Inl e | Inr signedTx \<Rightarrow>
      case snSend node signedTx of Some e \<Rightarrow> Inl (SimFatal (tcSend tc)) | None \<Rightarrow>
      waitMined (tcLabel tc) (snReceipts node signedTx))"

definition sendETH :: "('k, 'p) crypto \<Rightarrow> ('k, 'tx) sim_node \<Rightarrow> 'k \<Rightarrow> address \<Rightarrow> int \<Rightarrow> int \<Rightarrow> sim_fatal + address" where
  "sendETH cr node fromKey to chainID amount =
     runTx cr node
       \<lparr>tcNonce = ''PendingNonceAt for funder'', tcGasPrice = ''SuggestGasPrice'', tcSign = ''sign ETH transfer'',
        tcSend = ''send ETH transfer'', tcLabel = ''ETH transfer''\<rparr>
       (\<lambda>nonce gasPrice. \<lparr>dtChainID = chainID, dtNonce = nonce, dtGasFeeCap = gasPrice, dtGasTipCap = Some 1000000000,
          dtGas = 21000, dtTo = Some to, dtValue = Some amount, dtData = []\<rparr>) fromKey"

definition deployMockToken :: "('k, 'p) crypto \<Rightarrow> ('k, 'tx) sim_node \<Rightarrow> string \<Rightarrow> 'k \<Rightarrow> int \<Rightarrow> sim_fatal + address" where
  "deployMockToken cr node mockTokenBytecode deployerKey chainID =
     (case hex_DecodeString mockTokenBytecode of
        (_, Some e) \<Rightarrow> Inl (SimFatal ''decode MockToken bytecode'')
      | (bytecode, None) \<Rightarrow>
          runTx cr node
            \<lparr>tcNonce = ''PendingNonceAt for deployer'', tcGasPrice = ''SuggestGasPrice for deploy'', tcSign = ''sign deploy tx'',
             tcSend = ''send deploy tx'', tcLabel = ''MockToken deploy''\<rparr>
            (\<lambda>nonce gasPrice. \<lparr>dtChainID = chainID, dtNonce = nonce, dtGasFeeCap = gasPrice, dtGasTipCap = Some 1000000000,
               dtGas = 2000000, dtTo = None, dtValue = None, dtData = bytecode\<rparr>) deployerKey)"

definition sendContractTx ::
    "('k, 'p) crypto \<Rightarrow> ('k, 'tx) sim_node \<Rightarrow> 'k \<Rightarrow> address \<Rightarrow> bytes \<Rightarrow> int \<Rightarrow> string \<Rightarrow> sim_fatal + address" where
  "sendContractTx cr node key to data chainID label =
     runTx cr node
       \<lparr>tcNonce = ''PendingNonceAt for '' @ label, tcGasPrice = ''SuggestGasPrice for '' @ label,
        tcSign = ''sign '' @ label @ '' tx'', tcSend = ''send '' @ label @ '' tx'', tcLabel = label\<rparr>
       (\<lambda>nonce gasPrice. \<lparr>dtChainID = chainID, dtNonce = nonce, dtGasFeeCap = gasPrice, dtGasTipCap = Some 1000000000,
          dtGas = 500000, dtTo = Some to, dtValue = None, dtData = data\<rparr>) key"

definition callMint :: "('k, 'p) crypto \<Rightarrow> ('k, 'tx) sim_node \<Rightarrow> 'k \<Rightarrow> address \<Rightarrow> address \<Rightarrow> int \<Rightarrow> int \<Rightarrow> sim_fatal + address" where
  "callMint cr node minterKey token to amount chainID =
     sendContractTx cr node minterKey token (mintData to amount) chainID ''mint''"

definition callApprove :: "('k, 'p) crypto \<Rightarrow> ('k, 'tx) sim_node \<Rightarrow> 'k \<Rightarrow> address \<Rightarrow> address \<Rightarrow> int \<Rightarrow> int \<Rightarrow> sim_fatal + address" where
  "callApprove cr node ownerKey token spender amount chainID =
     sendContractTx cr node ownerKey token (approveData spender amount) chainID ''approve''"

definition callLockIntent ::
    "('k, 'p) crypto \<Rightarrow> ('k, 'tx) sim_node \<Rightarrow> 'k \<Rightarrow> address \<Rightarrow> bytes \<Rightarrow> address \<Rightarrow> int \<Rightarrow> int \<Rightarrow> sim_fatal + address" where
  "callLockIntent cr node agentKey settlement intentID token amount chainID =
     sendContractTx cr node agentKey settlement (lockIntentData intentID token amount) chainID ''lockIntent''"

text \<open>
  The on-chain part of \<open>main\<close>, in order: fund the user, deploy the token, mint, approve, lock. The node may
  answer each of the five differently; the result is the address of the token.
\<close>

definition simEscrow ::
    "('k, 'p) crypto \<Rightarrow> (nat \<Rightarrow> ('k, 'tx) sim_node) \<Rightarrow> string \<Rightarrow> 'k \<Rightarrow> 'k \<Rightarrow> address \<Rightarrow> 64 word \<Rightarrow> sim_fatal + address" where
  "simEscrow cr node mockTokenBytecode funderKey userKey settlementAddr unixNano =
     (let chainID = sint defaultChainID;
          userAddr = keyAddress cr userKey;
          amount = (case big_SetString lockAmount of None \<Rightarrow> 0 | Some x \<Rightarrow> x)
      in case sendETH cr (node 0) funderKey userAddr chainID 1000000000000000000 of Inl e \<Rightarrow> Inl e | Inr _ \<Rightarrow>
         case deployMockToken cr (node 1) mockTokenBytecode funderKey chainID of Inl e \<Rightarrow> Inl e | Inr tokenAddr \<Rightarrow>
         case callMint cr (node 2) funderKey tokenAddr userAddr amount chainID of Inl e \<Rightarrow> Inl e | Inr _ \<Rightarrow>
         case callApprove cr (node 3) userKey tokenAddr settlementAddr amount chainID of Inl e \<Rightarrow> Inl e | Inr _ \<Rightarrow>
         case callLockIntent cr (node 4) userKey settlementAddr (idBytes (simIntentID unixNano)) tokenAddr amount chainID of
           Inl e \<Rightarrow> Inl e | Inr _ \<Rightarrow> Inr tokenAddr)"

subsection \<open>The answer of the relayer\<close>

text \<open>\<open>json.NewDecoder(resp.Body).Decode(&respBody)\<close> into a map of strings; null stores the zero value.\<close>

fun decode_string_map :: "(string \<times> json) list \<Rightarrow> (string \<rightharpoonup> string) \<Rightarrow> (string \<rightharpoonup> string) option" where
  "decode_string_map [] m = Some m"
| "decode_string_map ((k, v) # ms) m =
     (case store_string v [] of None \<Rightarrow> None | Some x \<Rightarrow> decode_string_map ms (m(k \<mapsto> x)))"

definition decodeResponse :: "string \<Rightarrow> (string \<rightharpoonup> string) option" where
  "decodeResponse body =
     (case decode_value body of
        None \<Rightarrow> None
      | Some (JNull, _) \<Rightarrow> Some Map.empty
      | Some (JObject ms, _) \<Rightarrow> decode_string_map ms Map.empty
      | Some _ \<Rightarrow> None)"

definition checkResponse :: "string + http_response \<Rightarrow> sim_fatal + (string \<rightharpoonup> string)" where
  "checkResponse answer =
     (case answer of
        Inl err \<Rightarrow> Inl (SimFatal ''POST /v1/intent failed'')
      | Inr resp \<Rightarrow>
          (case decodeResponse (hpBody resp) of
             None \<Rightarrow> Inl (SimFatal ''decode POST response'')
           | Some respBody \<Rightarrow>
               if hpStatus resp \<noteq> 202 then Inl (SimFatal ''relayer rejected intent'') else Inr respBody))"

subsection \<open>The check of the escrow\<close>

definition simVerify ::
    "convert \<Rightarrow> ('be, 'tx) bind_lib \<Rightarrow> 'be \<Rightarrow> call_opts \<Rightarrow> address \<Rightarrow> bytes \<Rightarrow> go_panic + sim_fatal + escrow" where
  "simVerify ct lib ethCl opts settlementAddr intentIDBytes =
     (case must (NewVynxSettlement lib settlementAddr ethCl) ''bind VynxSettlement for verification'' of
        Inl e \<Rightarrow> Inr (Inl e)
      | Inr settlement \<Rightarrow>
          (case Escrows ct (vsCaller settlement) opts intentIDBytes of
             Inl p \<Rightarrow> Inl p
           | Inr (escrow, Some err) \<Rightarrow> Inr (Inl (SimFatal ''read escrow state''))
           | Inr (escrow, None) \<Rightarrow>
               if esIsResolved escrow then Inr (Inr escrow) else Inr (Inl (SimFatal ''Escrow is NOT resolved''))))"

subsection \<open>\<open>main\<close>\<close>

text \<open>
  What \<open>main\<close> meets outside: the connections, the keys, the node at each of the five transactions, the
  clock, the relayer's answer to a request, and whether the solver's goroutine ended within ten seconds
  (\<open>defer close(bidSent)\<close> signals every way of ending, not only a bid that was sent).
\<close>

record ('k, 'tx, 'be) sim_world =
  swEnv :: env
  swDialRPC :: "string \<Rightarrow> string + 'be"
  swGenerateKey :: "nat \<Rightarrow> string + 'k"
  swHexToECDSA :: "string \<Rightarrow> string + 'k"
  swBytecode :: string
  swNode :: "nat \<Rightarrow> ('k, 'tx) sim_node"
  swUnixNano :: "64 word"
  swNow :: go_time
  swDialWS :: "string \<Rightarrow> string option"
  swNewRequest :: "string \<Rightarrow> string option"
  swPost :: "string \<Rightarrow> http_request \<Rightarrow> string + http_response"
  swSolverEnded :: bool
  swConvert :: convert
  swLib :: "('be, 'tx) bind_lib"
  swCallOpts :: call_opts

definition defaultRelayerHTTP :: string where "defaultRelayerHTTP = ''http://localhost:8080''"
definition defaultRelayerWS :: string where "defaultRelayerWS = ''ws://localhost:8080''"
definition defaultRPCURL :: string where "defaultRPCURL = ''http://127.0.0.1:8545''"
definition defaultSettlementAddr :: string where
  "defaultSettlementAddr = ''0x5FbDB2315678afecb367f032d93F642f64180aa3''"

definition settlementOf :: "addr_text \<Rightarrow> env \<Rightarrow> address" where
  "settlementOf ac e = HexToAddress ac (envOrDefault ''SETTLEMENT_CONTRACT_ADDRESS'' defaultSettlementAddr e)"

text \<open>\<open>time.Now().Add(5 * time.Minute)\<close>\<close>

definition simDeadline :: "go_time \<Rightarrow> go_time" where
  "simDeadline t = t\<lparr>tSec := tSec t + 300\<rparr>"

definition dialSolver :: "('k, 'tx, 'be) sim_world \<Rightarrow> string \<Rightarrow> sim_fatal + unit" where
  "dialSolver w relayerWS =
     (case swDialWS w (relayerWS @ ''/v1/ws/solvers'') of
        Some err \<Rightarrow> Inl (SimFatal ''WebSocket dial failed'')
      | None \<Rightarrow> Inr ())"

text \<open>From the locked escrow to the end: the request, its answer, the wait and the check.\<close>

definition simSettle ::
    "('k, 'p) crypto \<Rightarrow> 't abi_coder \<Rightarrow> addr_text \<Rightarrow> ('k, 'tx, 'be) sim_world \<Rightarrow> 'be \<Rightarrow> 'k \<Rightarrow> address \<Rightarrow>
       go_panic + sim_fatal + escrow" where
  "simSettle cr ab ac w ethCl userKey tokenAddr =
     (let relayerHTTP = envOrDefault ''RELAYER_HTTP'' defaultRelayerHTTP (swEnv w);
          relayerWS = envOrDefault ''RELAYER_WS'' defaultRelayerWS (swEnv w);
          settlementAddr = settlementOf ac (swEnv w);
          i = simIntent (swUnixNano w) (keyAddress cr userKey) tokenAddr (simDeadline (swNow w))
      in case dialSolver w relayerWS of Inl e \<Rightarrow> Inr (Inl e) | Inr _ \<Rightarrow>
         case simPost cr ab ac settlementAddr userKey i of Inl e \<Rightarrow> Inr (Inl e) | Inr postReq \<Rightarrow>
         case swNewRequest w (relayerHTTP @ ''/v1/intent'') of Some err \<Rightarrow> Inr (Inl (SimFatal ''build HTTP request'')) | None \<Rightarrow>
         case checkResponse (swPost w (relayerHTTP @ ''/v1/intent'') postReq) of Inl e \<Rightarrow> Inr (Inl e) | Inr respBody \<Rightarrow>
         if \<not> swSolverEnded w then Inr (Inl (SimTimeout ''timeout waiting for intent broadcast''))
         else simVerify (swConvert w) (swLib w) ethCl (swCallOpts w) settlementAddr (idBytes (iID i)))"

definition simMain ::
    "('k, 'p) crypto \<Rightarrow> 't abi_coder \<Rightarrow> addr_text \<Rightarrow> ('k, 'tx, 'be) sim_world \<Rightarrow> go_panic + sim_fatal + escrow" where
  "simMain cr ab ac w =
     (case must (swDialRPC w (envOrDefault ''BASE_RPC_URL'' defaultRPCURL (swEnv w))) ''dial Anvil RPC'' of
        Inl e \<Rightarrow> Inr (Inl e) | Inr ethCl \<Rightarrow>
      case must (swGenerateKey w 0) ''generate user key'' of Inl e \<Rightarrow> Inr (Inl e) | Inr userKey \<Rightarrow>
      case must (swGenerateKey w 1) ''generate solver key'' of Inl e \<Rightarrow> Inr (Inl e) | Inr solverKey \<Rightarrow>
      case must (swHexToECDSA w ''ac0974bec39a17e36ba4a6b4d238ff944bacb478cbed5efcae784d7bf4f2ff80'') ''parse funder key'' of
        Inl e \<Rightarrow> Inr (Inl e) | Inr funderKey \<Rightarrow>
      case simEscrow cr (swNode w) (swBytecode w) funderKey userKey (settlementOf ac (swEnv w)) (swUnixNano w) of
        Inl e \<Rightarrow> Inr (Inl e) | Inr tokenAddr \<Rightarrow>
      simSettle cr ab ac w ethCl userKey tokenAddr)"

subsection \<open>The solver understands the relayer\<close>

lemma sim_amounts:
  "big_SetString lockAmount = Some 1000000000000000000" "big_SetString bidAmount = Some 950000000000000000"
  "big_SetString bidGas = Some 1000000000" "big_SetString simMinAmount = Some 900000000000000000"
  by (simp_all add: lockAmount_def bidAmount_def bidGas_def simMinAmount_def big_digits_def is_digit_def digit_val_def)

lemma sim_ascii:
  "is_ascii lockAmount" "is_ascii bidAmount" "is_ascii bidGas" "is_ascii simMinAmount"
  by code_simp+

lemma payload_fields:
  "field_of [''id''] ''id'' = Some ''id''" "field_of [''id''] ''token_in'' = None" "field_of [''id''] ''token_out'' = None"
  "field_of [''id''] ''amount_in'' = None" "field_of [''id''] ''min_amount_out'' = None" "field_of [''id''] ''deadline'' = None"
  by code_simp+

lemma wsBid_bid_json:
  "wsBid_json b = bid_json \<lparr>brIntentID = wsbIntentID b, brSolver = wsbSolver b, brAmountOut = wsbAmountOut b,
     brGasPrice = wsbGasPrice b\<rparr>"
  by (simp add: wsBid_json_def bid_json_def)

lemma solverReply_broadcast:
  assumes "decode_message raw = Some (broadcast_json \<lparr>ibType = ''new_intent'', ibIntent = p\<rparr>)"
  shows "solverReply ac solverAddr raw =
    Some (print_json (bid_json \<lparr>brIntentID = ipID p, brSolver = AddressHex ac solverAddr, brAmountOut = bidAmount,
      brGasPrice = bidGas\<rparr>))"
proof -
  have "decodePayload (Some (payload_json p)) = Some \<lparr>wpID = ipID p\<rparr>"
    by (simp add: decodePayload_def decode_struct_def payload_json_def payload_fields setPayloadField_def)
  moreover have "decodeBroadcast raw = Some \<lparr>wbType = ''new_intent'', wbIntent = Some (payload_json p)\<rparr>"
    using assms by (simp add: decodeBroadcast_def decode_struct_def broadcast_json_def field_of_def setBroadcastField_def)
  ultimately show ?thesis by (simp add: solverReply_def wsBid_bid_json)
qed

subsection \<open>Calldata\<close>

lemma be_nat_snoc [simp]: "be_nat (bs @ [b]) = 256 * be_nat bs + unat b"
  by (simp add: be_nat_def)

lemma be_nat_zeros: "be_nat (replicate k 0 @ bs) = be_nat bs"
proof -
  have "foldl (\<lambda>a b. 256 * a + unat b) 0 (replicate k (0 :: byte)) = 0" by (induction k) simp_all
  then show ?thesis by (simp add: be_nat_def)
qed

lemma be_nat_Bytes: "be_nat (nat_Bytes n) = n"
proof (induction n rule: nat_Bytes.induct)
  case (1 n)
  have "unat (of_nat (n mod 256) :: byte) = n mod 256" by (simp add: unat_of_nat)
  with 1 show ?case by (subst nat_Bytes.simps) (simp add: be_nat_def [of "[]"])
qed

lemma length_nat_Bytes: "n < 256 ^ k \<Longrightarrow> length (nat_Bytes n) \<le> k"
proof (induction k arbitrary: n)
  case 0
  then show ?case by (subst nat_Bytes.simps) simp
next
  case (Suc k)
  then have "n div 256 < 256 ^ k" by (simp add: less_mult_imp_div_less)
  from Suc.IH [OF this] show ?case by (subst nat_Bytes.simps) simp
qed

lemma pad_amount:
  assumes "0 \<le> x" and "x < 2 ^ 256"
  shows "length (LeftPadBytes (big_Bytes x) 32) = 32" "int (be_nat (LeftPadBytes (big_Bytes x) 32)) = x"
proof -
  have "nat x < 256 ^ 32" using assms by (simp add: nat_less_iff)
  then have "length (big_Bytes x) \<le> 32" using assms by (simp add: big_Bytes_def length_nat_Bytes)
  then show "length (LeftPadBytes (big_Bytes x) 32) = 32" by (simp add: LeftPadBytes_def)
  show "int (be_nat (LeftPadBytes (big_Bytes x) 32)) = x"
    using assms by (simp add: LeftPadBytes_def be_nat_zeros big_Bytes_def be_nat_Bytes)
qed

subsection \<open>The ids of the tool\<close>

lemma length_nat_string: "n < 10 ^ Suc k \<Longrightarrow> length (nat_string n) \<le> Suc k"
proof (induction k arbitrary: n)
  case 0
  then show ?case by (subst nat_string.simps) simp
next
  case (Suc k)
  then have "n div 10 < 10 ^ Suc k" by (simp add: less_mult_imp_div_less)
  from Suc.IH [OF this] show ?case by (subst nat_string.simps) simp
qed

lemma length_simIntentID: "length (simIntentID t) \<le> 24"
proof -
  have "sint t < 2 ^ 63" "- (2 ^ 63) \<le> sint t" using sint_less [of t] sint_greater_eq [of t] by simp_all
  then have "nat (- sint t) < 10 ^ Suc 18" "nat (sint t) < 10 ^ Suc 18" by (simp_all add: nat_less_iff)
  from this [THEN length_nat_string] show ?thesis by (simp add: simIntentID_def big_String_def)
qed

lemma simIntentID_inj: "simIntentID t = simIntentID t' \<longleftrightarrow> t = t'"
proof -
  have "t = t'" if "sint t = sint t'" using arg_cong [OF that, of "word_of_int :: int \<Rightarrow> 64 word"] by simp
  then show ?thesis by (auto simp: simIntentID_def decimal.encode_inj)
qed

lemma simIntentID_last: "last (simIntentID t) \<noteq> CHR 0x00"
proof -
  have "last (nat_string n) \<noteq> CHR 0x00" for n
  proof -
    have "is_digit (last (nat_string n))" using nat_string_digits [of n] by (simp add: list_all_iff)
    then show ?thesis by (auto simp: is_digit_def digit_val_def)
  qed
  then show ?thesis by (simp add: simIntentID_def big_String_def)
qed

subsection \<open>The posted intent\<close>

lemma httpRequest_request_json:
  "httpRequest_json r = request_json
     \<lparr>irID = ihID r, irSender = ihSender r, irTokenIn = ihTokenIn r, irTokenOut = ihTokenOut r, irAmountIn = ihAmountIn r,
      irMinAmountOut = ihMinAmountOut r, irDeadline = ihDeadline r, irNonce = ihNonce r, irSignature = ihSignature r\<rparr>"
  by (simp add: httpRequest_json_def request_json_def)

lemma simBody_decoded:
  assumes "addr_text_ok ac" and "valid_utf8 (iID i)"
  shows "decodeRequest (simBody ac i sig) = Some
    \<lparr>irID = iID i, irSender = AddressHex ac (iSender i), irTokenIn = AddressHex ac (iTokenIn i),
     irTokenOut = AddressHex ac (iTokenOut i), irAmountIn = lockAmount, irMinAmountOut = simMinAmount,
     irDeadline = Time_Unix (iDeadline i), irNonce = iNonce i, irSignature = ''0x'' @ hex_EncodeToString sig\<rparr>"
proof -
  have "is_ascii (''0x'' @ hex_EncodeToString sig)" using is_ascii_hex [of sig] by (simp add: is_ascii_def)
  then show ?thesis
    unfolding simBody_def httpRequest_request_json
    using assms sim_ascii decodeRequest_print [of _ "[]"]
    by (simp add: request_texts_ok_def addr_text_ok_def valid_utf8_ascii)
qed

text \<open>The digest does not depend on what the two sides keep differently.\<close>

lemma HashIntent_same:
  assumes "iID i = iID j" and "intentValues cr i = intentValues cr j"
  shows "HashIntent cr ab d i = HashIntent cr ab d j"
proof -
  have eq: "intentStructHash cr ab i = intentStructHash cr ab j" unfolding intentStructHash_def assms(2) ..
  show ?thesis unfolding HashIntent_def assms(1) eq ..
qed

text \<open>
  The solver of the tool and the relayer understand each other: for every intent the relayer accepts, the
  tool answers its broadcast with one bid, and the relayer reads that bid as one for this intent by this
  solver, with the tool's amounts. The bid stays within the read limit unless the id is very long.
\<close>

lemma solver_bid_accepted:
  assumes "addr_text_ok ac" and "parseIntent ac jsonErr now received r = Inr i"
  shows "\<exists>bid. solverLoop ac solverAddr [broadcastMsg ac i] = Some bid \<and>
    (length (iID i) \<le> 512 \<longrightarrow> length bid \<le> maxMessageSize) \<and>
    parseBid ac now' bid = Inr \<lparr>bIntentID = iID i, bSolver = solverAddr, bAmountOut = Some 950000000000000000,
      bGasPrice = Some 1000000000, bReceivedAt = now', bSignature = []\<rparr>"
proof -
  from parseIntent_valid [OF assms(2)] obtain x y where i: "valid_utf8 (iID i)" "iAmountIn i = Some x" "iMinAmountOut i = Some y"
    by (auto simp: intent_valid_def)
  let ?req = "\<lparr>brIntentID = iID i, brSolver = AddressHex ac solverAddr, brAmountOut = bidAmount, brGasPrice = bidGas\<rparr>"
  have "solverLoop ac solverAddr [broadcastMsg ac i] = Some (print_json (bid_json ?req))"
    using solverReply_broadcast [OF broadcast_ok [OF assms(1) i]] by (simp add: intent_payload_def)
  moreover have "decodeBid (print_json (bid_json ?req)) = Some ?req"
    using assms(1) i(1) sim_ascii by (intro decodeBid_print) (simp_all add: addr_text_ok_def valid_utf8_ascii)
  moreover have "length bidAmount + length bidGas \<le> 64" by (simp add: bidAmount_def bidGas_def)
  note bid_message_fits [OF assms(1) _ this, of "iID i" solverAddr]
  ultimately show ?thesis using assms(1) by (simp add: parseBid_def sim_amounts addr_text_ok_def)
qed

text \<open>What the relayer makes of the request of the tool.\<close>

lemma simPost_accepted:
  assumes "addr_text_ok ac"
    and "simPost cr ab ac settlementAddr userKey (simIntent t userAddr tokenAddr deadline) = Inr r"
    and "Time_After (time_Unix (Time_Unix deadline)) now"
  obtains digest sig where "HashIntent cr ab (simDomain settlementAddr) (simIntent t userAddr tokenAddr deadline) = Inr digest"
    and "CryptoSign cr (hash_bytes digest) userKey = Inr sig"
    and "parseIntent ac jsonErr now received r = Inr ((simIntent t userAddr tokenAddr deadline)
      \<lparr>iDeadline := time_Unix (Time_Unix deadline), iSignature := sig, iReceivedAt := received\<rparr>)"
proof -
  let ?j = "simIntent t userAddr tokenAddr deadline"
  from assms(2) obtain digest sig where digest: "HashIntent cr ab (simDomain settlementAddr) ?j = Inr digest"
      and sig: "CryptoSign cr (hash_bytes digest) userKey = Inr sig"
      and r: "r = \<lparr>hrMethod = ''POST'', hrBody = simBody ac ?j sig\<rparr>"
    by (auto simp: simPost_def must_def split: sum.splits)
  have id: "valid_utf8 (iID ?j)"
    using is_ascii_big_String [of "sint t"] by (intro valid_utf8_ascii) (simp add: simIntent_def simIntentID_def is_ascii_def)
  have hex: "parseSignature (''0x'' @ hex_EncodeToString sig) = Some sig"
    by (simp add: parseSignature_def TrimPrefix_def HasPrefix_def hex_Decode_Encode)
  have "parseIntent ac jsonErr now received r =
      Inr (?j\<lparr>iDeadline := time_Unix (Time_Unix deadline), iSignature := sig, iReceivedAt := received\<rparr>)"
    using simBody_decoded [OF assms(1) id, of sig] assms(1,3) hex
    by (simp add: r parseIntent_def checkRequest_def sim_amounts addr_text_ok_def simIntent_def simIntentID_def Let_def)
  with digest sig show thesis by (rule that)
qed

subsection \<open>Properties\<close>

text \<open>
  C17. The request of the tool is accepted as long as its deadline is ahead in whole seconds, the intent
  the relayer then holds is the one the user signed, and its signature recovers to the user's address
  under the tool's EIP-712 domain.
\<close>

theorem posted_intent_verifies:
  assumes "addr_text_ok ac" and "sign_format cr" and "sign_recovers cr"
    and "userAddr = PubkeyToAddress cr (PublicKey cr userKey)"
    and "simPost cr ab ac settlementAddr userKey (simIntent t userAddr tokenAddr deadline) = Inr r"
    and "Time_After (time_Unix (Time_Unix deadline)) now"
  shows "\<exists>i digest. parseIntent ac jsonErr now received r = Inr i \<and>
    iID i = simIntentID t \<and> iSender i = userAddr \<and> iTokenIn i = tokenAddr \<and> iTokenOut i = tokenAddr \<and>
    iAmountIn i = Some 1000000000000000000 \<and> iMinAmountOut i = Some 900000000000000000 \<and>
    HashIntent cr ab (simDomain settlementAddr) i = Inr digest \<and>
    RecoverSigner cr digest (iSignature i) = Inr userAddr"
proof -
  let ?j = "simIntent t userAddr tokenAddr deadline"
  obtain digest sig where digest: "HashIntent cr ab (simDomain settlementAddr) ?j = Inr digest"
      and sig: "CryptoSign cr (hash_bytes digest) userKey = Inr sig"
      and accepted: "parseIntent ac jsonErr now received r =
        Inr (?j\<lparr>iDeadline := time_Unix (Time_Unix deadline), iSignature := sig, iReceivedAt := received\<rparr>)"
    by (rule simPost_accepted [OF assms(1,5,6)])
  let ?i = "?j\<lparr>iDeadline := time_Unix (Time_Unix deadline), iSignature := sig, iReceivedAt := received\<rparr>"
  have "HashIntent cr ab (simDomain settlementAddr) ?i = HashIntent cr ab (simDomain settlementAddr) ?j"
    by (rule HashIntent_same) (simp_all add: intentValues_def simIntent_def)
  then have hash: "HashIntent cr ab (simDomain settlementAddr) ?i = Inr digest" unfolding digest .
  have "RecoverSigner cr digest sig = Inr userAddr"
    using sig assms(2-4) by (auto simp: RecoverSigner_def sign_format_def sign_recovers_def)
  then have recovered: "RecoverSigner cr digest (iSignature ?i) = Inr userAddr" by simp
  have fields: "iID ?i = simIntentID t" "iSender ?i = userAddr" "iTokenIn ?i = tokenAddr" "iTokenOut ?i = tokenAddr"
      "iAmountIn ?i = Some 1000000000000000000" "iMinAmountOut ?i = Some 900000000000000000"
    by (simp_all add: simIntent_def sim_amounts)
  show ?thesis by (intro exI [of _ ?i] exI [of _ digest] conjI accepted hash recovered fields)
qed

lemma simPost_sample:
  assumes "0 \<le> sint (Time_Unix deadline)"
  shows "\<exists>r. simPost sample_crypto sample_abi ac settlementAddr 9 (simIntent unixNano userAddr tokenAddr deadline) = Inr r"
proof -
  let ?j = "simIntent unixNano userAddr tokenAddr deadline"
  have "intent_in_range ?j" using assms by (simp add: intent_in_range_def simIntent_def sim_amounts)
  note hash = HashIntent_static [OF sample_abi_static this, of sample_crypto "simDomain settlementAddr"]
  have sign: "CryptoSign sample_crypto d 9 = Inr (replicate 64 9 @ [0])" for d by (simp add: sample_crypto_def)
  show ?thesis unfolding simPost_def hash must_def sum.case sign by blast
qed

theorem posted_intent_verifies_witness:
  "\<exists>r i. simPost sample_crypto sample_abi sample_addr_text 5 9 (simIntent 77 9 2 (time_Unix 1900000000)) = Inr r \<and>
     parseIntent sample_addr_text (\<lambda>_. []) (time_Unix 1800000000) (time_Unix 1800000000) r = Inr i \<and> iSender i = 9"
proof -
  obtain r where r: "simPost sample_crypto sample_abi sample_addr_text 5 9 (simIntent 77 9 2 (time_Unix 1900000000)) = Inr r"
    using simPost_sample [of "time_Unix 1900000000"] by fastforce
  have after: "Time_After (time_Unix (Time_Unix (time_Unix 1900000000))) (time_Unix 1800000000)"
    by (simp add: Time_After_def time_Unix_def Time_Unix_def unixToInternal_def)
  have addr: "(9 :: address) = PubkeyToAddress sample_crypto (PublicKey sample_crypto 9)" by (simp add: sample_crypto_def)
  note run = posted_intent_verifies [OF sample_addr_text_ok sample_crypto_laws addr r after, of "\<lambda>_. []" "time_Unix 1800000000"]
  from run obtain i where "parseIntent sample_addr_text (\<lambda>_. []) (time_Unix 1800000000) (time_Unix 1800000000) r = Inr i"
      "iSender i = 9"
    by (elim exE conjE)
  with r show ?thesis by (intro exI conjI)
qed

lemma simIntentID_key: "idBytes (simIntentID t) = idBytes (simIntentID t') \<longleftrightarrow> t = t'"
  using idBytes_injective [of "simIntentID t" "simIntentID t'"] length_simIntentID [of t] length_simIntentID [of t']
    simIntentID_last [of t] simIntentID_last [of t'] simIntentID_inj [of t t'] by simp

subsection \<open>The call data and the ABI\<close>

text \<open>
  The reference: the encoding the contract ABI prescribes for values of static types, one 32-byte word
  each, and the call data made of a selector and the words.
\<close>

fun abi_word :: "go_value \<Rightarrow> bytes" where
  "abi_word (VBigInt x) = be_bytes 32 (word_of_int (case x of None \<Rightarrow> 0 | Some n \<Rightarrow> n) :: 256 word)"
| "abi_word (VAddress a) = replicate 12 0 @ address_bytes a"
| "abi_word (VBytes32 b) = b"
| "abi_word (VBytes b) = []"
| "abi_word (VBool b) = be_bytes 32 (if b then 1 else 0 :: 256 word)"

definition abi_calldata :: "bytes \<Rightarrow> go_value list \<Rightarrow> bytes" where
  "abi_calldata selector params = selector @ concat (map abi_word params)"

lemma base_256:
  fixes a b m n :: nat
  assumes "256 * a + m = 256 * b + n" and "m < 256" and "n < 256"
  shows "a = b \<and> m = n"
proof -
  have "(256 * a + m) div 256 = (256 * b + n) div 256" unfolding assms(1) ..
  with assms(2,3) have "a = b" by simp
  with assms(1) show ?thesis by simp
qed

lemma be_nat_inj: "length xs = length ys \<Longrightarrow> be_nat xs = be_nat ys \<Longrightarrow> xs = ys"
proof (induction xs arbitrary: ys rule: rev_induct)
  case (snoc x xs)
  then obtain z zs where ys: "ys = zs @ [z]" by (cases ys rule: rev_cases) auto
  have "unat x < 256" "unat z < 256" using unsigned_less [of x, where ?'a = nat] unsigned_less [of z, where ?'a = nat] by simp_all
  moreover from snoc.prems(2) ys have "256 * be_nat xs + unat x = 256 * be_nat zs + unat z" by simp
  ultimately have "be_nat xs = be_nat zs \<and> unat x = unat z" by (intro base_256)
  with snoc.IH [of zs] snoc.prems(1) ys show ?case by (simp add: word_unat_eq_iff)
qed simp

lemma pad_amount_word:
  assumes "0 \<le> x" and "x < 2 ^ 256"
  shows "LeftPadBytes (big_Bytes x) 32 = be_bytes 32 (word_of_int x :: 256 word)"
proof (rule be_nat_inj)
  let ?w = "word_of_int x :: 256 word"
  have "unat ?w < 256 ^ 32" using unsigned_less [of ?w, where ?'a = nat] by simp
  then have "be_nat (be_bytes 32 ?w) = unat ?w" by (simp only: be_nat_be_bytes mod_less)
  moreover have "uint ?w = x" using assms by (simp only: uint_word_of_int len_num0 len_num1 len_bit0 len_bit1 mod_pos_pos_trivial) simp
  then have "int (unat ?w) = int (be_nat (LeftPadBytes (big_Bytes x) 32))"
    by (simp only: uint_nat [symmetric] pad_amount(2) [OF assms])
  ultimately show "be_nat (LeftPadBytes (big_Bytes x) 32) = be_nat (be_bytes 32 ?w)"
    by (simp only: of_nat_eq_iff)
qed (simp add: pad_amount(1) [OF assms])

text \<open>
  C21. The tool locks through hand-built call data, and they are those of the binding: on a contract that
  encodes arguments as the ABI prescribes, with the selector the binding documents, \<open>LockIntent\<close> for the
  same id, token and amount sends the same bytes. The 32 bytes it locks are those \<open>execute\<close> derives from
  the id of the intent the tool posts, and two runs at different nanoseconds never share them.
\<close>

theorem lock_call_matches_binding:
  assumes "0 \<le> amount" and "amount < 2 ^ 256" and "selector ''lockIntent'' = [0x47, 0x64, 0x31, 0x64]"
    and "bcTransact c = (\<lambda>opts method params. sendTx opts (abi_calldata (selector method) params))"
  shows "LockIntent \<lparr>vtContract = c\<rparr> opts (idBytes (iID (simIntent t userAddr token deadline))) token (Some amount) =
      sendTx opts (lockIntentData (idBytes (simIntentID t)) token amount) \<and>
    (idBytes (simIntentID t) = idBytes (simIntentID t') \<longleftrightarrow> t = t')"
proof -
  have "LeftPadBytes (address_bytes token) 32 = replicate 12 0 @ address_bytes token" by (simp add: LeftPadBytes_def)
  with pad_amount_word [OF assms(1,2)] assms(3,4) simIntentID_key [of t t'] show ?thesis
    by (simp add: LockIntent_def abi_calldata_def lockIntentData_def simIntent_def)
qed

theorem lock_call_matches_binding_witness:
  "let c = sample_contract\<lparr>bcTransact := (\<lambda>opts method params. Inr (be_nat (abi_calldata [0x47, 0x64, 0x31, 0x64] params)))\<rparr>;
       opts = \<lparr>toFrom = 9, toNonce = 4, toGasTipCap = Some 1, toSigner = (\<lambda>a tx. Inr tx)\<rparr>
   in LockIntent \<lparr>vtContract = c\<rparr> opts (idBytes (iID (simIntent 5 9 7 (time_Unix 0)))) 7 (Some 1000) =
        Inr (be_nat (lockIntentData (idBytes (simIntentID 5)) 7 1000)) \<and>
      idBytes (simIntentID 5) \<noteq> idBytes (simIntentID 6)"
proof -
  let ?c = "sample_contract\<lparr>bcTransact := (\<lambda>opts method params. Inr (be_nat (abi_calldata [0x47, 0x64, 0x31, 0x64] params)))\<rparr>"
  have range: "0 \<le> (1000 :: int)" "(1000 :: int) < 2 ^ 256" by simp_all
  have distinct: "(5 :: 64 word) \<noteq> 6" by simp
  have transact: "bcTransact ?c = (\<lambda>opts method params. Inr (be_nat (abi_calldata [0x47, 0x64, 0x31, 0x64] params)))" by simp
  from lock_call_matches_binding [OF range, of "\<lambda>m. [0x47, 0x64, 0x31, 0x64]" ?c "\<lambda>opts d. Inr (be_nat d)"
      "\<lparr>toFrom = 9, toNonce = 4, toGasTipCap = Some 1, toSigner = (\<lambda>a tx. Inr tx)\<rparr>" 5 9 7 "time_Unix 0" 6, OF refl transact] distinct
  show ?thesis unfolding Let_def by blast
qed

lemma letter_not_json:
  assumes "c \<in> {CHR ''a'', CHR ''d'', CHR ''i'', CHR ''m'', CHR ''s''}"
  shows "decode_value (c # t) = None"
proof -
  have atom: "parse_atom (c # t) = None"
    using assms by (elim insertE; simp add: parse_atom_def HasPrefix_def dquote_def is_digit_def digit_val_def)
  have ws: "skip_ws (c # t) = c # t" and "c \<noteq> CHR ''{''" "c \<noteq> CHR ''[''"
    using assms by (elim insertE; simp add: skip_ws_def is_ws_def)+
  then have "parse_value (Suc n) (c # t) = None" for n unfolding parse_value.simps ws list.case atom by simp
  then show ?thesis unfolding decode_value_def by (metis add.commute plus_1_eq_Suc)
qed

lemma rejection_not_json: "decodeResponse (hpBody (http_Error e)) = None"
  by (cases e) (simp_all add: decodeResponse_def http_Error_def letter_not_json)

lemma accepted_answer:
  assumes "valid_utf8 iid"
  shows "checkResponse (Inr (acceptedResponse iid)) = Inr [''intent_id'' \<mapsto> iid, ''status'' \<mapsto> ''queued'']"
proof -
  have "decode_value (hpBody (acceptedResponse iid)) \<noteq> None" using response_body [OF assms]
    by (auto simp: decode_message_def split: option.splits)
  then obtain v rest where v: "decode_value (hpBody (acceptedResponse iid)) = Some (v, rest)" by auto
  with response_body [OF assms] have "v = response_json \<lparr>rsIntentID = iid, rsStatus = ''queued''\<rparr>"
    by (simp add: decode_message_def split: if_splits)
  with v have "decodeResponse (hpBody (acceptedResponse iid)) = Some [''intent_id'' \<mapsto> iid, ''status'' \<mapsto> ''queued'']"
    by (simp add: decodeResponse_def response_json_def)
  then show ?thesis by (simp add: checkResponse_def) (simp add: acceptedResponse_def)
qed

text \<open>
  C27. How the tool reads the relayer's answer: an accepted intent is read back with its id and status, but
  every rejection of the handler is plain text, so that the tool stops at the decoding of the body and
  never reports the status it was rejected with.
\<close>

theorem relayer_answer_read:
  assumes "valid_utf8 iid"
  shows "checkResponse (Inr (acceptedResponse iid)) = Inr [''intent_id'' \<mapsto> iid, ''status'' \<mapsto> ''queued''] \<and>
    checkResponse (Inr (http_Error e)) = Inl (SimFatal ''decode POST response'')"
  using accepted_answer [OF assms] by (simp add: checkResponse_def rejection_not_json)

theorem relayer_answer_read_witness:
  "checkResponse (Inr (acceptedResponse ''sim-1'')) = Inr [''intent_id'' \<mapsto> ''sim-1'', ''status'' \<mapsto> ''queued''] \<and>
   rejectionStatus AtCapacity = 503 \<and> checkResponse (Inr (http_Error AtCapacity)) = Inl (SimFatal ''decode POST response'')"
  using relayer_answer_read [of "''sim-1''" AtCapacity] by (simp add: valid_utf8_ascii is_ascii_def)

subsection \<open>A run that succeeds\<close>

text \<open>A contract call that was signed, sent and mined without a revert.\<close>

definition call_mined :: "('k, 'tx) sim_node \<Rightarrow> 'k \<Rightarrow> address \<Rightarrow> bytes \<Rightarrow> bool" where
  "call_mined node key to data \<longleftrightarrow>
     (\<exists>nonce price signedTx status contractAddress.
        snSignTx node \<lparr>dtChainID = 31337, dtNonce = nonce, dtGasFeeCap = price, dtGasTipCap = Some 1000000000,
          dtGas = 500000, dtTo = Some to, dtValue = None, dtData = data\<rparr> key = Inr signedTx \<and>
        snSend node signedTx = None \<and> Mined status contractAddress \<in> set (snReceipts node signedTx) \<and> status \<noteq> 0)"

lemma must_Inr [simp]: "must r context = Inr x \<longleftrightarrow> r = Inr x"
  by (auto simp: must_def split: sum.splits)

lemma waitMined_Inr: "waitMined label replies = Inr a \<Longrightarrow> \<exists>status. Mined status a \<in> set replies \<and> status \<noteq> 0"
  by (induction label replies rule: waitMined.induct) (auto split: if_splits)

lemma sendContractTx_Inr:
  assumes "sendContractTx cr node key to data 31337 label = Inr a"
  shows "call_mined node key to data"
  using assms
  by (auto simp: sendContractTx_def runTx_def call_mined_def dest!: waitMined_Inr split: sum.splits option.splits) blast

lemma simEscrow_Inr:
  assumes "simEscrow cr node mockTokenBytecode funderKey userKey settlementAddr unixNano = Inr tokenAddr"
  shows "call_mined (node 4) userKey settlementAddr
    (lockIntentData (idBytes (simIntentID unixNano)) tokenAddr 1000000000000000000)"
  using assms
  by (auto simp: simEscrow_def Let_def callLockIntent_def defaultChainID_def sim_amounts split: sum.splits
      intro: sendContractTx_Inr)

lemma simVerify_Inr:
  assumes "simVerify ct lib ethCl opts settlementAddr idb = Inr (Inr e)"
  obtains settlement where "NewVynxSettlement lib settlementAddr ethCl = Inr settlement"
    and "Escrows ct (vsCaller settlement) opts idb = Inr (e, None)" and "esIsResolved e"
  using assms by (auto simp: simVerify_def split: sum.splits prod.splits option.splits if_splits)

lemma checkResponse_Inr: "checkResponse answer = Inr m \<Longrightarrow> \<exists>resp. answer = Inr resp \<and> hpStatus resp = 202"
  by (auto simp: checkResponse_def split: sum.splits option.splits if_splits)

text \<open>
  C12. A simulation that reports success has seen the whole cycle: the lock transaction for its id was signed
  by its user, sent to the settlement contract and mined without a revert, the relayer answered 202 to
  the request for that id, and the escrow read back from the contract under the same 32 bytes is resolved.
\<close>

theorem simulation_success:
  assumes "simMain cr ab ac w = Inr (Inr e)"
  shows "\<exists>userKey tokenAddr url req resp ethCl settlement.
    swGenerateKey w 0 = Inr userKey \<and>
    call_mined (swNode w 4) userKey (settlementOf ac (swEnv w))
      (lockIntentData (idBytes (simIntentID (swUnixNano w))) tokenAddr 1000000000000000000) \<and>
    simPost cr ab ac (settlementOf ac (swEnv w)) userKey
      (simIntent (swUnixNano w) (keyAddress cr userKey) tokenAddr (simDeadline (swNow w))) = Inr req \<and>
    swPost w url req = Inr resp \<and> hpStatus resp = 202 \<and>
    NewVynxSettlement (swLib w) (settlementOf ac (swEnv w)) ethCl = Inr settlement \<and>
    Escrows (swConvert w) (vsCaller settlement) (swCallOpts w) (idBytes (simIntentID (swUnixNano w))) = Inr (e, None) \<and>
    esIsResolved e"
proof -
  from assms obtain ethCl userKey funderKey tokenAddr where s: "swGenerateKey w 0 = Inr userKey"
      "simEscrow cr (swNode w) (swBytecode w) funderKey userKey (settlementOf ac (swEnv w)) (swUnixNano w) = Inr tokenAddr"
      "simSettle cr ab ac w ethCl userKey tokenAddr = Inr (Inr e)"
    by (auto simp: simMain_def split: sum.splits)
  from s(3) obtain url req m where t: "simPost cr ab ac (settlementOf ac (swEnv w)) userKey
        (simIntent (swUnixNano w) (keyAddress cr userKey) tokenAddr (simDeadline (swNow w))) = Inr req"
      "checkResponse (swPost w url req) = Inr m"
      "simVerify (swConvert w) (swLib w) ethCl (swCallOpts w) (settlementOf ac (swEnv w))
        (idBytes (simIntentID (swUnixNano w))) = Inr (Inr e)"
    by (auto simp: simSettle_def Let_def simIntent_def split: sum.splits option.splits if_splits)
  from checkResponse_Inr [OF t(2)] obtain resp where "swPost w url req = Inr resp" "hpStatus resp = 202" by blast
  moreover obtain settlement where "NewVynxSettlement (swLib w) (settlementOf ac (swEnv w)) ethCl = Inr settlement"
      "Escrows (swConvert w) (vsCaller settlement) (swCallOpts w) (idBytes (simIntentID (swUnixNano w))) = Inr (e, None)"
      "esIsResolved e"
    by (rule simVerify_Inr [OF t(3)])
  ultimately show ?thesis using s(1) simEscrow_Inr [OF s(2)] t(1) by blast
qed

definition sample_node :: "(byte, nat) sim_node" where
  "sample_node =
     \<lparr>snPendingNonce = (\<lambda>a. Inr 0), snGasPrice = Inr (Some 1), snSignTx = (\<lambda>tx key. Inr 0), snSend = (\<lambda>tx. None),
      snReceipts = (\<lambda>tx. [NoReceipt, Mined 1 2])\<rparr>"

definition sample_world :: "(byte, nat, unit) sim_world" where
  "sample_world =
     \<lparr>swEnv = Map.empty, swDialRPC = (\<lambda>url. Inr ()), swGenerateKey = (\<lambda>n. Inr 9), swHexToECDSA = (\<lambda>t. Inr 9),
      swBytecode = [], swNode = (\<lambda>n. sample_node), swUnixNano = 1, swNow = time_Unix 1900000000,
      swDialWS = (\<lambda>url. None), swNewRequest = (\<lambda>url. None),
      swPost = (\<lambda>url req. Inr (acceptedResponse ''sim-1'')), swSolverEnded = True, swConvert = sample_convert,
      swLib = sample_bind_lib, swCallOpts = sample_opts\<rparr>"

lemma sim_id_one: "simIntentID 1 = ''sim-1''"
  by code_simp

lemma sample_contract_resolved:
  "Escrows sample_convert \<lparr>vcContract = sample_contract\<rparr> sample_opts (idBytes ''sim-1'') =
     Inr (\<lparr>esAgent = 3, esToken = 4, esAmount = Some 1000, esLockedAt = Some 77, esIsResolved = True\<rparr>, None)"
  by (simp add: Escrows_def sample_contract_def out_values sample_convert_same)

lemma sample_world_escrow:
  "simEscrow sample_crypto (\<lambda>n. sample_node) [] 9 9 settlementAddr unixNano = Inr 2"
  by (simp add: simEscrow_def Let_def sendETH_def deployMockToken_def callMint_def callApprove_def callLockIntent_def
      sendContractTx_def runTx_def sample_node_def must_def)

theorem simulation_success_witness:
  "\<exists>e. simMain sample_crypto sample_abi sample_addr_text sample_world = Inr (Inr e) \<and> esIsResolved e"
proof -
  have "0 \<le> sint (Time_Unix (simDeadline (time_Unix 1900000000)))"
    by (simp add: simDeadline_def Time_Unix_def time_Unix_def unixToInternal_def)
  from simPost_sample [OF this] have post: "\<exists>r. simPost sample_crypto sample_abi sample_addr_text sa 9
      (simIntent 1 a t (simDeadline (time_Unix 1900000000))) = Inr r" for sa a t .
  have answer: "checkResponse (Inr (acceptedResponse ''sim-1'')) = Inr [''intent_id'' \<mapsto> ''sim-1'', ''status'' \<mapsto> ''queued'']"
    by (rule accepted_answer) (simp add: valid_utf8_ascii is_ascii_def)
  have verify: "simVerify sample_convert sample_bind_lib () sample_opts sa
      (idBytes ''sim-1'') = Inr (Inr \<lparr>esAgent = 3, esToken = 4, esAmount = Some 1000, esLockedAt = Some 77, esIsResolved = True\<rparr>)" for sa
    by (simp add: simVerify_def must_def NewVynxSettlement_def bindVynxSettlement_def sample_bind_lib_def
      sample_contract_resolved)
  have "\<exists>e. simMain sample_crypto sample_abi sample_addr_text sample_world = Inr (Inr e)"
    using post [of "settlementOf sample_addr_text Map.empty" "keyAddress sample_crypto 9" 2] sample_world_escrow
    by (auto simp: simMain_def simSettle_def sample_world_def dialSolver_def must_def answer verify simIntent_def sim_id_one Let_def)
  then obtain e where e: "simMain sample_crypto sample_abi sample_addr_text sample_world = Inr (Inr e)" ..
  from simulation_success [OF e] e show ?thesis by blast
qed

end
