(* ===== verification/Solver_Keepalive.thy ===== *)
theory Solver_Keepalive
  imports Solver_Hub
begin

section \<open>The life of a solver connection (\<open>internal/ingress/mempool_ws.go\<close>)\<close>

text \<open>
  \<open>Solver_Hub\<close> lets a read fail at any moment. This theory has what decides it: the limit and the deadline
  that \<open>readPump\<close> sets on its connection, on a monotonic clock in nanoseconds, and the pings that
  \<open>writePump\<close> sends to keep it alive. Of the WebSocket library it uses what is documented: a read fails once
  the deadline has passed or when the message is longer than the limit, the pong handler runs inside the
  read that meets the pong, a deadline can be set while the connection is open, and pings of the peer are
  answered without the program. A solver that
  answers the pings is read without loss, and what is read are \<open>read\<close> steps of the hub. Nothing but a
  pong moves the deadline.
\<close>

definition pongWait :: int where "pongWait = 60 * 1000000000"
definition pingPeriod :: int where "pingPeriod = (pongWait * 9) div 10"

text \<open>What arrives on the connection, and how the loop of \<open>readPump\<close> ends.\<close>

datatype ws_frame = TextFrame string | PingFrame | PongFrame | CloseFrame

datatype read_end = StillReading | DeadlineExceeded | ReadLimitExceeded | ClosedByPeer

text \<open>
  The loop of \<open>readPump\<close> with the frames in the order of arrival: the messages it gets, with their times,
  and how it ends. The first argument is the read deadline.
\<close>

fun readFrames :: "int \<Rightarrow> (int \<times> ws_frame) list \<Rightarrow> (int \<times> string) list \<times> read_end" where
  "readFrames deadline [] = ([], StillReading)"
| "readFrames deadline ((t, f) # fs) =
     (if deadline \<le> t then ([], DeadlineExceeded)
      else
        (case f of
           PongFrame \<Rightarrow> readFrames (t + pongWait) fs
         | PingFrame \<Rightarrow> readFrames deadline fs
         | CloseFrame \<Rightarrow> ([], ClosedByPeer)
         | TextFrame msg \<Rightarrow>
             if maxMessageSize < length msg then ([], ReadLimitExceeded)
             else (let (msgs, e) = readFrames deadline fs in ((t, msg) # msgs, e))))"

definition readPump :: "int \<Rightarrow> (int \<times> ws_frame) list \<Rightarrow> (int \<times> string) list \<times> read_end" where
  "readPump opened frames = readFrames (opened + pongWait) frames"

text \<open>The first pings of \<open>writePump\<close> after its ticker was made.\<close>

definition pingTimes :: "int \<Rightarrow> nat \<Rightarrow> int list" where
  "pingTimes started n = map (\<lambda>k. started + int k * pingPeriod) [1..<Suc n]"

subsection \<open>Frames and messages\<close>

fun texts :: "(int \<times> ws_frame) list \<Rightarrow> (int \<times> string) list" where
  "texts [] = []"
| "texts ((t, f) # fs) = (case f of TextFrame msg \<Rightarrow> [(t, msg)] | _ \<Rightarrow> []) @ texts fs"

text \<open>A frame that does not end the loop by itself.\<close>

fun frame_ok :: "ws_frame \<Rightarrow> bool" where
  "frame_ok (TextFrame msg) \<longleftrightarrow> length msg \<le> maxMessageSize"
| "frame_ok CloseFrame \<longleftrightarrow> False"
| "frame_ok _ \<longleftrightarrow> True"

text \<open>Every ping is answered by a pong that arrives at most \<open>slack\<close> later.\<close>

definition answers :: "int \<Rightarrow> int list \<Rightarrow> (int \<times> ws_frame) list \<Rightarrow> bool" where
  "answers slack pings frames \<longleftrightarrow>
     list_all (\<lambda>ping. list_ex (\<lambda>(t, f). f = PongFrame \<and> ping \<le> t \<and> t \<le> ping + slack) frames) pings"

lemma period_values: "pongWait = 60000000000" "pingPeriod = 54000000000"
  by (simp_all add: pongWait_def pingPeriod_def)

lemma answersD:
  assumes "answers slack (pingTimes started n) frames" and "1 \<le> k" and "k \<le> n"
  obtains t where "(t, PongFrame) \<in> set frames" and "started + int k * pingPeriod \<le> t" and "t \<le> started + int k * pingPeriod + slack"
proof -
  from assms(2,3) have "started + int k * pingPeriod \<in> set (pingTimes started n)" by (auto simp: pingTimes_def)
  with assms(1) that show thesis by (fastforce simp: answers_def list_all_iff list_ex_iff)
qed

lemma readFrames_fits: "(t, msg) \<in> set (fst (readFrames dl fs)) \<Longrightarrow> length msg \<le> maxMessageSize"
  by (induction dl fs rule: readFrames.induct) (auto split: if_splits ws_frame.splits prod.splits)

subsection \<open>When every frame is read\<close>

text \<open>A frame is in time when it comes before the first deadline, or soon enough after an earlier pong.\<close>

definition in_time :: "int \<Rightarrow> (int \<times> ws_frame) list \<Rightarrow> bool" where
  "in_time dl fs \<longleftrightarrow> (\<forall>pre t f post. fs = pre @ (t, f) # post \<longrightarrow>
     t < dl \<or> (\<exists>u. (u, PongFrame) \<in> set pre \<and> t < u + pongWait))"

lemma in_timeD: "in_time dl (pre @ (t, f) # post) \<Longrightarrow> t < dl \<or> (\<exists>u. (u, PongFrame) \<in> set pre \<and> t < u + pongWait)"
  unfolding in_time_def by blast

lemma in_timeI:
  "(\<And>pre t f post. fs = pre @ (t, f) # post \<Longrightarrow> t < dl \<or> (\<exists>u. (u, PongFrame) \<in> set pre \<and> t < u + pongWait)) \<Longrightarrow> in_time dl fs"
  unfolding in_time_def by blast

lemma in_time_Cons:
  assumes "in_time dl ((t, f) # fs)"
  shows "t < dl" and "f \<noteq> PongFrame \<Longrightarrow> in_time dl fs" and "dl \<le> t + pongWait \<Longrightarrow> in_time (t + pongWait) fs"
proof -
  show "t < dl" using in_timeD [of dl "[]" t f fs] assms by simp
  have tail: "t' < dl \<or> (\<exists>u. (u, PongFrame) \<in> set ((t, f) # pre) \<and> t' < u + pongWait)" if "fs = pre @ (t', f') # post" for pre t' f' post
    using in_timeD [of dl "(t, f) # pre" t' f' post] assms that by simp
  show "in_time dl fs" if "f \<noteq> PongFrame"
  proof (rule in_timeI)
    fix pre t' f' post
    assume "fs = pre @ (t', f') # post"
    from tail [OF this] that show "t' < dl \<or> (\<exists>u. (u, PongFrame) \<in> set pre \<and> t' < u + pongWait)" by auto
  qed
  show "in_time (t + pongWait) fs" if "dl \<le> t + pongWait"
  proof (rule in_timeI)
    fix pre t' f' post
    assume "fs = pre @ (t', f') # post"
    from tail [OF this] that show "t' < t + pongWait \<or> (\<exists>u. (u, PongFrame) \<in> set pre \<and> t' < u + pongWait)" by auto
  qed
qed

lemma readFrames_all:
  assumes "in_time dl fs" and "dl \<le> t0 + pongWait" and "sorted (t0 # map fst fs)" and "list_all (\<lambda>(t, f). frame_ok f) fs"
  shows "readFrames dl fs = (texts fs, StillReading)"
  using assms
proof (induction fs arbitrary: dl t0)
  case (Cons x fs)
  obtain t f where x: "x = (t, f)" by (cases x)
  from Cons.prems x have t: "t < dl" "dl \<le> t + pongWait" "sorted (t # map fst fs)" "frame_ok f" "list_all (\<lambda>(t, f). frame_ok f) fs"
    using in_time_Cons(1) by auto
  have same: "readFrames dl fs = (texts fs, StillReading)" if "f \<noteq> PongFrame"
    using Cons.prems(1) x that t by (intro Cons.IH [of dl t]) (auto dest: in_time_Cons(2))
  have later: "readFrames (t + pongWait) fs = (texts fs, StillReading)"
    using Cons.prems(1) x t by (intro Cons.IH [of _ t]) (auto dest: in_time_Cons(3))
  from x t same later show ?case by (cases f) auto
qed simp

lemma answered_in_time:
  assumes "sorted (map fst frames)" and "answers slack (pingTimes started n) frames"
    and "0 \<le> slack" and early: "max 0 (started - opened) + slack < pongWait - pingPeriod"
    and horizon: "\<forall>(t, f) \<in> set frames. t < min opened started + int n * pingPeriod + pongWait"
  shows "in_time (opened + pongWait) frames"
proof (rule in_timeI)
  fix pre t f post
  assume fs: "frames = pre @ (t, f) # post"
  let ?late = "\<lambda>k. 1 \<le> k \<and> k \<le> n \<and> started + int k * pingPeriod + slack < t"
  show "t < opened + pongWait \<or> (\<exists>u. (u, PongFrame) \<in> set pre \<and> t < u + pongWait)"
  proof (cases "\<exists>k. ?late k")
    case True
    define k where "k = Max {k. ?late k}"
    have fin: "finite {k. ?late k}" by (rule finite_subset [of _ "{..n}"]) auto
    have "k \<in> {k. ?late k}" unfolding k_def using fin True by (intro Max_in) auto
    then have k: "?late k" by simp
    obtain u where u: "(u, PongFrame) \<in> set frames" "started + int k * pingPeriod \<le> u" "u \<le> started + int k * pingPeriod + slack"
      using answersD [OF assms(2), of k] k by blast
    have "u < t" using u k by simp
    then have "(u, PongFrame) \<in> set pre" using u(1) assms(1) fs by (auto simp: sorted_append)
    moreover have "t < u + pongWait"
    proof (cases "k = n")
      case True
      have "t < min opened started + int n * pingPeriod + pongWait" using horizon fs by auto
      with True u(2) show ?thesis by simp
    next
      case False
      have "Suc k \<notin> {k. ?late k}" using Max_ge [OF fin, of "Suc k", folded k_def] by linarith
      with False k have "t \<le> started + int (Suc k) * pingPeriod + slack" by simp
      with u(2) early show ?thesis by (simp add: distrib_right)
    qed
    ultimately show ?thesis by blast
  next
    case False
    show ?thesis
    proof (cases n)
      case 0
      with horizon fs show ?thesis by auto
    next
      case (Suc m)
      have "\<not> ?late 1" using False by blast
      with Suc have "t \<le> started + pingPeriod + slack" by simp
      with early have "t < opened + pongWait" by (simp add: max_def split: if_splits)
      then show ?thesis ..
    qed
  qed
qed

subsection \<open>The loop and the hub\<close>

text \<open>What \<open>readPump\<close> does with the messages, at the times a clock gives them.\<close>

definition readAll :: "addr_text \<Rightarrow> (int \<Rightarrow> go_time) \<Rightarrow> (int \<times> string) list \<Rightarrow> hub_sys \<Rightarrow> hub_sys" where
  "readAll ac clock msgs s = fold (\<lambda>(t, msg). readSection ac (clock t) msg) msgs s"

lemma readSection_heap [simp]: "hHeap (hsHub (readSection ac now msg s)) = hHeap (hsHub s)"
  by (simp add: readSection_def split: sum.split)

lemma readAll_steps:
  assumes "hHeap (hsHub s) p = Some c" and "cReader c = Reading" and "\<forall>(t, msg) \<in> set msgs. length msg \<le> maxMessageSize"
  shows "(hub_step ac Local)\<^sup>*\<^sup>* s (readAll ac clock msgs s)"
  using assms
proof (induction msgs arbitrary: s)
  case Nil
  then show ?case by (simp add: readAll_def)
next
  case (Cons m msgs)
  obtain t msg where m: "m = (t, msg)" by (cases m)
  let ?s = "readSection ac (clock t) msg s"
  have "hub_step ac Local s ?s" using Cons.prems m by (intro hub_step.read [of s p c]) auto
  moreover have "(hub_step ac Local)\<^sup>*\<^sup>* ?s (readAll ac clock msgs ?s)" using Cons.prems by (intro Cons.IH) auto
  ultimately show ?case by (simp add: readAll_def m converse_rtranclp_into_rtranclp)
qed

lemma hub_reach_steps: "(hub_step ac Local)\<^sup>*\<^sup>* s s' \<Longrightarrow> hub_reach ac buf s \<Longrightarrow> hub_reach ac buf s'"
  by (induction rule: rtranclp_induct) (auto intro: hub_reach.step)

text \<open>Without pongs nothing is read after the first deadline, whatever the solver sends.\<close>

lemma silent_solver_dropped:
  assumes "\<forall>(t, f) \<in> set frames. f \<noteq> PongFrame"
  shows "\<forall>(t, msg) \<in> set (fst (readPump opened frames)). t < opened + pongWait"
    and "snd (readPump opened frames) = StillReading \<Longrightarrow> \<forall>(t, f) \<in> set frames. t < opened + pongWait"
proof -
  have "(\<forall>(t, msg) \<in> set (fst (readFrames dl frames)). t < dl) \<and>
      (snd (readFrames dl frames) = StillReading \<longrightarrow> (\<forall>(t, f) \<in> set frames. t < dl))" for dl
    using assms
  proof (induction frames)
    case (Cons x fs)
    obtain t f where x: "x = (t, f)" by (cases x)
    with Cons show ?case by (cases f) (simp_all add: case_prod_unfold Let_def)
  qed simp
  from this [of "opened + pongWait"] show "\<forall>(t, msg) \<in> set (fst (readPump opened frames)). t < opened + pongWait"
    and "snd (readPump opened frames) = StillReading \<Longrightarrow> \<forall>(t, f) \<in> set frames. t < opened + pongWait"
    by (simp_all add: readPump_def)
qed

subsection \<open>Properties\<close>

text \<open>
  C14. A solver that answers the pings is never lost to the deadline. Let the reader set its first deadline and
  \<open>writePump\<close> start its ticker, in either order, and let every ping have its pong within a slack that together with a
  late start of the ticker stays below the difference of \<open>pongWait\<close> and \<open>pingPeriod\<close>, six seconds. Then, as long as pings are sent, every message
  within the read limit is read, in order, with the loop still running, and the bids reach the hub in
  one of its runs.
\<close>

theorem solver_kept_alive:
  assumes "sorted (opened # map fst frames)" and "list_all (\<lambda>(t, f). frame_ok f) frames"
    and "0 \<le> slack" and "max 0 (started - opened) + slack < pongWait - pingPeriod"
    and "answers slack (pingTimes started n) frames"
    and "\<forall>(t, f) \<in> set frames. t < min opened started + int n * pingPeriod + pongWait"
    and "hub_reach ac buf s" and "hHeap (hsHub s) p = Some c" and "cReader c = Reading"
  shows "readPump opened frames = (texts frames, StillReading) \<and>
    hub_reach ac buf (readAll ac clock (fst (readPump opened frames)) s)"
proof
  have "in_time (opened + pongWait) frames" using assms by (intro answered_in_time [of _ slack started n]) auto
  then show "readPump opened frames = (texts frames, StillReading)"
    unfolding readPump_def using assms(1,2) by (intro readFrames_all [of _ _ opened]) auto
  have "\<forall>(t, msg) \<in> set (fst (readPump opened frames)). length msg \<le> maxMessageSize"
    by (auto simp: readPump_def dest: readFrames_fits)
  from readAll_steps [OF assms(8,9) this] assms(7)
  show "hub_reach ac buf (readAll ac clock (fst (readPump opened frames)) s)" by (rule hub_reach_steps)
qed

theorem solver_kept_alive_witness:
  "let frames = [(10000000000, TextFrame sample_bid_msg), (54500000000, PongFrame), (100000000000, TextFrame sample_bid_msg)]
   in readPump 0 frames = ([(10000000000, sample_bid_msg), (100000000000, sample_bid_msg)], StillReading) \<and>
      hub_reach sample_addr_text 10000 (readAll sample_addr_text (\<lambda>t. time_Unix 1700000001) (fst (readPump 0 frames)) sample_hub)"
proof -
  let ?frames = "[(10000000000 :: int, TextFrame sample_bid_msg), (54500000000, PongFrame), (100000000000, TextFrame sample_bid_msg)]"
  have heap: "\<exists>c. hHeap (hsHub sample_hub) 0 = Some c \<and> cReader c = Reading" by (simp add: sample_hub_def Let_def)
  then obtain c where c: "hHeap (hsHub sample_hub) 0 = Some c" "cReader c = Reading" by blast
  have "sorted (0 # map fst ?frames)" "list_all (\<lambda>(t, f). frame_ok f) ?frames" "(0 :: int) \<le> 1000000000"
    "max 0 (0 - 0) + 1000000000 < pongWait - pingPeriod" "answers 1000000000 (pingTimes 0 1) ?frames"
    "\<forall>(t, f) \<in> set ?frames. t < min 0 0 + int 1 * pingPeriod + pongWait"
    using sample_bid_fits by (simp_all add: period_values answers_def pingTimes_def)
  note run = solver_kept_alive [OF this sample_hub_reach c, of "\<lambda>t. time_Unix 1700000001"]
  have "texts ?frames = [(10000000000, sample_bid_msg), (100000000000, sample_bid_msg)]" by simp
  from run [unfolded this] show ?thesis unfolding Let_def .
qed

end
