(* ===== verification/Spec2Isabelle.thy ===== *)
theory Spec2Isabelle
  imports Event_Bus Settlement_Events Settlement_ABI_Text Simulator Solver_Keepalive
begin

text \<open>
  \<^bold>\<open>A verification library for the VynX relayer.\<close>

  The relayer takes swap intents over HTTP, offers each of them to the connected solvers over WebSocket,
  runs a short auction among their bids, and settles the winning bid by a \<open>claimFunds\<close> transaction signed
  with its own key. All state is in memory; the parts talk through four buffered channels that
  \<open>cmd/relayer/main.go\<close> creates. This library translates the program into Isabelle definitions, one
  theory per part, and proves what makes the parts and their composition correct.

  \<^bold>\<open>The parts and how they interact.\<close>

  \<^item> \<open>POST /v1/intent\<close> (\<open>internal/ingress/handler.go\<close>) decodes and checks a request, pushes the intent to
    \<open>intentCh\<close> and broadcasts it through the hub.
  \<^item> The hub (\<open>internal/ingress/mempool_ws.go\<close>) keeps the solver connections, sends them the broadcasts and
    pushes the bids they send to \<open>bidCh\<close>.
  \<^item> Two dispatchers (\<open>cmd/relayer/main.go\<close>) feed \<open>intentCh\<close> and \<open>bidCh\<close> to the auction engine
    (\<open>internal/auction\<close>), whose goroutine per intent chooses the best bid and pushes a voucher.
  \<^item> The executor (\<open>internal/txmanager/executor.go\<close>) signs and submits each voucher with the key vault
    (\<open>internal/signer\<close>), the nonce queue and the OP Stack client (\<open>internal/txmanager\<close>), and reports failed
    ids to \<open>txFailedCh\<close>.
  \<^item> The binding (\<open>bindings/vynx_settlement.go\<close>) gives the settlement contract typed methods; the executor
    claims through it, and \<open>main\<close> binds it at start-up.
  \<^item> \<open>cmd/simulate/main.go\<close> plays the user and a solver against a running relayer.

  \<^bold>\<open>The theories.\<close>

  \<^item> \<open>Relayer_Prelude\<close>: bytes, addresses, hashes, Go's run-time panics as values, byte encodings, the
    collections of proof rules.
  \<^item> \<open>Go_Chan\<close>: buffered channels with non-blocking send, receive and close; the locale \<open>bounded_queue\<close> is the
    contract the other parts rely on (nothing is lost or reordered, no panic while open), interpreted on
    the channels.
  \<^item> \<open>Go_Text\<close>, \<open>Go_Json\<close>, \<open>Go_Json_Strings\<close>: what the code uses of \<open>math/big\<close>, \<open>strconv\<close>, \<open>encoding/hex\<close>,
    \<open>strings\<close>, \<open>bufio\<close> and \<open>encoding/json\<close>, down to the bytes. The locale \<open>text_codec\<close> (what is printed reads
    back) is interpreted on decimal and hexadecimal text. JSON values that are printed read back; every
    string the reader returns is well-formed UTF-8.
  \<^item> \<open>Core_Types\<close>: \<open>internal/core\<close>, with Go's 64-bit times and nil-able big integers.
  \<^item> \<open>Auction_Engine\<close>: \<open>state.go\<close> and \<open>matcher.go\<close> as whole operations on a heap of entries. The locale
    \<open>auction_house\<close> is the contract of the engine on an abstract book of auctions, interpreted on it.
  \<^item> \<open>Auction_Interleaving\<close>: the same code cut at its lock operations; \<open>engine_step\<close> interleaves the
    critical sections of any number of goroutines, with a history of what happened.
  \<^item> \<open>Signer\<close>: key vault, EIP-191 claim digest, EIP-712 intent digest, recovery.
  \<^item> \<open>Nonce_Queue\<close>: the atomic nonce counter at 64 bits; the locale \<open>nonce_source\<close> is interpreted on it.
  \<^item> \<open>Executor\<close>: \<open>execute\<close> on every branch, and the loop of \<open>Run\<close> as a step relation.
  \<^item> \<open>OP_Stack_Client\<close>: tip, L1 fee and gas estimate, with the \<open>float64\<close> product of the gas buffer rounded
    as IEEE 754 does.
  \<^item> \<open>Solver_Hub\<close>: wire formats, parsing of bids, the hub as whole operations and, in \<open>hub_step\<close>, as the
    sections of its goroutines under the read-write lock.
  \<^item> \<open>Solver_Keepalive\<close>: the loop of \<open>readPump\<close> on a clock, with its read limit, its deadline, the pings of
    \<open>writePump\<close> and the pongs that move the deadline; what it reads are steps of the hub.
  \<^item> \<open>Intent_Handler\<close>: \<open>SubmitIntent\<close> from the bytes of the body to the bytes of the response.
  \<^item> \<open>Relayer_Config\<close>: \<open>loadDotEnv\<close>, \<open>mustEnv\<close> and the variables \<open>main\<close> reads.
  \<^item> \<open>Event_Bus\<close>: dispatchers, start-up, shutdown and the whole relayer as one step relation, whose
    reachable states project to reachable states of hub, engine and executor.
  \<^item> \<open>Settlement_Bindings\<close>: the ABI as data, and every constructor, read, transaction, session and raw
    method of the binding over a contract that takes untyped values.
  \<^item> \<open>Settlement_ABI_Text\<close>: the JSON literal of the ABI, a reader and a writer of the format, and that the
    literal reads as the data of \<open>Settlement_Bindings\<close>.
  \<^item> \<open>Settlement_Events\<close>: structs, parsers, filters, iterators and subscriptions of the three events. The
    generated code is the same three times and is written once; the locale \<open>event_parser\<close> (a parsed event
    keeps its log) is interpreted on the three parsers.
  \<^item> \<open>Simulator\<close>: the simulation tool, from its messages and call data to \<open>main\<close>.
  \<^item> This theory: the properties of the whole.

  \<^bold>\<open>How code becomes definitions.\<close> A struct is a record and an operation a function with the branches and
  early returns of the code; a failing operation returns a sum with the error on the left, a panic
  included. Pointers that are shared (auction entries, clients) are addresses into a heap that is part of
  the state. Machine integers keep their width: nonces, chain ids, times and durations are 64-bit words.
  Iteration over a Go map takes an arbitrary order as an argument. The clock, the node, go-ethereum's
  cryptography and ABI coder, its textual form of addresses, and Unicode case conversion are parameters, and so are
  \<open>BoundContract\<close>, \<open>GetAbi\<close>, \<open>ConvertType\<close> and \<open>UnpackLog\<close> of its \<open>bind\<close> and \<open>abi\<close> packages;
  the few laws a theorem needs of them (\<open>sign_format\<close>, \<open>sign_recovers\<close>, \<open>abi_static\<close>, \<open>addr_text_ok\<close>, \<open>feed_fresh\<close>,
  \<open>method_returns\<close>) are named definitions that state documented behaviour, and each is shown to be satisfiable.

  \<^bold>\<open>What is shown.\<close>

  \<^item> End to end: every claim the relayer makes is for an accepted intent and pays the best of the bids
    recorded when its auction was scanned, signed by the relayer (\<open>claims_traceable\<close>); accepted intents
    are neither lost nor reordered, a voucher is lost only when the channel to the executor is full, and
    nothing panics (\<open>bus_conserves\<close>). The cycle can
    always complete: from the request of the simulation tool, over its solver's answer, to the claim of
    the escrow it locked (\<open>full_cycle\<close>).
  \<^item> Engine: the winner is the earliest of the highest bids; in every interleaving there is no panic, no
    leaked entry and one outcome per auction, every auction can finish, and each step is an atomic
    operation on the book. A bid recorded after the scan is accepted and lost (\<open>late_bid_never_counts\<close>).
  \<^item> Executor and nonces: one call per voucher with the right arguments, nonces that increase, failures
    reported whenever there is room, and the effect of every error on the nonce.
  \<^item> Signer: the digests bind every field up to an exhibited hash collision; signatures recover.
  \<^item> Hub and handler: no panic in any interleaving, broadcasts in order, draining on shutdown, exact
    round trips of bids, intents, broadcasts and responses, and every error response. A solver that answers
    the pings is never lost to the deadline (\<open>solver_kept_alive\<close>); one that only sends bids is. An id too
    long for a bid within the read limit is accepted and never settled (\<open>long_ids_never_settle\<close>).
  \<^item> Configuration: precedence of the environment over \<open>.env\<close>, and where the auction window overflows.
  \<^item> Binding: run-time checks against the ABI never fire (\<open>bindings_respect_abi\<close>), reads never panic, and the
    executor on the binding makes the claim the voucher asks for (\<open>claims_on_binding\<close>). Iterators deliver
    every log once and in order and end, subscriptions forward in order.
  \<^item> Simulation tool: its messages are understood by the relayer, its call data are those of the binding,
    its escrow is the one claimed, and it reports success only after the whole cycle. It misreads every
    rejection of the relayer (\<open>relayer_answer_read\<close>).

  \<^bold>\<open>Fuel and bounds.\<close> Two definitions are bounded. The JSON reader runs with fuel one more than twice the
  length of its input, and \<open>parse_fuel\<close> shows that more fuel never changes the result. \<open>waitMined\<close> is a
  recursion over the polls before its context is done, which are finitely many. \<open>iter_Next\<close> calls itself
  at most once, which its termination proof shows. All other loops of the
  code are structural recursions or step relations. The buffer of the gas estimate is exact below \<open>2 ^ 48\<close>.

  \<^bold>\<open>Not modelled.\<close> Logging. The network: sockets, TLS, \<open>net/http\<close> routing and timeouts, WebSocket framing,
  write deadlines, of which only success or failure of a read or write is visible. Real time, but for the
  deadline of a solver connection: a timer may fire at any moment, so nothing is said about latency. The settlement contract itself, which is
  not in the repository, and go-ethereum, of which only the interface is used. Of the simulation tool,
  its printing and the length of its timeouts.
\<close>

section \<open>Properties of the whole relayer\<close>

subsection \<open>A relayer that has settled one intent\<close>

definition start_env :: env where
  "start_env = [''BASE_RPC_URL'' \<mapsto> ''u'', ''SETTLEMENT_CONTRACT_ADDRESS'' \<mapsto> ''0x05'',
     ''RELAYER_PRIVATE_KEY'' \<mapsto> hex_EncodeToString (9 # replicate 31 0), ''CHAIN_ID'' \<mapsto> nat_string 8453,
     ''AUCTION_TIMEOUT_MS'' \<mapsto> nat_string 200]"

lemma start_env_runs:
  "\<exists>cfg s0. startRelayer sample_crypto sample_addr_text (\<lambda>u. Inr ()) sample_op_rpc (\<lambda>a. Inr 4) sample_bind_lib None start_env =
     Inr (cfg, \<lparr>ocOracleAddr = opHexToAddress sample_op_rpc gasPriceOracleAddr, ocOracleABI = ()\<rparr>, s0) \<and>
     xlExec (rlLoop s0) = NewExecutor \<lparr>kvPriv = 9, kvAddr = 9\<rparr> \<lparr>nqCurrent = 4\<rparr> 8453"
proof -
  have "hex_EncodeToString (9 # replicate 31 0) \<noteq> []" by (simp add: hex_EncodeToString_def)
  then show ?thesis
    by (simp add: startRelayer_def loadDotEnv_def readConfig_def mustEnv_def Getenv_def start_env_def envDefault_def
      Let_def ParseUint_nat_string NewKeyVaultFromHex_def hex_Decode_Encode sample_crypto_def NewOPStackClient_def
      sample_op_rpc_def NewNonceQueue_def VaultAddress_def wireRelayer_def initLoop_def NewVynxSettlement_def bindVynxSettlement_def
      sample_bind_lib_def)
qed

text \<open>The executor takes the voucher that waits for it and calls \<open>claimFunds\<close> once.\<close>

lemma relayer_settles:
  fixes s :: "('k, 'tx) relayer" and rp :: "'tx node_replies"
  assumes "sign_format cr" and sign: "\<And>d. \<exists>sig. VaultSign cr (exVault ex) d = Inr sig" and tip: "rpTip rp = Inr tip"
    and reach: "relayer_reach cr eth ul ac ex timeout s" and loop: "rlLoop s = initLoop ex voucherBuf txFailBuf"
    and main: "rlMain s = AwaitingQuit"
    and recv: "chan_recv (eVoucherCh (sEngine (rlEngine s))) = (Received v, ch)" and v: "voucher_ok v"
  obtains s' :: "('k, 'tx) relayer" and h c where "relayer_reach cr eth ul ac ex timeout s'"
    and "rlAccepted s' = rlAccepted s" and "rlHub s' = rlHub s"
    and "xlHandled (rlLoop s') = [h]" and "hVoucher h = v" and "erCalls (hResult h) = [c]" and "claim_matches cr ex v c"
proof -
  obtain res c where run: "execute cr eth ul rp ex v = Inr res" "erCalls res = [c]" "claim_matches cr ex v c"
  proof (cases rule: execute_cases [OF assms(1) v, of eth ul rp ex])
    case (1 e)
    from v obtain i where i: "vIntent v = Some i" by (auto simp: voucher_ok_def)
    obtain sig0 where "VaultSign cr (exVault ex) (ClaimDigest cr (idBytes (iID i)) (vWinningSolver v)) = Inr sig0"
      using sign by blast
    with 1 tip i show thesis by (auto simp: execute_def Let_def split: sum.splits option.splits prod.splits)
  qed (use tip that in auto)
  let ?s = "s\<lparr>rlEngine := takeSection (rlEngine s),
    rlLoop := handleVoucher cr eth ul rp v ((rlLoop s)\<lparr>xlSent := xlSent (rlLoop s) @ [v]\<rparr>)\<rparr>"
  have "executor_active (rlLoop s)" by (simp add: loop executor_active_def initLoop_def)
  from relayer_reach.step [OF reach _ relayer_step.settle [OF this recv]] main
  have step: "relayer_reach cr eth ul ac ex timeout ?s" by simp
  have room: "try_send iid (make_chan txFailBuf) = Inr (True, (make_chan txFailBuf)\<lparr>chBuf := [iid]\<rparr>)" for iid :: intent_id
    by (simp add: try_send_def make_chan_def txFailBuf_def)
  have "\<exists>h. xlHandled (rlLoop ?s) = [h] \<and> hVoucher h = v \<and> erCalls (hResult h) = [c]"
    using run(1,2) by (simp add: loop initLoop_def handleVoucher_def reportFailure_def room split: option.split)
  with step run(3) that [of ?s] show thesis by auto
qed

lemma sample_tip: "rpTip (sample_replies None :: nat node_replies) = Inr (Some 1)"
  by (simp add: sample_replies_def)

lemma settled_relayer:
  fixes ex :: "byte executor"
  assumes "ex = NewExecutor \<lparr>kvPriv = 9, kvAddr = 9\<rparr> \<lparr>nqCurrent = 4\<rparr> 8453"
  obtains s :: "(byte, nat) relayer" and h c where
    "relayer_reach sample_crypto sample_eth (\<lambda>x. x) sample_addr_text ex timeout s"
    and "h \<in> set (xlHandled (rlLoop s))" and "c \<in> set (erCalls (hResult h))"
proof -
  let ?b = "sample_bid ''i'' 7 900 3"
  let ?v = "newVoucher (time_Unix 1800000002) sample_posted ?b"
  have same: "bIntentID ?b = iID sample_posted" by (simp add: sample_bid_def sample_posted_def)
  obtain s :: "(byte, nat) relayer" where s: "relayer_reach sample_crypto sample_eth (\<lambda>x. x) sample_addr_text ex timeout s"
      "rlLoop s = initLoop ex voucherBuf txFailBuf" "rlMain s = AwaitingQuit"
      "chan_recv (eVoucherCh (sEngine (rlEngine s))) = (Received ?v, make_chan voucherBuf)"
    using relayer_cycle [OF sample_post_parsed [of "\<lambda>_. []"] parse_sample_bid sample_bid_fits same, of sample_crypto sample_eth "\<lambda>x. x" ex timeout
        "time_Unix 1800000002"] by metis
  have sign: "\<exists>sig. VaultSign sample_crypto (exVault ex) d = Inr sig" for d by (simp add: VaultSign_def sample_crypto_def)
  have "voucher_ok ?v" by (simp add: voucher_ok_def newVoucher_def bid_priced_def sample_bid_def sample_posted_def)
  then obtain s' :: "(byte, nat) relayer" and h c where "relayer_reach sample_crypto sample_eth (\<lambda>x. x) sample_addr_text ex timeout s'"
      "xlHandled (rlLoop s') = [h]" "erCalls (hResult h) = [c]"
    by (rule relayer_settles [OF sample_crypto_laws(1) sign sample_tip s])
  then show thesis by (intro that [of s' h c]) simp_all
qed

subsection \<open>Properties\<close>

text \<open>
  C1. End to end. Start the relayer from any environment and let its goroutines, the clients and the
  node do anything. Every \<open>claimFunds\<close> call it makes is for an intent that was posted, passed all checks
  and was accepted, and pays the solver of a bid that was parsed from a solver's message, is for that
  intent, has positive amounts, and was the best of the bids recorded when the auction was scanned. The
  call carries a signature on this id and solver that recovers to the relayer's own address.
\<close>

theorem claims_traceable:
  assumes "startRelayer cr ac dial rpc pending lib dotenv e = Inr (cfg, opClient, s0)"
    and "relayer_reach cr eth ul ac (xlExec (rlLoop s0)) (cfAuctionTimeout cfg) s"
    and "sign_format cr" and "sign_recovers cr"
    and "h \<in> set (xlHandled (rlLoop s))" and "c \<in> set (erCalls (hResult h))"
  shows "\<exists>i b p l1 l2. i \<in> set (rlAccepted s) \<and> intent_valid i \<and> parsed_bid ac b \<and> bid_positive b \<and>
    bIntentID b = iID i \<and> sLog (rlEngine s) = l1 @ Scanned p # l2 \<and> Started p i \<in> set (sLog (rlEngine s)) \<and>
    best_bid (appended p l1) = Some b \<and>
    ccIntentId c = idBytes (iID i) \<and> ccSolver c = bSolver b \<and>
    evm_signed cr (VaultAddress (exVault (xlExec (rlLoop s0))))
      (ClaimDigest cr (idBytes (iID i)) (bSolver b)) (ccSignature c)"
proof -
  note vault = startRelayer_ok(2) [OF assms(1)]
  have parts: "parts_ok cr eth ul ac (xlExec (rlLoop s0)) (cfAuctionTimeout cfg) s" and bus: "bus_ok ac s"
    using relayer_reach_ok [OF assms(2)] by simp_all
  obtain i b p l1 l2 now where v: "hVoucher h = newVoucher now i b" and src: "i \<in> set (rlAccepted s)"
      "intent_valid i" "parsed_bid ac b" "bIntentID b = iID i" "sLog (rlEngine s) = l1 @ Scanned p # l2"
      "Started p i \<in> set (sLog (rlEngine s))" "best_bid (appended p l1) = Some b"
    by (rule handled_voucher_source [OF parts bus assms(3,5)])
  from handled_claim [OF parts assms(3,4) vault assms(5,6)] v
  have "ccIntentId c = idBytes (iID i)" "ccSolver c = bSolver b"
    "evm_signed cr (VaultAddress (exVault (xlExec (rlLoop s0))))
      (ClaimDigest cr (idBytes (iID i)) (bSolver b)) (ccSignature c)"
    by (auto simp: newVoucher_def)
  with src parsed_bid_positive [OF src(3)] show ?thesis by blast
qed

theorem claims_traceable_witness:
  "\<exists>cfg opClient s0 (s :: (byte, nat) relayer) h c i b.
     startRelayer sample_crypto sample_addr_text (\<lambda>u. Inr ()) sample_op_rpc (\<lambda>a. Inr 4) sample_bind_lib None start_env =
       Inr (cfg, opClient, s0) \<and>
     relayer_reach sample_crypto sample_eth (\<lambda>x. x) sample_addr_text (xlExec (rlLoop (s0 :: (byte, nat) relayer)))
       (cfAuctionTimeout cfg) s \<and>
     h \<in> set (xlHandled (rlLoop s)) \<and> c \<in> set (erCalls (hResult h)) \<and>
     i \<in> set (rlAccepted s) \<and> parsed_bid sample_addr_text b \<and> ccIntentId c = idBytes (iID i) \<and> ccSolver c = bSolver b"
proof -
  obtain cfg opClient and s0 :: "(byte, nat) relayer" where start: "startRelayer sample_crypto sample_addr_text (\<lambda>u. Inr ())
      sample_op_rpc (\<lambda>a. Inr 4) sample_bind_lib None start_env = Inr (cfg, opClient, s0)"
      and ex: "xlExec (rlLoop s0) = NewExecutor \<lparr>kvPriv = 9, kvAddr = 9\<rparr> \<lparr>nqCurrent = 4\<rparr> 8453"
    using start_env_runs by (elim exE conjE)
  obtain s h c where "relayer_reach sample_crypto sample_eth (\<lambda>x. x) sample_addr_text (xlExec (rlLoop s0)) (cfAuctionTimeout cfg) s"
      "h \<in> set (xlHandled (rlLoop s))" "c \<in> set (erCalls (hResult h))"
    by (rule settled_relayer [OF ex])
  with claims_traceable [OF start this(1) sample_crypto_laws this(2,3)] start show ?thesis by blast
qed

text \<open>
  C5. The whole cycle is possible, for whatever libraries and keys: let the simulation tool post its
  intent while its deadline is ahead, let its solver be connected, and let the signing and the tip of
  the node succeed. Then the relayer has a run in which it accepts that intent alone and writes its
  announcement to the solver, the tool's solver answers what was written, and that answer wins: the
  executor handles one voucher, with the amount the tool bid, and makes one \<open>claimFunds\<close> call, for the
  32 bytes the tool locked its funds under, to the tool's solver, with the next nonce and a signature that
  recovers to the relayer's address.
\<close>

theorem full_cycle:
  fixes cr :: "('k, 'p) crypto" and eth :: "'tx eth_signer" and ex :: "'k executor" and rp :: "'tx node_replies"
  assumes "addr_text_ok ac" and "sign_format cr" and "sign_recovers cr" and "vault_ok cr (exVault ex)"
    and "simPost cr ab ac settlementAddr userKey (simIntent t userAddr tokenAddr deadline) = Inr r"
    and "Time_After (time_Unix (Time_Unix deadline)) now"
    and "\<And>d. \<exists>sig. VaultSign cr (exVault ex) d = Inr sig" and "rpTip rp = Inr tip"
  shows "\<exists>(s :: ('k, 'tx) relayer) i client msg b h c. relayer_reach cr eth ul ac ex timeout s \<and>
    parseIntent ac jsonErr now received r = Inr i \<and> rlAccepted s = [i] \<and>
    hHeap (hsHub (rlHub s)) 0 = Some client \<and> cWritten client = [broadcastMsg ac i] \<and>
    solverLoop ac solverAddr (cWritten client) = Some msg \<and> parseBid ac now msg = Inr b \<and>
    xlHandled (rlLoop s) = [h] \<and> vWinningBid (hVoucher h) = Some b \<and> vAmountOut (hVoucher h) = Some 950000000000000000 \<and> erCalls (hResult h) = [c] \<and>
    ccIntentId c = idBytes (simIntentID t) \<and> ccSolver c = solverAddr \<and>
    toNonce (ccOpts c) = uint (nqCurrent (exNonceQueue ex)) \<and>
    evm_signed cr (VaultAddress (exVault ex)) (ClaimDigest cr (ccIntentId c) (ccSolver c)) (ccSignature c)"
proof -
  obtain i where i: "parseIntent ac jsonErr now received r = Inr i" "iID i = simIntentID t"
    by (rule simPost_accepted [OF assms(1,5,6), of jsonErr received]) (simp add: simIntent_def)
  have "length (iID i) \<le> 512" using length_simIntentID [of t] i(2) by simp
  then obtain msg where msg: "solverLoop ac solverAddr [broadcastMsg ac i] = Some msg" and fits: "length msg \<le> maxMessageSize"
      and bid: "parseBid ac now msg = Inr \<lparr>bIntentID = iID i, bSolver = solverAddr, bAmountOut = Some 950000000000000000,
        bGasPrice = Some 1000000000, bReceivedAt = now, bSignature = []\<rparr>" (is "_ = Inr ?b")
    using solver_bid_accepted [OF assms(1) i(1)] by blast
  let ?v = "newVoucher now i ?b"
  obtain s :: "('k, 'tx) relayer" where s: "relayer_reach cr eth ul ac ex timeout s"
      "rlLoop s = initLoop ex voucherBuf txFailBuf" "rlMain s = AwaitingQuit" "rlAccepted s = [i]"
      "hHeap (hsHub (rlHub s)) 0 = Some (told_client (broadcastMsg ac i))"
      "chan_recv (eVoucherCh (sEngine (rlEngine s))) = (Received ?v, make_chan voucherBuf)"
    using relayer_cycle [OF i(1) bid fits, of cr eth ul ex timeout now] by auto
  have "voucher_ok ?v" by (simp add: voucher_ok_def newVoucher_def bid_priced_def)
  then obtain s' :: "('k, 'tx) relayer" and h c where settled: "relayer_reach cr eth ul ac ex timeout s'"
      "rlAccepted s' = rlAccepted s" "rlHub s' = rlHub s" "xlHandled (rlLoop s') = [h]" "hVoucher h = ?v"
      "erCalls (hResult h) = [c]" and claim: "claim_matches cr ex ?v c"
    by (rule relayer_settles [OF assms(2,7,8) s(1,2,3,6)])
  have call: "ccIntentId c = idBytes (simIntentID t)" "ccSolver c = solverAddr"
      "toNonce (ccOpts c) = uint (nqCurrent (exNonceQueue ex))"
      "evm_signed cr (VaultAddress (exVault ex)) (ClaimDigest cr (ccIntentId c) (ccSolver c)) (ccSignature c)"
    using claim assms(3,4) i(2) by (auto simp: claim_matches_def newVoucher_def)
  have told: "hHeap (hsHub (rlHub s')) 0 = Some (told_client (broadcastMsg ac i))"
      "cWritten (told_client (broadcastMsg ac i)) = [broadcastMsg ac i]"
    by (simp_all add: settled(3) s(5) told_client_def)
  have won: "vWinningBid (hVoucher h) = Some ?b" "vAmountOut (hVoucher h) = Some 950000000000000000"
    by (simp_all add: settled(5) newVoucher_def)
  show ?thesis
    by (intro exI conjI, (rule settled(1) i(1) settled(2) [unfolded s(4)] told msg [folded told(2)] bid settled(4,6) won call)+)
qed

theorem full_cycle_witness:
  "\<exists>r (s :: (byte, nat) relayer) i h c.
     simPost sample_crypto sample_abi sample_addr_text 5 9 (simIntent 77 9 2 (time_Unix 1900000000)) = Inr r \<and>
     relayer_reach sample_crypto sample_eth (\<lambda>x. x) sample_addr_text
       (NewExecutor \<lparr>kvPriv = 9, kvAddr = 9\<rparr> \<lparr>nqCurrent = 4\<rparr> 8453) 200 s \<and>
     rlAccepted s = [i] \<and> xlHandled (rlLoop s) = [h] \<and> erCalls (hResult h) = [c] \<and>
     ccIntentId c = idBytes (simIntentID 77) \<and> ccSolver c = 7 \<and> toNonce (ccOpts c) = 4"
proof -
  let ?ex = "NewExecutor \<lparr>kvPriv = 9 :: byte, kvAddr = 9\<rparr> \<lparr>nqCurrent = 4\<rparr> 8453"
  obtain r where r: "simPost sample_crypto sample_abi sample_addr_text 5 9 (simIntent 77 9 2 (time_Unix 1900000000)) = Inr r"
    using simPost_sample [of "time_Unix 1900000000"] by fastforce
  have after: "Time_After (time_Unix (Time_Unix (time_Unix 1900000000))) (time_Unix 1800000000)"
    by (simp add: Time_After_def time_Unix_def Time_Unix_def unixToInternal_def)
  have vault: "vault_ok sample_crypto (exVault ?ex)" by (simp add: vault_ok_def NewExecutor_def sample_crypto_def)
  have sign: "\<exists>sig. VaultSign sample_crypto (exVault ?ex) d = Inr sig" for d
    by (simp add: VaultSign_def sample_crypto_def)
  have nonce: "uint (nqCurrent (exNonceQueue ?ex)) = 4" by (simp add: NewExecutor_def)
  from full_cycle [OF sample_addr_text_ok sample_crypto_laws vault r after sign sample_tip, of sample_eth "\<lambda>x. x" 200 "\<lambda>_. []"
      "time_Unix 1800000000" 7] r nonce
  show ?thesis by metis
qed

text \<open>
  C15. The read limit decides which intents can be settled. The handler accepts an id of any length, but a
  bid names the id and must fit into one message. A message within the limit never yields an id of more
  than three times the limit, so that an accepted intent with a longer id never has a bid recorded and
  is never claimed, in any run.
\<close>

theorem long_ids_never_settle:
  assumes "relayer_reach cr eth ul ac ex timeout s" and "sign_format cr"
    and "i \<in> set (rlAccepted s)" and "3 * maxMessageSize < length (iID i)"
  shows "(\<forall>b \<in> log_bids (sLog (rlEngine s)). bIntentID b \<noteq> iID i) \<and>
    (\<forall>h \<in> set (xlHandled (rlLoop s)). vIntentID (hVoucher h) \<noteq> iID i)"
proof (intro conjI ballI)
  have parts: "parts_ok cr eth ul ac ex timeout s" and bus: "bus_ok ac s"
    using relayer_reach_ok [OF assms(1)] by simp_all
  have short: "bIntentID b \<noteq> iID i" if "parsed_bid ac b" for b
    using parsed_bid_short [OF that] assms(4) by auto
  show "bIntentID b \<noteq> iID i" if "b \<in> log_bids (sLog (rlEngine s))" for b
    using bus that by (intro short) (simp add: bus_ok_def)
  show "vIntentID (hVoucher h) \<noteq> iID i" if "h \<in> set (xlHandled (rlLoop s))" for h
    by (rule handled_voucher_source [OF parts bus assms(2) that]) (use short in \<open>auto simp: newVoucher_def\<close>)
qed

theorem long_ids_never_settle_witness:
  "\<exists>(s :: (byte, nat) relayer) i. relayer_reach sample_crypto sample_eth (\<lambda>x. x) sample_addr_text sample_executor 200 s \<and>
     rlAccepted s = [i] \<and> length (iID i) = 12289 \<and> (\<forall>h \<in> set (xlHandled (rlLoop s)). vIntentID (hVoucher h) \<noteq> iID i)"
proof -
  define iid where "iid = replicate 12289 (CHR ''a'')"
  have iid: "is_ascii iid" "iid \<noteq> []" "length iid = 12289" by (simp_all add: iid_def is_ascii_def list_all_iff)
  let ?i = "sample_posted\<lparr>iID := iid\<rparr>" and ?s = "wireRelayer sample_executor 200 :: (byte, nat) relayer"
  let ?ch = "(make_chan intentBuf)\<lparr>chBuf := [?i]\<rparr>"
  let ?s' = "?s\<lparr>rlIntentCh := ?ch, rlBroadcasts := [?i], rlAccepted := [?i]\<rparr>"
  have "try_send ?i (rlIntentCh ?s) = Inr (True, ?ch)" "rlServing ?s"
    by (simp_all add: wireRelayer_def try_send_def make_chan_def intentBuf_def)
  from relayer_step.post [OF this(2) post_as_parsed [OF iid(1,2), of "\<lambda>_. []"] this(1), of sample_crypto sample_eth "\<lambda>x. x"]
  have "relayer_step sample_crypto sample_eth (\<lambda>x. x) sample_addr_text ?s ?s'" by (simp add: wireRelayer_def)
  then have reach: "relayer_reach sample_crypto sample_eth (\<lambda>x. x) sample_addr_text sample_executor 200 ?s'"
    by (intro relayer_reach.step [OF relayer_reach.init]) (simp_all add: wireRelayer_def)
  have "?i \<in> set (rlAccepted ?s')" "3 * maxMessageSize < length (iID ?i)" by (simp_all add: maxMessageSize_def iid)
  from long_ids_never_settle [OF reach sample_crypto_laws(1) this] reach iid(3) show ?thesis
    by (intro exI [of _ ?s'] exI [of _ ?i]) simp
qed

text \<open>
  C4. What the bus keeps and the one thing it may lose. The accepted intents are those handed to the
  engine followed by those waiting in the channel. Every auction that has cleaned up had exactly one
  outcome: no bids, a voucher emitted or a voucher dropped. The vouchers the executor has handled followed by
  those waiting for it are the emitted ones, in order. A voucher is dropped only when the channel is
  full: at that moment exactly \<open>voucherBuf\<close> emitted vouchers had not been taken. Nothing panics.
\<close>

theorem bus_conserves:
  assumes "relayer_reach cr eth ul ac ex timeout s" and "sign_format cr"
  shows "rlAccepted s = dispatched (sLog (rlEngine s)) @ chBuf (rlIntentCh s) \<and>
    emitted (sLog (rlEngine s)) = map hVoucher (xlHandled (rlLoop s)) @ chBuf (eVoucherCh (sEngine (rlEngine s))) \<and>
    (\<forall>l1 p v l2. sLog (rlEngine s) = l1 @ Dropped p v # l2 \<longrightarrow>
       length (emitted l1) = length (taken l1) + voucherBuf) \<and>
    (\<forall>p. Cleaned p \<in> set (sLog (rlEngine s)) \<longrightarrow> length (filter (is_outcome p) (sLog (rlEngine s))) = 1) \<and>
    hsPanic (rlHub s) = None \<and> \<not> sCrashed (rlEngine s) \<and> xlPanic (rlLoop s) = None"
proof -
  have parts: "parts_ok cr eth ul ac ex timeout s" and bus: "bus_ok ac s"
    using relayer_reach_ok [OF assms(1)] by simp_all
  have loop: "loop_ok cr eth ul ex txFailBuf (rlLoop s)"
    using parts assms(2) by (auto simp: parts_ok_def dest: executor_reach_ok)
  have eng: "engine_reach voucherBuf timeout (rlEngine s)" and hub: "hub_sys_ok ac (rlHub s)"
    using parts by (auto simp: parts_ok_def dest: hub_reach_ok)
  have "xlSent (rlLoop s) = map hVoucher (xlHandled (rlLoop s))"
    using loop_okD(6) [OF loop] bus by (simp add: bus_ok_def make_chan_def)
  with engine_reach_transit [OF eng] bus hub sys_okD(2) [OF engine_reach_ok [OF eng]] loop_okD(1) [OF loop]
  show ?thesis using engine_accounts [OF eng] by (simp add: in_transit_def bus_ok_def hub_sys_ok_def)
qed

theorem bus_conserves_witness:
  "\<exists>s :: (byte, nat) relayer. relayer_reach sample_crypto sample_eth (\<lambda>x. x) sample_addr_text
       (NewExecutor \<lparr>kvPriv = 9, kvAddr = 9\<rparr> \<lparr>nqCurrent = 4\<rparr> 8453) 200 s \<and> xlHandled (rlLoop s) \<noteq> [] \<and>
     rlAccepted s = dispatched (sLog (rlEngine s)) @ chBuf (rlIntentCh s)"
proof -
  obtain s h c where s: "relayer_reach sample_crypto sample_eth (\<lambda>x. x) sample_addr_text
        (NewExecutor \<lparr>kvPriv = 9, kvAddr = 9\<rparr> \<lparr>nqCurrent = 4\<rparr> 8453) 200 s"
      "h \<in> set (xlHandled (rlLoop s))" "c \<in> set (erCalls (hResult h))"
    by (rule settled_relayer [OF refl])
  with bus_conserves [OF s(1) sample_crypto_laws(1)] show ?thesis by (intro exI [of _ s]) auto
qed

end
